(* ===== verification/Prelude.thy ===== *)
theory Prelude
  imports Main "HOL-Library.AList" "HOL-Library.Sublist" "HOL-Library.Multiset"
begin

text \<open>
  What every component of the development shares: the names of the model's
  basic types, the error values of the program, the result convention, and
  generic lemmas on association lists (the model of a Go map) and on lists.

  Conventions. A Go \<open>string\<close> or \<open>[]byte\<close> is a list of bytes, so it is the
  HOL type \<open>string\<close> (a \<open>char\<close> is one byte and \<open>length\<close> is Go's \<open>len\<close>).
  A \<open>rune\<close> is a natural number. A \<open>time.Time\<close> is the number of nanoseconds
  since the zero time, so \<open>IsZero\<close> is equality with 0; a \<open>time.Duration\<close> is a
  number of nanoseconds. The clock is read by passing the current time as
  an argument called \<open>now\<close>. A function that returns \<open>(T, error)\<close> returns
  \<open>go_error + 'T\<close>; one that returns \<open>error\<close> returns \<open>go_error option\<close>, with
  \<open>None\<close> for \<open>nil\<close>. A run-time panic is the error value \<open>GoPanic\<close>.
\<close>

type_synonym time = int
type_synonym duration = int
type_synonym rune = nat

named_theorems set_view "how the operations of the keyed set act on its abstract map"
named_theorems set_wf "the operations of the keyed set keep its invariant"

section \<open>Error values\<close>

text \<open>One constructor per error variable of the program, \<open>Errorf\<close> for
  errors made with a text of their own, and \<open>GoPanic\<close> for a panic.\<close>

datatype go_error =
    ErrCollision | ErrMissing
  | ErrUserClosed | ErrRoomClosed | ErrInvalidName
  | ErrInvalidCommand | ErrNoOwner | ErrMissingArg | ErrMissingPrefix
  | ErrNotAllowed | ErrBanned | ErrIncorrectPassphrase
  | ErrRateExceeded | IoEOF | ErrPasteIndicator
  | Errorf string
  | GoPanic string

section \<open>Time units\<close>

definition time_Second :: duration where
  "time_Second = 1000000000"

definition time_Minute :: duration where
  "time_Minute = 60 * time_Second"

section \<open>Association lists as Go maps\<close>

text \<open>
  A Go map is an association list with distinct keys. The order of the list
  carries no meaning: Go's \<open>range\<close> visits a map in an order the runtime
  chooses, and the model gets that order from a scheduler, a function on the
  list of keys that may return any permutation of it.
\<close>

type_synonym sched = "string list \<Rightarrow> string list"

definition permuting :: "sched \<Rightarrow> bool" where
  "permuting ord \<longleftrightarrow> (\<forall>ks. mset (ord ks) = mset ks)"

lemma permuting_set: "permuting ord \<Longrightarrow> set (ord ks) = set ks"
  by (metis permuting_def set_mset_mset)

lemma permuting_distinct: "permuting ord \<Longrightarrow> distinct (ord ks) = distinct ks"
  by (metis permuting_def mset_eq_imp_distinct_iff)

lemma permuting_length: "permuting ord \<Longrightarrow> length (ord ks) = length ks"
  by (metis permuting_def size_mset)

lemma permuting_id [simp]: "permuting (\<lambda>ks. ks)"
  by (simp add: permuting_def)

lemma permuting_rev [simp]: "permuting rev"
  by (simp add: permuting_def)

lemma map_of_update [simp]: "map_of (AList.update k v al) = (map_of al)(k \<mapsto> v)"
  by (simp add: update_conv')

lemma map_of_delete [simp]: "map_of (AList.delete k al) = (map_of al)(k := None)"
  by (simp add: delete_conv')

lemma map_of_in_set: "distinct (map fst al) \<Longrightarrow> map_of al k = Some v \<longleftrightarrow> (k, v) \<in> set al"
  by (metis Some_eq_map_of_iff)

lemma set_update_subset: "set (AList.update k v al) \<subseteq> insert (k, v) (set al)"
  by (induction al) auto

lemma set_delete_subset: "set (AList.delete k al) \<subseteq> set al"
  by (induction al) auto

lemma length_update:
  "length (AList.update k v al) = (if map_of al k = None then Suc (length al) else length al)"
  by (induction al) auto

end
