(* ===== verification/GoStrings.thy ===== *)
theory GoStrings
  imports Prelude
begin

text \<open>
  The functions of Go's \<open>unicode/utf8\<close>, \<open>strings\<close> and \<open>strconv\<close> the
  program calls, on byte strings. Text that the user types is UTF-8 and may be
  malformed, so decoding follows Go: a byte that starts no valid sequence
  decodes to \<open>RuneError\<close> with width 1. The Unicode case table is not written
  out: \<open>ToLower\<close> takes the lower-casing of the runes from 128 on as an argument,
  and is fully determined on ASCII strings.
\<close>

section \<open>UTF-8\<close>

definition bv :: "char \<Rightarrow> nat" where
  "bv c = of_char c"

definition byte :: "nat \<Rightarrow> char" where
  "byte n = char_of n"

lemma bv_byte [simp]: "n < 256 \<Longrightarrow> bv (byte n) = n"
  by (simp add: bv_def byte_def)

lemma bv_lt [simp]: "bv c < 256"
  by (simp add: bv_def)

definition RuneError :: rune where
  "RuneError = 0xFFFD"

text \<open>Size of the sequence a lead byte announces and the range of its second
  byte; an invalid lead byte has size 1.\<close>

definition lead :: "nat \<Rightarrow> nat \<times> nat \<times> nat" where
  "lead b =
    (if 0xC2 \<le> b \<and> b \<le> 0xDF then (2, 0x80, 0xBF)
     else if b = 0xE0 then (3, 0xA0, 0xBF)
     else if b = 0xED then (3, 0x80, 0x9F)
     else if 0xE1 \<le> b \<and> b \<le> 0xEF then (3, 0x80, 0xBF)
     else if b = 0xF0 then (4, 0x90, 0xBF)
     else if 0xF1 \<le> b \<and> b \<le> 0xF3 then (4, 0x80, 0xBF)
     else if b = 0xF4 then (4, 0x80, 0x8F)
     else (1, 0, 0))"

definition cont_byte :: "nat \<Rightarrow> bool" where
  "cont_byte b \<longleftrightarrow> 0x80 \<le> b \<and> b \<le> 0xBF"

fun DecodeRune :: "string \<Rightarrow> rune \<times> nat" where
  "DecodeRune [] = (RuneError, 0)"
| "DecodeRune (c # cs) =
    (let b0 = bv c in
     if b0 < 0x80 then (b0, 1)
     else let (sz, lo, hi) = lead b0 in
       if sz = 1 \<or> length (c # cs) < sz then (RuneError, 1)
       else let b1 = bv (cs ! 0) in
         if b1 < lo \<or> hi < b1 then (RuneError, 1)
         else if sz = 2 then ((b0 mod 32) * 64 + b1 mod 64, 2)
         else let b2 = bv (cs ! 1) in
           if \<not> cont_byte b2 then (RuneError, 1)
           else if sz = 3 then ((b0 mod 16) * 4096 + (b1 mod 64) * 64 + b2 mod 64, 3)
           else let b3 = bv (cs ! 2) in
             if \<not> cont_byte b3 then (RuneError, 1)
             else ((b0 mod 8) * 262144 + (b1 mod 64) * 4096 + (b2 mod 64) * 64 + b3 mod 64, 4))"

text \<open>\<open>FullRune\<close>: whether the bytes begin with a full encoding of a rune; an
  invalid encoding is full, since it decodes to an error of width 1.\<close>

fun FullRune :: "string \<Rightarrow> bool" where
  "FullRune [] = False"
| "FullRune (c # cs) =
    (let (sz, lo, hi) = lead (bv c) in
     sz \<le> length (c # cs)
     \<or> (1 < length (c # cs) \<and> (bv (cs ! 0) < lo \<or> hi < bv (cs ! 0)))
     \<or> (2 < length (c # cs) \<and> \<not> cont_byte (bv (cs ! 1))))"

text \<open>A string as its runes, each with the bytes it was decoded from.\<close>

fun chunks :: "string \<Rightarrow> (rune \<times> string) list" where
  "chunks [] = []"
| "chunks (c # cs) =
    (let (r, n) = DecodeRune (c # cs) in (r, take n (c # cs)) # chunks (drop (n - 1) cs))"

definition to_runes :: "string \<Rightarrow> rune list" where
  "to_runes s = map fst (chunks s)"

definition RuneCount :: "string \<Rightarrow> nat" where
  "RuneCount s = length (chunks s)"

definition surrogate :: "rune \<Rightarrow> bool" where
  "surrogate r \<longleftrightarrow> 0xD800 \<le> r \<and> r \<le> 0xDFFF"

definition valid_rune :: "rune \<Rightarrow> bool" where
  "valid_rune r \<longleftrightarrow> r \<le> 0x10FFFF \<and> \<not> surrogate r"

definition encode3 :: "rune \<Rightarrow> string" where
  "encode3 r = [byte (0xE0 + r div 4096), byte (0x80 + r div 64 mod 64), byte (0x80 + r mod 64)]"

definition encode_rune :: "rune \<Rightarrow> string" where
  "encode_rune r =
    (if r \<le> 0x7F then [byte r]
     else if r \<le> 0x7FF then [byte (0xC0 + r div 64), byte (0x80 + r mod 64)]
     else if 0x10FFFF < r \<or> surrogate r then encode3 RuneError
     else if r \<le> 0xFFFF then encode3 r
     else [byte (0xF0 + r div 262144), byte (0x80 + r div 4096 mod 64),
           byte (0x80 + r div 64 mod 64), byte (0x80 + r mod 64)])"

definition of_runes :: "rune list \<Rightarrow> string" where
  "of_runes rs = concat (map encode_rune rs)"

lemma lead_size: "lead b = (sz, lo, hi) \<Longrightarrow> sz = 1 \<or> sz = 2 \<or> sz = 3 \<or> sz = 4"
  by (auto simp: lead_def split: if_splits)

lemma DecodeRune_width: "s \<noteq> [] \<Longrightarrow> 1 \<le> snd (DecodeRune s) \<and> snd (DecodeRune s) \<le> length s"
proof (cases s)
  case (Cons c cs)
  obtain sz lo hi where l: "lead (bv c) = (sz, lo, hi)" by (cases "lead (bv c)") auto
  show ?thesis
    using lead_size [OF l] l Cons by (auto simp: Let_def Suc_le_eq)
qed simp

lemma chunks_bytes: "concat (map snd (chunks s)) = s"
proof (induction s rule: chunks.induct)
  case 1
  show ?case by simp
next
  case (2 c cs)
  obtain r n where d: "DecodeRune (c # cs) = (r, n)" by fastforce
  with DecodeRune_width [of "c # cs"] have n: "1 \<le> n" by simp
  have "concat (map snd (chunks (drop (n - 1) cs))) = drop (n - 1) cs"
    by (rule "2.IH" [OF d [symmetric] refl])
  moreover have "take n (c # cs) @ drop (n - 1) cs = c # cs"
    using n by (cases n) simp_all
  ultimately show ?case by (simp only: chunks.simps d Let_def split_conv list.map concat.simps snd_conv)
qed

lemma length_encode_rune: "1 \<le> length (encode_rune r) \<and> length (encode_rune r) \<le> 4"
  by (simp add: encode_rune_def encode3_def)

lemma encode_rune_nonempty [simp]: "encode_rune r \<noteq> []"
  by (simp add: encode_rune_def encode3_def)

text \<open>Decoding undoes encoding, one lemma per length of the encoding.\<close>

lemma decode_encode1: "r < 0x80 \<Longrightarrow> DecodeRune (encode_rune r @ s) = (r, 1)"
  by (simp add: encode_rune_def)

lemma mod_offset: "k dvd c \<Longrightarrow> m < k \<Longrightarrow> (c + m) mod k = (m::nat)"
  by (auto elim!: dvdE)

lemma cont_digit:
  assumes "m < 64"
  shows "(128 + m) mod 64 = m" and "cont_byte (128 + m)" and "128 + m < 256"
  using assms mod_offset [of 64 128 m] by (simp_all add: cont_byte_def)

lemma decode2:
  assumes q: "2 \<le> q" "q < 32" and m: "m < 64"
  shows "DecodeRune (byte (0xC0 + q) # byte (0x80 + m) # s) = (q * 64 + m, 2)"
proof -
  have "(192 + q) mod 32 = q" using q by (intro mod_offset) simp_all
  then show ?thesis using q m by (simp add: lead_def cont_digit)
qed

lemma decode_encode2: 
  assumes "0x80 \<le> r" "r \<le> 0x7FF" shows "DecodeRune (encode_rune r @ s) = (r, 2)"
proof -
  have "2 \<le> r div 64" "r div 64 < 32" using assms by auto
  with decode2 [of "r div 64" "r mod 64" s] assms show ?thesis by (simp add: encode_rune_def)
qed

lemma decode3:
  assumes "a < 16" "b < 64" "c < 64" "a = 0 \<Longrightarrow> 32 \<le> b" "a = 13 \<Longrightarrow> b < 32"
  shows "DecodeRune (byte (0xE0 + a) # byte (0x80 + b) # byte (0x80 + c) # s) = (a * 4096 + b * 64 + c, 3)"
proof -
  have "(224 + a) mod 16 = a" using assms by (intro mod_offset) simp_all
  moreover have "lead (224 + a) = (3, if a = 0 then 160 else 128, if a = 13 then 159 else 191)"
    using assms(1) by (simp add: lead_def)
  ultimately show ?thesis using assms by (auto simp: cont_digit Let_def)
qed

lemma decode_encode3: 
  assumes r: "0x7FF < r" "r \<le> 0xFFFF" "\<not> surrogate r" shows "DecodeRune (encode_rune r @ s) = (r, 3)"
proof -
  define q a where "q = r div 64" and "a = q div 64"
  have div: "r div 4096 = a"
    by (simp add: a_def q_def div_mult2_eq [symmetric])
  have dec: "r = q * 64 + r mod 64" "q = a * 64 + q mod 64"
    by (simp_all add: a_def q_def)
  have lt: "r mod 64 < 64" "q mod 64 < 64" by simp_all
  have "a < 16" "a = 0 \<Longrightarrow> 32 \<le> q mod 64" using r dec lt by linarith+
  moreover have "a = 13 \<Longrightarrow> q mod 64 < 32"
    using r(3) dec lt unfolding surrogate_def by linarith
  moreover have "a * 4096 + q mod 64 * 64 + r mod 64 = r"
    using dec by linarith
  ultimately show ?thesis
    using decode3 [of a "q mod 64" "r mod 64" s] r lt
    by (simp add: encode_rune_def encode3_def div q_def)
qed

lemma decode4:
  assumes "a < 5" "b < 64" "c < 64" "d < 64" "a = 0 \<Longrightarrow> 16 \<le> b" "a = 4 \<Longrightarrow> b < 16"
  shows "DecodeRune (byte (0xF0 + a) # byte (0x80 + b) # byte (0x80 + c) # byte (0x80 + d) # s)
    = (a * 262144 + b * 4096 + c * 64 + d, 4)"
proof -
  have "(240 + a) mod 8 = a" using assms by (intro mod_offset) simp_all
  moreover have "lead (240 + a) = (4, if a = 0 then 144 else 128, if a = 4 then 143 else 191)"
    using assms(1) by (auto simp add: lead_def)
  ultimately show ?thesis using assms by (auto simp: cont_digit Let_def)
qed

lemma decode_encode4: 
  assumes r: "0xFFFF < r" "r \<le> 0x10FFFF" shows "DecodeRune (encode_rune r @ s) = (r, 4)"
proof -
  define q p a where "q = r div 64" and "p = q div 64" and "a = p div 64"
  have div: "r div 4096 = p" "r div 262144 = a"
    by (simp_all add: a_def p_def q_def div_mult2_eq [symmetric])
  have dec: "r = q * 64 + r mod 64" "q = p * 64 + q mod 64" "p = a * 64 + p mod 64"
    by (simp_all add: a_def p_def q_def)
  have lt: "r mod 64 < 64" "q mod 64 < 64" "p mod 64 < 64" by simp_all
  have "a < 5" "a = 0 \<Longrightarrow> 16 \<le> p mod 64" "a = 4 \<Longrightarrow> p mod 64 < 16"
    using r dec lt by linarith+
  moreover have "a * 262144 + p mod 64 * 4096 + q mod 64 * 64 + r mod 64 = r"
    using dec by linarith
  ultimately show ?thesis
    using decode4 [of a "p mod 64" "q mod 64" "r mod 64" s] r lt
    by (simp add: encode_rune_def surrogate_def div q_def)
qed

lemma DecodeRune_encode:
  "valid_rune r \<Longrightarrow> DecodeRune (encode_rune r @ s) = (r, length (encode_rune r))"
proof -
  assume v: "valid_rune r"
  consider "r < 0x80" | "0x80 \<le> r" "r \<le> 0x7FF" | "0x7FF < r" "r \<le> 0xFFFF" "\<not> surrogate r"
    | "0xFFFF < r" "r \<le> 0x10FFFF"
    using v by (cases "r < 0x80"; cases "r \<le> 0x7FF"; cases "r \<le> 0xFFFF") (auto simp: valid_rune_def)
  then show ?thesis
  proof cases
    case 1
    then show ?thesis by (simp add: decode_encode1) (simp add: encode_rune_def)
  next
    case 2
    then show ?thesis by (simp add: decode_encode2) (simp add: encode_rune_def)
  next
    case 3
    then show ?thesis by (simp add: decode_encode3) (simp add: encode_rune_def encode3_def)
  next
    case 4
    then show ?thesis by (simp add: decode_encode4) (simp add: encode_rune_def surrogate_def)
  qed
qed

lemma chunks_encode:
  assumes "valid_rune r"
  shows "chunks (encode_rune r @ s) = (r, encode_rune r) # chunks s"
proof -
  obtain c cs where e: "encode_rune r = c # cs" by (cases "encode_rune r") auto
  have "DecodeRune (c # cs @ s) = (r, length (c # cs))"
    using DecodeRune_encode [OF assms, of s] e by simp
  then show ?thesis by (simp add: e del: DecodeRune.simps)
qed

lemma to_runes_of_runes: "list_all valid_rune rs \<Longrightarrow> to_runes (of_runes rs) = rs"
  by (induction rs) (simp_all add: to_runes_def of_runes_def chunks_encode)

lemma RuneCount_of_runes: "list_all valid_rune rs \<Longrightarrow> RuneCount (of_runes rs) = length rs"
  by (metis RuneCount_def length_map to_runes_def to_runes_of_runes)
section \<open>ASCII and Unicode classes\<close>

definition is_ascii :: "string \<Rightarrow> bool" where
  "is_ascii s \<longleftrightarrow> list_all (\<lambda>c. bv c < 0x80) s"

text \<open>\<open>unicode.IsSpace\<close>: the Latin-1 spaces and the other code points with
  property White_Space.\<close>

definition IsSpace :: "rune \<Rightarrow> bool" where
  "IsSpace r \<longleftrightarrow>
    r \<in> {9, 10, 11, 12, 13, 32, 0x85, 0xA0, 0x1680, 0x2028, 0x2029, 0x202F, 0x205F, 0x3000}
    \<or> (0x2000 \<le> r \<and> r \<le> 0x200A)"

definition lower_rune :: "(rune \<Rightarrow> rune) \<Rightarrow> rune \<Rightarrow> rune" where
  "lower_rune low r = (if 65 \<le> r \<and> r \<le> 90 then r + 32 else if r < 0x80 then r else low r)"

definition ToLower :: "(rune \<Rightarrow> rune) \<Rightarrow> string \<Rightarrow> string" where
  "ToLower low s = of_runes (map (lower_rune low) (to_runes s))"

section \<open>Searching, splitting, joining\<close>

definition HasPrefix :: "string \<Rightarrow> string \<Rightarrow> bool" where
  "HasPrefix s p \<longleftrightarrow> prefix p s"

definition HasSuffix :: "string \<Rightarrow> string \<Rightarrow> bool" where
  "HasSuffix s p \<longleftrightarrow> suffix p s"

definition ContainsByte :: "string \<Rightarrow> char \<Rightarrow> bool" where
  "ContainsByte s c \<longleftrightarrow> c \<in> set s"

text \<open>\<open>strings.TrimLeft\<close> with an ASCII cut set.\<close>

definition TrimLeft :: "string \<Rightarrow> string \<Rightarrow> string" where
  "TrimLeft s cutset = dropWhile (\<lambda>c. c \<in> set cutset) s"

definition TrimSpace :: "string \<Rightarrow> string" where
  "TrimSpace s =
    (let p = (\<lambda>x. IsSpace (fst x)) in
     concat (map snd (rev (dropWhile p (rev (dropWhile p (chunks s)))))))"

fun fields_from :: "(rune \<times> string) list \<Rightarrow> string \<Rightarrow> string list" where
  "fields_from [] cur = (if cur = [] then [] else [cur])"
| "fields_from ((r, b) # xs) cur =
    (if IsSpace r then (if cur = [] then fields_from xs [] else cur # fields_from xs [])
     else fields_from xs (cur @ b))"

definition Fields :: "string \<Rightarrow> string list" where
  "Fields s = fields_from (chunks s) []"

text \<open>\<open>strings.Split\<close> and \<open>strings.SplitN(s, sep, 2)\<close> with a one-byte separator.\<close>

fun split_from :: "char \<Rightarrow> string \<Rightarrow> string \<Rightarrow> string list" where
  "split_from sep [] cur = [cur]"
| "split_from sep (c # cs) cur =
    (if c = sep then cur # split_from sep cs [] else split_from sep cs (cur @ [c]))"

definition Split :: "string \<Rightarrow> char \<Rightarrow> string list" where
  "Split s sep = split_from sep s []"

definition SplitN2 :: "string \<Rightarrow> char \<Rightarrow> string list" where
  "SplitN2 s sep =
    (case dropWhile (\<lambda>c. c \<noteq> sep) s of
       [] \<Rightarrow> [s]
     | _ # rest \<Rightarrow> [takeWhile (\<lambda>c. c \<noteq> sep) s, rest])"

fun Join :: "string list \<Rightarrow> string \<Rightarrow> string" where
  "Join [] sep = []"
| "Join [x] sep = x"
| "Join (x # xs) sep = x @ sep @ Join xs sep"

text \<open>\<open>strconv.Itoa\<close> and \<open>%d\<close> on a number that is not negative.\<close>

fun Itoa :: "nat \<Rightarrow> string" where
  "Itoa n = (if n < 10 then [byte (48 + n)] else Itoa (n div 10) @ [byte (48 + n mod 10)])"

declare Itoa.simps [simp del]

section \<open>Lemmas on these functions\<close>

lemma chunks_ascii: "is_ascii s \<Longrightarrow> chunks s = map (\<lambda>c. (bv c, [c])) s"
  by (induction s) (simp_all add: is_ascii_def)

lemma byte_bv [simp]: "byte (bv c) = c"
  by (simp add: byte_def bv_def)

lemma ToLower_ascii:
  "is_ascii s \<Longrightarrow> ToLower low s = map (\<lambda>c. if 65 \<le> bv c \<and> bv c \<le> 90 then byte (bv c + 32) else c) s"
  by (induction s)
     (auto simp: ToLower_def to_runes_def chunks_ascii of_runes_def lower_rune_def encode_rune_def
        is_ascii_def)

lemma is_ascii_ToLower: "is_ascii s \<Longrightarrow> is_ascii (ToLower low s)"
  by (auto simp: ToLower_ascii is_ascii_def list_all_iff)

lemma ToLower_idem: "is_ascii s \<Longrightarrow> ToLower low (ToLower low s) = ToLower low s"
  using is_ascii_ToLower [of s low] by (simp add: ToLower_ascii)

lemma ToLower_Nil [simp]: "ToLower low [] = []"
  by (simp add: ToLower_def to_runes_def of_runes_def)

lemma chunks_nonempty: "s \<noteq> [] \<Longrightarrow> chunks s \<noteq> []"
  by (cases s) (simp_all del: DecodeRune.simps split: prod.split)

lemma ToLower_nonempty: "s \<noteq> [] \<Longrightarrow> ToLower low s \<noteq> []"
  using chunks_nonempty [of s]
  by (cases "chunks s") (auto simp: ToLower_def to_runes_def of_runes_def)

lemma Join_Cons: "Join (x # xs) sep = x @ (if xs = [] then [] else sep @ Join xs sep)"
  by (cases xs) auto

lemma fields_from_nonempty: "f \<in> set (fields_from xs cur) \<Longrightarrow> list_all (\<lambda>x. snd x \<noteq> []) xs \<Longrightarrow> f \<noteq> []"
  by (induction xs cur rule: fields_from.induct) (auto split: if_splits)

lemma fields_from_cur: "cur \<noteq> [] \<Longrightarrow> \<exists>f fs. fields_from xs cur = (cur @ f) # fs"
proof (induction xs cur rule: fields_from.induct)
  case (2 r b xs cur)
  then show ?case by (cases "IsSpace r") auto
qed simp

lemma Fields_first:
  assumes "bv c < 0x80" and "\<not> IsSpace (bv c)"
  shows "\<exists>f fs. Fields (c # cs) = (c # f) # fs"
  using assms fields_from_cur [of "[c]" "chunks cs"] by (simp add: Fields_def)

text \<open>Evaluating these functions on literals.\<close>

lemmas str_eval = bv_def byte_def char_of_def bit_0 bit_Suc is_ascii_def chunks_ascii
  ToLower_ascii IsSpace_def

lemma Split_append: "Split (a @ sep # b) sep = Split a sep @ Split b sep"
proof -
  have "split_from sep (a @ sep # b) cur = split_from sep a cur @ split_from sep b []" for cur
    by (induction a arbitrary: cur) auto
  then show ?thesis by (simp add: Split_def)
qed

lemma Split_one: "sep \<notin> set a \<Longrightarrow> Split a sep = [a]"
proof -
  have "sep \<notin> set a \<Longrightarrow> split_from sep a cur = [cur @ a]" for cur
    by (induction a arbitrary: cur) auto
  then show "sep \<notin> set a \<Longrightarrow> Split a sep = [a]" by (simp add: Split_def)
qed

lemma Split_nonempty: "Split x c \<noteq> []"
proof -
  have "split_from c x cur \<noteq> []" for cur by (induction x arbitrary: cur) auto
  then show ?thesis by (simp add: Split_def)
qed

end
