(* ===== verification/Sanitize.thy ===== *)
theory Sanitize
  imports GoStrings
begin

text \<open>
  The sanitising of names and of client metadata
  (\<open>internal/sanitize/sanitize.go\<close>). Both regular expressions match single
  characters, and Go's \<open>\w\<close> is ASCII only, so replacing every match by the
  empty string keeps exactly the bytes of a fixed ASCII alphabet: every byte of
  a multi-byte or malformed character is outside it.
\<close>

definition maxLength :: nat where
  "maxLength = 16"

text \<open>What \<open>[^\w.-]\<close> does not match.\<close>

definition name_byte :: "char \<Rightarrow> bool" where
  "name_byte c \<longleftrightarrow>
    (48 \<le> bv c \<and> bv c \<le> 57) \<or> (65 \<le> bv c \<and> bv c \<le> 90) \<or> (97 \<le> bv c \<and> bv c \<le> 122)
    \<or> c = CHR ''_'' \<or> c = CHR ''.'' \<or> c = CHR ''-''"

text \<open>What \<open>[^[:ascii:]]|[[:cntrl:]]\<close> does not match.\<close>

definition data_byte :: "char \<Rightarrow> bool" where
  "data_byte c \<longleftrightarrow> 32 \<le> bv c \<and> bv c \<le> 126"

definition Name :: "string \<Rightarrow> string" where
  "Name s =
    (let s = filter name_byte s;
         nameLength = (if length s \<le> maxLength then length s else maxLength) in
     take nameLength s)"

definition Data :: "string \<Rightarrow> nat \<Rightarrow> string" where
  "Data s maxlen = filter data_byte (if length s > maxlen then take maxlen s else s)"

definition valid_name :: "string \<Rightarrow> bool" where
  "valid_name s \<longleftrightarrow> list_all name_byte s \<and> length s \<le> maxLength"

lemma Name_eq: "Name s = take maxLength (filter name_byte s)"
  by (simp add: Name_def Let_def)

lemma valid_name_Name [simp]: "valid_name (Name s)"
  by (auto simp: valid_name_def Name_eq list_all_iff dest: in_set_takeD)

lemma Name_fixed: "valid_name s \<Longrightarrow> Name s = s"
  by (simp add: valid_name_def Name_eq list_all_iff filter_True)

lemma name_byte_ascii: "name_byte c \<Longrightarrow> bv c < 0x80"
  by (auto simp: name_byte_def bv_def)

lemma valid_name_ascii: "valid_name s \<Longrightarrow> is_ascii s"
  by (auto simp: valid_name_def is_ascii_def list_all_iff name_byte_ascii)

text \<open>\<open>sanitize.Name\<close> returns only characters of the allowed alphabet and at
  most 16 of them; it returns its argument unchanged exactly when that already
  is such a name, so sanitising twice is sanitising once; and no two bytes it
  keeps change order (the result is a prefix of the kept bytes).\<close>

theorem Name_sanitizes:
  "valid_name (Name s) \<and> (Name s = s \<longleftrightarrow> valid_name s) \<and> Name (Name s) = Name s
    \<and> prefix (Name s) (filter name_byte s)"
  by (metis Name_eq Name_fixed take_is_prefix valid_name_Name)

text \<open>\<open>sanitize.Data\<close> returns printable ASCII only, never more than
  \<open>maxlen\<close> bytes, and leaves a printable string that is short enough alone.\<close>

theorem Data_sanitizes:
  "list_all (\<lambda>c. 32 \<le> bv c \<and> bv c \<le> 126) (Data s maxlen) \<and> length (Data s maxlen) \<le> maxlen
    \<and> (Data s maxlen = s \<longleftrightarrow> list_all data_byte s \<and> length s \<le> maxlen)"
proof -
  have len: "length (Data s maxlen) \<le> maxlen"
    by (auto simp: Data_def intro: order.trans [OF length_filter_le])
  moreover have "list_all data_byte (Data s maxlen)"
    by (simp add: Data_def list_all_iff)
  moreover have "list_all data_byte s \<Longrightarrow> length s \<le> maxlen \<Longrightarrow> Data s maxlen = s"
    by (simp add: Data_def list_all_iff)
  ultimately show ?thesis
    by (metis (no_types, lifting) data_byte_def list_all_iff)
qed

end
