(* ===== verification/RingLog.thy ===== *)
theory RingLog
  imports Prelude
begin

text \<open>
  The two ring buffers of the program: the message history of a room
  (\<open>History\<close> of \<open>chat/message/history.go\<close>) and the input history of a
  terminal (\<open>stRingBuffer\<close> of \<open>sshd/terminal/terminal.go\<close>). Both overwrite the
  oldest of a fixed number of slots. The interface they share, the locale
  \<open>recent_log\<close>, is stated over the list of the stored values, newest first;
  each buffer interprets it.
\<close>

section \<open>The interface\<close>

locale recent_log =
  fixes push :: "'a \<Rightarrow> 's \<Rightarrow> 's"
    and recent :: "'s \<Rightarrow> 'a list"
    and capacity :: "'s \<Rightarrow> nat"
    and inv :: "'s \<Rightarrow> bool"
  assumes inv_push: "inv s \<Longrightarrow> inv (push a s)"
    and capacity_push: "inv s \<Longrightarrow> capacity (push a s) = capacity s"
    and recent_push: "inv s \<Longrightarrow> recent (push a s) = take (capacity s) (a # recent s)"
begin

lemma inv_pushes: "inv s \<Longrightarrow> inv (fold push xs s)"
  by (induction xs arbitrary: s) (simp_all add: inv_push)

lemma recent_pushes:
  "inv s \<Longrightarrow> length (recent s) \<le> capacity s \<Longrightarrow>
    recent (fold push xs s) = take (capacity s) (rev xs @ recent s)"
proof (induction xs arbitrary: s)
  case (Cons a xs)
  have "recent (fold push xs (push a s)) = take (capacity s) (rev xs @ recent (push a s))"
    using Cons by (simp add: inv_push capacity_push recent_push)
  also have "\<dots> = take (capacity s) (rev xs @ a # recent s)"
    by (simp add: recent_push Cons.prems min_def)
  finally show ?case by simp
qed simp

end

section \<open>Slots read backwards from the head\<close>

text \<open>The slot \<open>i\<close> places before the head, going round, and the \<open>n\<close> values
  from the head backwards.\<close>

definition slot_back :: "nat \<Rightarrow> nat \<Rightarrow> nat \<Rightarrow> nat" where
  "slot_back cap h i = (if i \<le> h then h - i else h + cap - i)"

definition ring_view :: "'a list \<Rightarrow> nat \<Rightarrow> nat \<Rightarrow> 'a list" where
  "ring_view es h n = map (\<lambda>i. es ! slot_back (length es) h i) [0..<n]"

lemma length_ring_view [simp]: "length (ring_view es h n) = n"
  by (simp add: ring_view_def)

lemma ring_view_nth: "i < n \<Longrightarrow> ring_view es h n ! i = es ! slot_back (length es) h i"
  by (simp add: ring_view_def)

lemma next_slot: "h < cap \<Longrightarrow> (h + 1) mod cap = (if Suc h = cap then 0 else Suc h)"
  by simp

text \<open>Storing in the slot after the head puts the value in front.\<close>

lemma ring_view_push:
  assumes "h < length es" and "n \<le> length es"
  defines "h' \<equiv> (h + 1) mod length es"
  shows "ring_view (es[h' := x]) h' (min (Suc n) (length es)) = take (length es) (x # ring_view es h n)"
proof (rule nth_equalityI)
  fix i assume i: "i < length (ring_view (es[h' := x]) h' (min (Suc n) (length es)))"
  have h': "h' = (if Suc h = length es then 0 else Suc h)" "h' < length es"
    using assms(1) next_slot [OF assms(1)] unfolding h'_def by (auto intro!: mod_less_divisor)
  show "ring_view (es[h' := x]) h' (min (Suc n) (length es)) ! i
      = take (length es) (x # ring_view es h n) ! i"
  proof (cases i)
    case 0
    with i h' show ?thesis by (simp add: ring_view_nth slot_back_def)
  next
    case (Suc j)
    with i have "slot_back (length es) h' i = slot_back (length es) h j" "slot_back (length es) h' i \<noteq> h'"
      using assms(1) h' by (auto simp: slot_back_def)
    with i Suc show ?thesis by (simp add: ring_view_nth)
  qed
qed (use assms in simp)

section \<open>Message history\<close>

text \<open>The slots hold \<open>nil\<close> (\<open>None\<close>) until they are first written. \<open>out\<close> is the
  log writer: the lines written to it, or \<open>None\<close> when no writer is set.\<close>

record 'm history =
  entries :: "'m option list"
  head :: nat
  hsize :: nat
  out :: "string list option"

definition NewHistory :: "nat \<Rightarrow> 'm history" where
  "NewHistory n = \<lparr>entries = replicate n None, head = 0, hsize = 0, out = None\<rparr>"

text \<open>\<open>Add\<close> panics on a history of no slots (a remainder by zero); \<open>line\<close> formats
  the line of the log.\<close>

definition History_Add :: "('m \<Rightarrow> string) \<Rightarrow> 'm \<Rightarrow> 'm history \<Rightarrow> go_error + 'm history" where
  "History_Add line entry h =
    (let max = length (entries h) in
     if max = 0 then Inl (GoPanic ''integer divide by zero'')
     else let head' = (head h + 1) mod max in
       Inr (h\<lparr>head := head',
              entries := (entries h)[head' := Some entry],
              hsize := (if hsize h < max then hsize h + 1 else hsize h),
              out := map_option (\<lambda>ls. ls @ [line entry]) (out h)\<rparr>))"

definition History_Len :: "'m history \<Rightarrow> nat" where
  "History_Len h = hsize h"

text \<open>Go's \<open>%\<close> truncates towards zero, so the index can be negative and is
  then shifted. The result is built backwards, oldest entry first.\<close>

definition go_rem :: "int \<Rightarrow> int \<Rightarrow> int" where
  "go_rem a b = sgn a * (\<bar>a\<bar> mod \<bar>b\<bar>)"

definition History_index :: "'m history \<Rightarrow> nat \<Rightarrow> nat" where
  "History_index h i =
    (let max = int (length (entries h));
         idx = go_rem (int (head h) - int i) max in
     nat (if idx < 0 then idx + max else idx))"

fun History_loop :: "'m history \<Rightarrow> nat \<Rightarrow> nat \<Rightarrow> 'm option list \<Rightarrow> 'm option list" where
  "History_loop h i 0 r = r"
| "History_loop h i (Suc todo) r =
    History_loop h (Suc i) todo (r[length r - i - 1 := entries h ! History_index h i])"

definition History_Get :: "'m history \<Rightarrow> int \<Rightarrow> go_error + 'm option list" where
  "History_Get h num =
    (let num = (if num > int (hsize h) then int (hsize h) else num) in
     if num < 0 then Inl (GoPanic ''makeslice: len out of range'')
     else Inr (History_loop h 0 (nat num) (replicate (nat num) None)))"

definition History_SetOutput :: "string list \<Rightarrow> 'm history \<Rightarrow> 'm history" where
  "History_SetOutput w h = h\<lparr>out := Some w\<rparr>"

definition history_inv :: "'m history \<Rightarrow> bool" where
  "history_inv h \<longleftrightarrow> head h < length (entries h) \<and> hsize h \<le> length (entries h)
    \<and> list_all (\<lambda>e. e \<noteq> None) (ring_view (entries h) (head h) (hsize h))"

definition history_recent :: "'m history \<Rightarrow> 'm list" where
  "history_recent h = map the (ring_view (entries h) (head h) (hsize h))"

text \<open>\<open>Add\<close> on a history that has slots.\<close>

definition history_push :: "('m \<Rightarrow> string) \<Rightarrow> 'm \<Rightarrow> 'm history \<Rightarrow> 'm history" where
  "history_push line m h = (case History_Add line m h of Inr h' \<Rightarrow> h' | Inl _ \<Rightarrow> h)"

lemma head_next: "h < n \<Longrightarrow> (h + 1) mod n < (n::nat)"
  by simp

lemma History_Add_Inr:
  "history_inv h \<Longrightarrow> History_Add line m h = Inr (history_push line m h)"
  by (auto simp: History_Add_def history_inv_def Let_def history_push_def)

lemma history_push_view:
  assumes "history_inv h"
  shows "ring_view (entries (history_push line m h)) (head (history_push line m h))
      (hsize (history_push line m h))
    = take (length (entries h)) (Some m # ring_view (entries h) (head h) (hsize h))"
proof -
  have pos: "0 < length (entries h)" "hsize h \<le> length (entries h)"
    using assms by (auto simp: history_inv_def)
  then have "(if hsize h < length (entries h) then hsize h + 1 else hsize h)
      = min (Suc (hsize h)) (length (entries h))"
    by auto
  then show ?thesis
    using assms pos ring_view_push [of "head h" "entries h" "hsize h" "Some m"]
    by (simp add: history_push_def History_Add_def Let_def history_inv_def)
qed

lemma history_push_capacity [simp]: "length (entries (history_push line m h)) = length (entries h)"
  by (auto simp: history_push_def History_Add_def Let_def)

lemma history_inv_push:
  assumes "history_inv h"
  shows "history_inv (history_push line m h)"
proof -
  have "list_all (\<lambda>e. e \<noteq> None) (take (length (entries h)) (Some m # ring_view (entries h) (head h) (hsize h)))"
    using assms by (auto simp: history_inv_def list_all_iff simp del: take_Suc_Cons dest!: in_set_takeD)
  moreover have "head (history_push line m h) < length (entries h)"
    and "hsize (history_push line m h) \<le> length (entries h)"
    using assms next_slot [of "head h" "length (entries h)"]
    by (auto simp: history_push_def History_Add_def Let_def history_inv_def)
  ultimately show ?thesis
    using assms by (simp add: history_inv_def [of "history_push line m h"] history_push_view)
qed

interpretation room_log: recent_log "history_push line" history_recent "\<lambda>h. length (entries h)" history_inv
  by unfold_locales
     (simp_all add: history_inv_push history_recent_def history_push_view take_map [symmetric])

lemma history_inv_New: "0 < n \<Longrightarrow> history_inv (NewHistory n)"
  by (simp add: history_inv_def NewHistory_def ring_view_def)

lemma History_index_back:
  "head h < length (entries h) \<Longrightarrow> i < length (entries h) \<Longrightarrow>
    History_index h i = slot_back (length (entries h)) (head h) i"
  by (auto simp: History_index_def slot_back_def go_rem_def Let_def sgn_if)

lemma History_loop_eq:
  "i + todo = length r \<Longrightarrow>
    History_loop h i todo r = rev (map (\<lambda>j. entries h ! History_index h j) [i..<i + todo]) @ drop todo r"
proof (induction todo arbitrary: i r)
  case (Suc todo)
  define x where "x = entries h ! History_index h i"
  have "length r - i - 1 = todo" using Suc.prems by simp
  then have "History_loop h i (Suc todo) r = History_loop h (Suc i) todo (r[todo := x])"
    by (simp add: x_def)
  also have "\<dots> = rev (map (\<lambda>j. entries h ! History_index h j) [Suc i..<Suc i + todo]) @ drop todo (r[todo := x])"
    using Suc.prems by (intro Suc.IH) simp
  also have "drop todo (r[todo := x]) = x # drop (Suc todo) r"
    using Suc.prems by (simp add: drop_update_swap Cons_nth_drop_Suc [symmetric])
  finally show ?case by (simp add: x_def upt_rec [of i])
qed simp

lemma History_Get_recent:
  assumes "history_inv h" and "0 \<le> num"
  shows "History_Get h num = Inr (map Some (rev (take (nat num) (history_recent h))))"
proof -
  define n where "n = min (nat num) (hsize h)"
  have n: "n \<le> hsize h" "hsize h \<le> length (entries h)" "head h < length (entries h)"
    using assms(1) by (auto simp: n_def history_inv_def)
  have num: "(if num > int (hsize h) then int (hsize h) else num) = int n"
    using assms(2) by (auto simp: n_def)
  have "map (\<lambda>j. entries h ! History_index h j) [0..<n] = take n (ring_view (entries h) (head h) (hsize h))"
    using n by (simp add: ring_view_def take_map History_index_back)
  also have "\<dots> = map Some (take n (history_recent h))"
    using assms(1) by (auto simp: history_inv_def history_recent_def list_all_iff take_map map_idI
        intro!: map_idI [symmetric] dest!: in_set_takeD)
  finally have "History_Get h num = Inr (rev (map Some (take n (history_recent h))))"
    by (simp only: History_Get_def num Let_def) (simp add: History_loop_eq)
  moreover have "take n (history_recent h) = take (nat num) (history_recent h)"
    by (simp add: n_def history_recent_def min_def)
  ultimately show ?thesis by (simp add: rev_map)
qed

section \<open>Input history of a terminal\<close>

text \<open>The slice of entries is \<open>nil\<close> (\<open>None\<close>) until the first \<open>Add\<close>.\<close>

record stRingBuffer =
  rb_entries :: "string list option"
  rb_max :: nat
  rb_head :: nat
  rb_size :: nat

definition emptyRing :: stRingBuffer where
  "emptyRing = \<lparr>rb_entries = None, rb_max = 0, rb_head = 0, rb_size = 0\<rparr>"

definition defaultNumEntries :: nat where
  "defaultNumEntries = 100"

definition rb_alloc :: "stRingBuffer \<Rightarrow> stRingBuffer" where
  "rb_alloc s =
    (if rb_entries s = None
     then s\<lparr>rb_entries := Some (replicate defaultNumEntries []), rb_max := defaultNumEntries\<rparr> else s)"

definition rb_Add :: "string \<Rightarrow> stRingBuffer \<Rightarrow> stRingBuffer" where
  "rb_Add a s =
    (let s = rb_alloc s; h = (rb_head s + 1) mod rb_max s in
     s\<lparr>rb_head := h,
       rb_entries := map_option (\<lambda>es. es[h := a]) (rb_entries s),
       rb_size := (if rb_size s < rb_max s then rb_size s + 1 else rb_size s)\<rparr>)"

text \<open>\<open>NthPreviousEntry\<close>: \<open>Inr (Some v)\<close> is \<open>(v, true)\<close> and \<open>Inr None\<close> is \<open>("", false)\<close>;
  reading outside the slice panics.\<close>

definition NthPreviousEntry :: "stRingBuffer \<Rightarrow> int \<Rightarrow> go_error + string option" where
  "NthPreviousEntry s n =
    (if n \<ge> int (rb_size s) then Inr None
     else let index = int (rb_head s) - n;
              index = (if index < 0 then index + int (rb_max s) else index);
              es = (case rb_entries s of Some es \<Rightarrow> es | None \<Rightarrow> []) in
       if index < 0 \<or> index \<ge> int (length es) then Inl (GoPanic ''index out of range'')
       else Inr (Some (es ! nat index)))"

definition rb_slots :: "stRingBuffer \<Rightarrow> string list" where
  "rb_slots s = (case rb_entries s of Some es \<Rightarrow> es | None \<Rightarrow> replicate defaultNumEntries [])"

definition rb_inv :: "stRingBuffer \<Rightarrow> bool" where
  "rb_inv s \<longleftrightarrow>
    (case rb_entries s of
       None \<Rightarrow> rb_head s = 0 \<and> rb_size s = 0
     | Some es \<Rightarrow> length es = rb_max s \<and> rb_head s < rb_max s \<and> rb_size s \<le> rb_max s)"

definition rb_recent :: "stRingBuffer \<Rightarrow> string list" where
  "rb_recent s = ring_view (rb_slots s) (rb_head s) (rb_size s)"

definition rb_capacity :: "stRingBuffer \<Rightarrow> nat" where
  "rb_capacity s = length (rb_slots s)"

lemma rb_alloc_view:
  assumes "rb_inv s"
  shows "rb_entries (rb_alloc s) = Some (rb_slots s) \<and> rb_max (rb_alloc s) = length (rb_slots s)
    \<and> rb_head (rb_alloc s) = rb_head s \<and> rb_size (rb_alloc s) = rb_size s
    \<and> rb_head s < length (rb_slots s) \<and> rb_size s \<le> length (rb_slots s)"
  using assms
  by (auto simp: rb_alloc_def rb_slots_def rb_inv_def defaultNumEntries_def split: option.splits)

lemma rb_Add_slots:
  assumes "rb_inv s"
  defines "h \<equiv> (rb_head s + 1) mod length (rb_slots s)"
  shows "rb_slots (rb_Add a s) = (rb_slots s)[h := a] \<and> rb_head (rb_Add a s) = h
    \<and> rb_size (rb_Add a s) = min (Suc (rb_size s)) (length (rb_slots s))
    \<and> rb_max (rb_Add a s) = length (rb_slots s) \<and> rb_entries (rb_Add a s) \<noteq> None"
  using rb_alloc_view [OF assms(1)]
  by (auto simp: rb_Add_def Let_def h_def rb_slots_def [of "rb_alloc s\<lparr>rb_head := _, rb_entries := _, rb_size := _\<rparr>"])

lemma rb_inv_Add: "rb_inv s \<Longrightarrow> rb_inv (rb_Add a s)"
  using rb_Add_slots [of s a] rb_alloc_view [of s] next_slot [of "rb_head s" "length (rb_slots s)"]
  by (auto simp: rb_inv_def [of "rb_Add a s"] rb_slots_def [of "rb_Add a s"] split: option.splits)

interpretation input_log: recent_log rb_Add rb_recent rb_capacity rb_inv
proof
  fix s a assume "rb_inv s"
  then show "rb_inv (rb_Add a s)" by (rule rb_inv_Add)
  show "rb_capacity (rb_Add a s) = rb_capacity s"
    using rb_Add_slots [OF \<open>rb_inv s\<close>] by (simp add: rb_capacity_def)
  show "rb_recent (rb_Add a s) = take (rb_capacity s) (a # rb_recent s)"
    using rb_Add_slots [OF \<open>rb_inv s\<close>, of a] rb_alloc_view [OF \<open>rb_inv s\<close>]
      ring_view_push [of "rb_head s" "rb_slots s" "rb_size s" a]
    by (simp add: rb_recent_def rb_capacity_def)
qed

lemma NthPreviousEntry_recent:
  assumes "rb_inv s" and "0 \<le> n"
  shows "NthPreviousEntry s n =
    Inr (if nat n < length (rb_recent s) then Some (rb_recent s ! nat n) else None)"
proof (cases "nat n < rb_size s")
  case True
  then obtain es where es: "rb_entries s = Some es" "rb_slots s = es" "length es = rb_max s"
    "rb_head s < rb_max s" "rb_size s \<le> rb_max s"
    using assms(1) by (auto simp: rb_inv_def rb_slots_def split: option.splits)
  obtain m where m: "n = int m" using assms(2) zero_le_imp_eq_int by blast
  have "nat (int (rb_head s) - int m) = rb_head s - m"
    and "nat (int (rb_head s) - int m + int (rb_max s)) = rb_head s + rb_max s - m"
    using True es m by linarith+
  with True es m show ?thesis
    by (auto simp: NthPreviousEntry_def Let_def rb_recent_def ring_view_nth slot_back_def)
next
  case False
  then have "int (rb_size s) \<le> n" using assms(2) by linarith
  with False show ?thesis by (simp add: NthPreviousEntry_def rb_recent_def)
qed

section \<open>Properties\<close>

text \<open>C30: a message history that has slots holds the most recent messages:
  after any messages were added to a new history of \<open>n\<close> slots, \<open>Get num\<close>
  returns the last \<open>num\<close> of them, at most \<open>n\<close>, oldest first, whether or not the
  ring has wrapped.\<close>

theorem History_Get_last:
  assumes "0 < n" and "0 \<le> num"
  shows "History_Get (fold (history_push line) ms (NewHistory n)) num
    = Inr (map Some (rev (take (nat num) (take n (rev ms)))))"
proof -
  have inv: "history_inv (NewHistory n)" by (rule history_inv_New [OF assms(1)])
  have "history_recent (fold (history_push line) ms (NewHistory n)) = take n (rev ms)"
    using room_log.recent_pushes [OF inv, of line ms]
    by (simp add: NewHistory_def history_recent_def ring_view_def)
  then show ?thesis
    using History_Get_recent [OF room_log.inv_pushes [OF inv] assms(2), of line ms] by (simp only:)
qed

theorem History_Get_last_witness:
  "History_Get (fold (history_push (\<lambda>m. m)) [''1'', ''2'', ''3''] (NewHistory 2)) 10
    = Inr [Some ''2'', Some ''3'']"
  using History_Get_last [of 2 10 "\<lambda>m. m" "[''1'', ''2'', ''3'']"] by simp

text \<open>the input history of a terminal returns what its comment promises:
  after any lines were added to an empty buffer, \<open>NthPreviousEntry n\<close> is the
  argument of the \<open>n\<close>-th previous \<open>Add\<close>, for the last 100 lines, and nothing
  beyond; it never reads outside the slice.\<close>

theorem NthPreviousEntry_adds:
  assumes "0 \<le> n"
  shows "NthPreviousEntry (fold rb_Add xs emptyRing) n =
    Inr (if nat n < min 100 (length xs) then Some (rev xs ! nat n) else None)"
proof -
  have inv: "rb_inv emptyRing" by (simp add: rb_inv_def emptyRing_def)
  have "rb_recent (fold rb_Add xs emptyRing) = take 100 (rev xs)"
    using input_log.recent_pushes [OF inv, of xs]
    by (simp add: emptyRing_def rb_recent_def rb_capacity_def rb_slots_def ring_view_def defaultNumEntries_def)
  then show ?thesis
    using NthPreviousEntry_recent [OF input_log.inv_pushes [OF inv] assms, of xs] by simp
qed

theorem NthPreviousEntry_adds_witness:
  "NthPreviousEntry (fold rb_Add [''a'', ''b''] emptyRing) 1 = Inr (Some ''a'')"
  using NthPreviousEntry_adds [of 1 "[''a'', ''b'']"] by simp

end
