(* ===== verification/RateLimit.thy ===== *)
theory RateLimit
  imports Prelude
begin

text \<open>
  The limiter on what a connection may send (\<open>sshd/ratelimit.go\<close>): every read
  is charged one unit, or its size when it is large, and the charges of a
  window of \<open>Frequency\<close> must not exceed \<open>Amount\<close>.
\<close>

record inputLimiter =
  Amount :: int
  Frequency :: duration
  remaining :: int
  readCap :: int
  numRead :: int
  timeRead :: time

definition NewInputLimiter :: "time \<Rightarrow> inputLimiter" where
  "NewInputLimiter now =
    \<lparr>Amount = 2 * 2 ^ 14, Frequency = time_Minute * 1, remaining = 0, readCap = 128,
     numRead = - 1024 * 1024, timeRead = now + time_Second * 3\<rparr>"

definition Count :: "time \<Rightarrow> int \<Rightarrow> inputLimiter \<Rightarrow> go_error option \<times> inputLimiter" where
  "Count now n limit =
    (let limit = (if now > timeRead limit
                  then limit\<lparr>numRead := 0, timeRead := now + Frequency limit\<rparr> else limit);
         limit = (if n \<le> readCap limit then limit\<lparr>numRead := numRead limit + 1\<rparr>
                  else limit\<lparr>numRead := numRead limit + n\<rparr>) in
     if numRead limit > Amount limit then (Some ErrRateExceeded, limit) else (None, limit))"

text \<open>A sequence of reads, each at its time, with the verdicts.\<close>

fun count_all :: "(time \<times> int) list \<Rightarrow> inputLimiter \<Rightarrow> go_error option list \<times> inputLimiter" where
  "count_all [] limit = ([], limit)"
| "count_all ((now, n) # reads) limit =
    (case Count now n limit of (err, limit') \<Rightarrow>
      (case count_all reads limit' of (errs, limit'') \<Rightarrow> (err # errs, limit'')))"

definition charge :: "inputLimiter \<Rightarrow> int \<Rightarrow> int" where
  "charge limit n = (if n \<le> readCap limit then 1 else n)"

text \<open>The total charge of the reads that were let through.\<close>

fun passed :: "inputLimiter \<Rightarrow> (time \<times> int) list \<Rightarrow> go_error option list \<Rightarrow> int" where
  "passed limit ((_, n) # reads) (err # errs) =
    (if err = None then charge limit n else 0) + passed limit reads errs"
| "passed limit _ _ = 0"

lemma Count_within:
  "now \<le> timeRead limit \<Longrightarrow>
    Count now n limit =
      (if numRead limit + charge limit n > Amount limit then Some ErrRateExceeded else None,
       limit\<lparr>numRead := numRead limit + charge limit n\<rparr>)"
  by (simp add: Count_def Let_def charge_def)

lemma Count_reset:
  "now > timeRead limit \<Longrightarrow>
    Count now n limit =
      (if charge limit n > Amount limit then Some ErrRateExceeded else None,
       limit\<lparr>numRead := charge limit n, timeRead := now + Frequency limit\<rparr>)"
  by (simp add: Count_def Let_def charge_def)

lemma passed_within:
  assumes "list_all (\<lambda>(t, n). t \<le> timeRead limit) reads" and "0 \<le> readCap limit"
  shows "passed limit reads (fst (count_all reads limit)) \<le> max 0 (Amount limit - numRead limit)"
  using assms
proof (induction reads arbitrary: limit)
  case (Cons r reads)
  obtain t n where r: "r = (t, n)" by fastforce
  let ?c = "charge limit n"
  let ?l = "limit\<lparr>numRead := numRead limit + ?c\<rparr>"
  have c: "0 < ?c" using Cons.prems(2) by (simp add: charge_def)
  have "passed ?l reads (fst (count_all reads ?l)) \<le> max 0 (Amount limit - (numRead limit + ?c))"
    using Cons.IH [of ?l] Cons.prems by simp
  moreover have "passed ?l rs es = passed limit rs es" for rs es
    by (induction limit rs es rule: passed.induct) (simp_all add: charge_def)
  ultimately have "passed limit reads (fst (count_all reads ?l)) \<le> max 0 (Amount limit - (numRead limit + ?c))"
    by simp
  with c show ?case
    using Cons.prems by (auto simp: r Count_within split: prod.split)
qed simp

text \<open>within one window the reads that are let through charge at most what
  is left of \<open>Amount\<close>: after a reset at \<open>now\<close>, reads up to \<open>now + Frequency\<close> pass
  at most \<open>Amount\<close> units together with the read that reset the window, however
  they are spaced and sized.\<close>

theorem window_bound:
  assumes "0 \<le> readCap limit" and "0 \<le> Amount limit" and "now > timeRead limit"
    and "list_all (\<lambda>(t, n). t \<le> now + Frequency limit) reads"
  shows "passed limit ((now, n) # reads) (fst (count_all ((now, n) # reads) limit)) \<le> Amount limit"
proof -
  let ?l = "limit\<lparr>numRead := charge limit n, timeRead := now + Frequency limit\<rparr>"
  have "passed ?l reads (fst (count_all reads ?l)) \<le> max 0 (Amount limit - charge limit n)"
    using passed_within [of ?l reads] assms by simp
  moreover have "passed ?l rs es = passed limit rs es" for rs es
    by (induction limit rs es rule: passed.induct) (simp_all add: charge_def)
  ultimately have "passed limit reads (fst (count_all reads ?l)) \<le> max 0 (Amount limit - charge limit n)"
    by simp
  moreover have "0 < charge limit n" using assms(1) by (simp add: charge_def)
  ultimately show ?thesis
    using assms by (auto simp: Count_reset split: prod.split)
qed

theorem window_bound_witness:
  "passed (NewInputLimiter 0) [(4 * time_Second, 40000), (5 * time_Second, 52)]
      (fst (count_all [(4 * time_Second, 40000), (5 * time_Second, 52)] (NewInputLimiter 0)))
    \<le> Amount (NewInputLimiter 0)"
  by (rule window_bound) (simp_all add: NewInputLimiter_def time_Second_def time_Minute_def)

section \<open>The limited connection\<close>

text \<open>\<open>limitedConn\<close> embeds a connection and a reader; its own \<open>Read\<close> is the reader's, everything else the
  connection's. \<open>rateio.NewReader\<close> and the \<open>Read\<close> of its result are the parameters \<open>NewReader\<close> and
  \<open>Reader_Read\<close>.\<close>

record ('c, 'r) limitedConn =
  Conn :: 'c
  Reader :: 'r

definition ReadLimitConn :: "('c \<Rightarrow> 'l \<Rightarrow> 'r) \<Rightarrow> 'c \<Rightarrow> 'l \<Rightarrow> ('c, 'r) limitedConn" where
  "ReadLimitConn NewReader conn limiter = \<lparr>Conn = conn, Reader = NewReader conn limiter\<rparr>"

type_synonym 'r reader_fn = "'r \<Rightarrow> time \<Rightarrow> nat \<Rightarrow> string \<times> go_error option \<times> 'r"

definition limitedConn_Read :: "'r reader_fn \<Rightarrow> ('c, 'r) limitedConn \<Rightarrow> time \<Rightarrow> nat
    \<Rightarrow> string \<times> go_error option \<times> ('c, 'r) limitedConn" where
  "limitedConn_Read Reader_Read conn now n =
    (case Reader_Read (Reader conn) now n of (data, err, r) \<Rightarrow> (data, err, conn\<lparr>Reader := r\<rparr>))"

text \<open>What \<open>rateio\<close> documents: a \<open>Read\<close> without an error has counted its bytes with the limiter,
  which gave none.\<close>

definition rate_law :: "'r reader_fn \<Rightarrow> ('r \<Rightarrow> inputLimiter) \<Rightarrow> bool" where
  "rate_law Reader_Read limiter_of \<longleftrightarrow> (\<forall>r now n data r'. Reader_Read r now n = (data, None, r') \<longrightarrow>
    Count now (int (length data)) (limiter_of r) = (None, limiter_of r'))"

text \<open>The server reads until there is an error, then it drops the connection.\<close>

fun read_until_error :: "'r reader_fn \<Rightarrow> (time \<times> nat) list \<Rightarrow> ('c, 'r) limitedConn \<Rightarrow> string list" where
  "read_until_error Reader_Read [] conn = []"
| "read_until_error Reader_Read ((now, n) # rs) conn =
    (case limitedConn_Read Reader_Read conn now n of
       (data, None, conn) \<Rightarrow> data # read_until_error Reader_Read rs conn
     | (data, Some err, conn) \<Rightarrow> [])"

definition charges :: "inputLimiter \<Rightarrow> string list \<Rightarrow> int" where
  "charges limit ds = sum_list (map (\<lambda>d. charge limit (int (length d))) ds)"


text \<open>A reader that does so, over a connection that is the list of the pieces that arrive.\<close>

fun rate_read :: "(string list \<times> inputLimiter) reader_fn" where
  "rate_read ([], limit) now n = ([], Some IoEOF, ([], limit))"
| "rate_read (piece # ps, limit) now n =
    (case Count now (int (length (take n piece))) limit of
       (err, limit) \<Rightarrow> (take n piece, err, (if length piece \<le> n then ps else drop n piece # ps, limit)))"

lemma rate_read_law: "rate_law rate_read snd"
proof -
  have "Count now (int (length data)) (snd r) = (None, snd r')" if "rate_read r now n = (data, None, r')" for r now n data r'
    using that by (cases "(r, now, n)" rule: rate_read.cases) (auto split: prod.splits)
  then show ?thesis by (simp add: rate_law_def)
qed


end
