(* ===== verification/GoSet.thy ===== *)
theory GoSet
  imports GoStrings
begin

text \<open>
  The keyed set of \<open>set/set.go\<close> and its items (\<open>set/item.go\<close>): a map from
  normalised keys to items, where an item may expire. Every other component
  that keeps a registry (the members of a room, the ban lists, the operators,
  the users one ignores) is such a set.

  Each operation is one critical section of the set's mutex, with the time
  at which it looks at the clock as the argument \<open>now\<close>; \<open>In\<close> and \<open>Get\<close>, which
  release the lock before they call \<open>cleanup\<close>, are composed from their two
  sections. The abstract state is \<open>live now s\<close>, the map of the items that have
  not expired.
\<close>

section \<open>Items\<close>

text \<open>A value of type \<open>interface{}\<close> that is not \<open>nil\<close>: \<open>true\<close> for a \<open>StringItem\<close>,
  otherwise what the caller stored.\<close>

datatype 'v iface = IBool bool | IVal (the_val: 'v)

datatype 'v item =
    Itemize string "'v option"
  | StringItem string
  | ExpiringItem "'v item" time

fun Key :: "'v item \<Rightarrow> string" where
  "Key (Itemize k v) = k"
| "Key (StringItem k) = k"
| "Key (ExpiringItem it t) = Key it"

definition Expire :: "'v item \<Rightarrow> duration \<Rightarrow> time \<Rightarrow> 'v item" where
  "Expire it d now = ExpiringItem it (now + d)"

definition Expired :: "time \<Rightarrow> time \<Rightarrow> bool" where
  "Expired now t \<longleftrightarrow> now > t"

fun Value :: "time \<Rightarrow> 'v item \<Rightarrow> 'v iface option" where
  "Value now (Itemize k v) = map_option IVal v"
| "Value now (StringItem k) = Some (IBool True)"
| "Value now (ExpiringItem it t) = (if Expired now t then None else Value now it)"

section \<open>The set and its operations\<close>

record 'v goset =
  lookup :: "(string \<times> 'v item) list"
  normalizer :: "string \<Rightarrow> string"

text \<open>\<open>normalize\<close> is \<open>strings.ToLower\<close>.\<close>

definition normalize :: "(rune \<Rightarrow> rune) \<Rightarrow> string \<Rightarrow> string" where
  "normalize low key = ToLower low key"

definition New :: "(rune \<Rightarrow> rune) \<Rightarrow> 'v goset" where
  "New low = \<lparr>lookup = [], normalizer = normalize low\<rparr>"

definition Clear :: "'v goset \<Rightarrow> nat \<times> 'v goset" where
  "Clear s = (length (lookup s), s\<lparr>lookup := []\<rparr>)"

definition Len :: "'v goset \<Rightarrow> nat" where
  "Len s = length (lookup s)"

definition cleanup :: "time \<Rightarrow> string \<Rightarrow> 'v goset \<Rightarrow> 'v goset" where
  "cleanup now key s =
    (case map_of (lookup s) key of
       Some it \<Rightarrow>
         (if Value now it = None then s\<lparr>lookup := AList.delete key (lookup s)\<rparr> else s)
     | None \<Rightarrow> s)"

definition In :: "time \<Rightarrow> string \<Rightarrow> 'v goset \<Rightarrow> bool \<times> 'v goset" where
  "In now key s =
    (let key = normalizer s key in
     case map_of (lookup s) key of
       None \<Rightarrow> (False, s)
     | Some it \<Rightarrow> (if Value now it = None then (False, cleanup now key s) else (True, s)))"

definition Get :: "time \<Rightarrow> string \<Rightarrow> 'v goset \<Rightarrow> (go_error + 'v item) \<times> 'v goset" where
  "Get now key s =
    (let key = normalizer s key in
     case map_of (lookup s) key of
       None \<Rightarrow> (Inl ErrMissing, s)
     | Some it \<Rightarrow> (Inr it, if Value now it = None then cleanup now key s else s))"

definition Add :: "time \<Rightarrow> 'v item \<Rightarrow> 'v goset \<Rightarrow> go_error option \<times> 'v goset" where
  "Add now it s =
    (let key = normalizer s (Key it);
         store = (None, s\<lparr>lookup := AList.update key it (lookup s)\<rparr>) in
     case map_of (lookup s) key of
       Some old \<Rightarrow> (if Value now old \<noteq> None then (Some ErrCollision, s) else store)
     | None \<Rightarrow> store)"

definition Set :: "'v item \<Rightarrow> 'v goset \<Rightarrow> go_error option \<times> 'v goset" where
  "Set it s =
    (let key = normalizer s (Key it) in
     (None, s\<lparr>lookup := AList.update key it (lookup s)\<rparr>))"

definition Remove :: "string \<Rightarrow> 'v goset \<Rightarrow> go_error option \<times> 'v goset" where
  "Remove key s =
    (let key = normalizer s key in
     case map_of (lookup s) key of
       None \<Rightarrow> (Some ErrMissing, s)
     | Some _ \<Rightarrow> (None, s\<lparr>lookup := AList.delete key (lookup s)\<rparr>))"

definition Replace :: "string \<Rightarrow> 'v item \<Rightarrow> 'v goset \<Rightarrow> go_error option \<times> 'v goset" where
  "Replace oldKey it s =
    (let newKey = normalizer s (Key it); oldKey = normalizer s oldKey in
     if newKey \<noteq> oldKey then
       (if map_of (lookup s) newKey \<noteq> None then (Some ErrCollision, s)
        else if map_of (lookup s) oldKey = None then (Some ErrMissing, s)
        else (None, s\<lparr>lookup := AList.update newKey it (AList.delete oldKey (lookup s))\<rparr>))
     else (None, s\<lparr>lookup := AList.update newKey it (lookup s)\<rparr>))"

text \<open>
  \<open>Each\<close>: the loop over the map in the order of the scheduler, with the
  callback's own state \<open>st\<close> threaded through. It collects the keys of the
  expired items; \<open>Each\<close> runs their deferred cleanups, last deferred first,
  when the loop is over, whether it ended or was aborted by an error.
\<close>

type_synonym ('v, 'st) iter_fn = "string \<Rightarrow> 'v item \<Rightarrow> 'st \<Rightarrow> go_error option \<times> 'st"

fun each_loop ::
  "time \<Rightarrow> ('v, 'st) iter_fn \<Rightarrow> (string \<times> 'v item) list \<Rightarrow> 'st \<Rightarrow> string list
    \<Rightarrow> go_error option \<times> 'st \<times> string list" where
  "each_loop now fn [] st deferred = (None, st, deferred)"
| "each_loop now fn ((key, it) # rest) st deferred =
    (if Value now it = None then each_loop now fn rest st (key # deferred)
     else case fn key it st of
       (Some err, st') \<Rightarrow> (Some err, st', deferred)
     | (None, st') \<Rightarrow> each_loop now fn rest st' deferred)"

text \<open>The entries of the map in the order the runtime visits them.\<close>

definition entries :: "sched \<Rightarrow> 'v goset \<Rightarrow> (string \<times> 'v item) list" where
  "entries ord s =
    List.map_filter (\<lambda>k. map_option (\<lambda>it. (k, it)) (map_of (lookup s) k))
      (ord (map fst (lookup s)))"

definition Each ::
  "sched \<Rightarrow> time \<Rightarrow> ('v, 'st) iter_fn \<Rightarrow> 'v goset \<Rightarrow> 'st \<Rightarrow> go_error option \<times> 'st \<times> 'v goset" where
  "Each ord now fn s st =
    (case each_loop now fn (entries ord s) st [] of
       (err, st', deferred) \<Rightarrow> (err, st', foldl (\<lambda>s k. cleanup now k s) s deferred))"

definition ListPrefix :: "sched \<Rightarrow> time \<Rightarrow> string \<Rightarrow> 'v goset \<Rightarrow> 'v item list \<times> 'v goset" where
  "ListPrefix ord now pre s =
    (let pre = normalizer s pre;
         fn = (\<lambda>key it r. (None, if HasPrefix key pre then r @ [it] else r)) in
     case Each ord now fn s [] of (_, r, s') \<Rightarrow> (r, s'))"

section \<open>Invariant and abstract map\<close>

text \<open>Keys are distinct, and each is the normal form of its item's own key.\<close>

definition set_inv :: "'v goset \<Rightarrow> bool" where
  "set_inv s \<longleftrightarrow> distinct (map fst (lookup s))
    \<and> (\<forall>k it. map_of (lookup s) k = Some it \<longrightarrow> k = normalizer s (Key it))"

definition present :: "time \<Rightarrow> 'v item \<Rightarrow> 'v item option" where
  "present now it = (if Value now it = None then None else Some it)"

definition live :: "time \<Rightarrow> 'v goset \<Rightarrow> string \<Rightarrow> 'v item option" where
  "live now s k = Option.bind (map_of (lookup s) k) (present now)"

text \<open>What has expired stays expired.\<close>

lemma Value_expires: "now \<le> now' \<Longrightarrow> Value now it = None \<Longrightarrow> Value now' it = None"
  by (induction it) (auto simp: Expired_def split: if_splits)

lemma present_None [simp]: "present now it = None \<longleftrightarrow> Value now it = None"
  by (simp add: present_def)

lemma live_eq_Some:
  "live now s k = Some it \<longleftrightarrow> map_of (lookup s) k = Some it \<and> Value now it \<noteq> None"
  by (auto simp: live_def present_def bind_eq_Some_conv)

lemma live_eq_None:
  "live now s k = None \<longleftrightarrow> (\<forall>it. map_of (lookup s) k = Some it \<longrightarrow> Value now it = None)"
  by (cases "map_of (lookup s) k") (auto simp: live_def)

lemma live_expires: "now \<le> now' \<Longrightarrow> live now s k = None \<Longrightarrow> live now' s k = None"
  unfolding live_eq_None by (blast intro: Value_expires)

lemma normalizer_New [simp]: "normalizer (New low) = normalize low"
  by (simp add: New_def)

lemma live_New [set_view]: "live now (New low) = Map.empty"
  by (simp add: live_def New_def fun_eq_iff)

lemma set_inv_New [set_wf]: "set_inv (New low)"
  by (simp add: set_inv_def New_def)

lemma set_inv_key: "set_inv s \<Longrightarrow> map_of (lookup s) k = Some it \<Longrightarrow> normalizer s (Key it) = k"
  by (simp add: set_inv_def)

subsection \<open>Single-entry updates of the map\<close>

lemma set_inv_update [set_wf]:
  "set_inv s \<Longrightarrow> k = normalizer s (Key it) \<Longrightarrow> set_inv (s\<lparr>lookup := AList.update k it (lookup s)\<rparr>)"
  by (auto simp: set_inv_def distinct_update)

lemma set_inv_delete [set_wf]:
  "set_inv s \<Longrightarrow> set_inv (s\<lparr>lookup := AList.delete k (lookup s)\<rparr>)"
  by (auto simp: set_inv_def distinct_delete)

lemma live_update [set_view]:
  "live now (s\<lparr>lookup := AList.update k it (lookup s)\<rparr>) = (live now s)(k := present now it)"
  by (auto simp: live_def fun_eq_iff)

lemma live_delete [set_view]:
  "live now (s\<lparr>lookup := AList.delete k (lookup s)\<rparr>) = (live now s)(k := None)"
  by (auto simp: live_def fun_eq_iff)

subsection \<open>The operations on the abstract map\<close>

lemma cleanup_normalizer [simp]: "normalizer (cleanup now k s) = normalizer s"
  by (simp add: cleanup_def split: option.split)

lemma set_inv_cleanup [set_wf]: "set_inv s \<Longrightarrow> set_inv (cleanup now k s)"
  by (simp add: cleanup_def set_wf split: option.split)

lemma live_cleanup [set_view]:
  assumes "now \<le> now'"
  shows "live now' (cleanup now k s) = live now' s"
proof (cases "\<exists>it. map_of (lookup s) k = Some it \<and> Value now it = None")
  case True
  then have "live now' s k = None"
    using assms by (auto simp: live_eq_None intro: Value_expires)
  then show ?thesis
    using True by (auto simp: cleanup_def live_delete fun_eq_iff)
next
  case False
  then show ?thesis by (auto simp: cleanup_def split: option.splits)
qed

lemma cleanups_normalizer [simp]:
  "normalizer (foldl (\<lambda>s k. cleanup now k s) s ks) = normalizer s"
  by (induction ks arbitrary: s) simp_all

lemma set_inv_cleanups [set_wf]:
  "set_inv s \<Longrightarrow> set_inv (foldl (\<lambda>s k. cleanup now k s) s ks)"
  by (induction ks arbitrary: s) (simp_all add: set_wf)

lemma live_cleanups [set_view]:
  "now \<le> now' \<Longrightarrow> live now' (foldl (\<lambda>s k. cleanup now k s) s ks) = live now' s"
  by (induction ks arbitrary: s) (simp_all add: set_view)

lemma In_live: "fst (In now k s) \<longleftrightarrow> live now s (normalizer s k) \<noteq> None"
  by (auto simp: In_def Let_def live_eq_None split: option.splits)

lemma In_state [set_view]: "now \<le> now' \<Longrightarrow> live now' (snd (In now k s)) = live now' s"
  by (auto simp: In_def Let_def set_view split: option.splits)

lemma In_normalizer [simp]: "normalizer (snd (In now k s)) = normalizer s"
  by (auto simp: In_def Let_def split: option.splits)

lemma set_inv_In [set_wf]: "set_inv s \<Longrightarrow> set_inv (snd (In now k s))"
  by (auto simp: In_def Let_def set_wf split: option.splits)

lemma Get_lookup:
  "fst (Get now k s) = (case map_of (lookup s) (normalizer s k) of None \<Rightarrow> Inl ErrMissing | Some it \<Rightarrow> Inr it)"
  by (auto simp: Get_def Let_def split: option.splits)

lemma Get_state [set_view]: "now \<le> now' \<Longrightarrow> live now' (snd (Get now k s)) = live now' s"
  by (auto simp: Get_def Let_def set_view split: option.splits)

lemma Get_normalizer [simp]: "normalizer (snd (Get now k s)) = normalizer s"
  by (auto simp: Get_def Let_def split: option.splits)

lemma set_inv_Get [set_wf]: "set_inv s \<Longrightarrow> set_inv (snd (Get now k s))"
  by (auto simp: Get_def Let_def set_wf split: option.splits)

lemma Add_result:
  "fst (Add now it s) = (if live now s (normalizer s (Key it)) = None then None else Some ErrCollision)"
  by (auto simp: Add_def Let_def live_eq_None split: option.splits)

lemma Add_collision: "live now s (normalizer s (Key it)) \<noteq> None \<Longrightarrow> Add now it s = (Some ErrCollision, s)"
  by (auto simp: Add_def Let_def live_eq_None split: option.splits)

lemma Add_fresh:
  "live now s (normalizer s (Key it)) = None \<Longrightarrow>
    Add now it s = (None, s\<lparr>lookup := AList.update (normalizer s (Key it)) it (lookup s)\<rparr>)"
  by (auto simp: Add_def Let_def live_eq_None split: option.splits)

lemma Add_normalizer [simp]: "normalizer (snd (Add now it s)) = normalizer s"
  by (auto simp: Add_def Let_def split: option.splits)

lemma set_inv_Add [set_wf]: "set_inv s \<Longrightarrow> set_inv (snd (Add now it s))"
  by (auto simp: Add_def Let_def set_wf split: option.splits)

lemma Set_result [simp]: "fst (Set it s) = None"
  by (simp add: Set_def Let_def)

lemma Set_state [set_view]:
  "live now (snd (Set it s)) = (live now s)(normalizer s (Key it) := present now it)"
  by (simp add: Set_def Let_def set_view)

lemma Set_normalizer [simp]: "normalizer (snd (Set it s)) = normalizer s"
  by (simp add: Set_def Let_def)

lemma set_inv_Set [set_wf]: "set_inv s \<Longrightarrow> set_inv (snd (Set it s))"
  by (simp add: Set_def Let_def set_wf)

lemma Remove_state [set_view]:
  "live now (snd (Remove k s)) = (live now s)(normalizer s k := None)"
  by (auto simp: Remove_def Let_def set_view live_eq_None fun_eq_iff split: option.splits)

lemma Remove_normalizer [simp]: "normalizer (snd (Remove k s)) = normalizer s"
  by (auto simp: Remove_def Let_def split: option.splits)

lemma set_inv_Remove [set_wf]: "set_inv s \<Longrightarrow> set_inv (snd (Remove k s))"
  by (auto simp: Remove_def Let_def set_wf split: option.splits)

lemma Replace_normalizer [simp]: "normalizer (snd (Replace k it s)) = normalizer s"
  by (auto simp: Replace_def Let_def)

lemma set_inv_Replace [set_wf]:
  assumes "set_inv s"
  shows "set_inv (snd (Replace k it s))"
proof -
  let ?d = "s\<lparr>lookup := AList.delete (normalizer s k) (lookup s)\<rparr>"
  have "set_inv (?d\<lparr>lookup := AList.update (normalizer s (Key it)) it (lookup ?d)\<rparr>)"
    using assms by (intro set_inv_update set_inv_delete) simp_all
  with assms show ?thesis by (simp add: Replace_def Let_def set_wf)
qed

lemma Replace_error: "fst (Replace k it s) = Some e \<Longrightarrow> snd (Replace k it s) = s"
  by (auto simp: Replace_def Let_def split: if_splits)

lemma Replace_state:
  assumes "fst (Replace k it s) = None"
  shows "live now (snd (Replace k it s))
    = (live now s)(normalizer s k := None, normalizer s (Key it) := present now it)"
proof (cases "normalizer s (Key it) = normalizer s k")
  case True
  then show ?thesis by (simp add: Replace_def Let_def set_view)
next
  case False
  with assms have "Replace k it s = (None, s\<lparr>lookup := AList.update (normalizer s (Key it)) it
      (AList.delete (normalizer s k) (lookup s))\<rparr>)"
    by (auto simp: Replace_def Let_def split: if_splits)
  then show ?thesis by (auto simp: live_def fun_eq_iff)
qed

subsection \<open>Visiting the entries\<close>

lemma entries_mem:
  assumes "permuting ord"
  shows "(k, it) \<in> set (entries ord s) \<longleftrightarrow> map_of (lookup s) k = Some it"
proof -
  have "map_of (lookup s) k = Some it \<Longrightarrow> k \<in> set (ord (map fst (lookup s)))"
    using permuting_set [OF assms] by (force dest: map_of_SomeD)
  then show ?thesis
    by (auto simp: entries_def map_filter_def image_iff intro!: bexI [of _ k])
qed

lemma entries_keys:
  assumes "permuting ord"
  shows "map fst (entries ord s) = ord (map fst (lookup s))"
proof -
  have "k \<in> set (ord (map fst (lookup s))) \<Longrightarrow> map_of (lookup s) k \<noteq> None" for k
    by (simp add: permuting_set [OF assms] map_of_eq_None_iff)
  then have "map fst (List.map_filter (\<lambda>k. map_option (\<lambda>it. (k, it)) (map_of (lookup s) k)) ks) = ks"
    if "set ks \<subseteq> set (ord (map fst (lookup s)))" for ks
    using that by (induction ks) (auto simp: map_filter_simps split: option.splits)
  then show ?thesis by (simp add: entries_def)
qed

lemma entries_distinct:
  "permuting ord \<Longrightarrow> set_inv s \<Longrightarrow> distinct (map fst (entries ord s))"
  by (simp add: entries_keys permuting_distinct set_inv_def)

text \<open>A callback that never fails: \<open>Each\<close> is a fold over the live entries.\<close>

lemma each_loop_total:
  assumes "\<And>k it st. fn k it st = (None, f k it st)"
  shows "each_loop now fn xs st deferred =
    (None, fold (\<lambda>(k, it) st. f k it st) (filter (\<lambda>(k, it). Value now it \<noteq> None) xs) st,
     rev (map fst (filter (\<lambda>(k, it). Value now it = None) xs)) @ deferred)"
  by (induction xs arbitrary: st deferred) (auto simp: assms)

lemma Each_total:
  assumes "\<And>k it st. fn k it st = (None, f k it st)"
  shows "\<exists>ks. Each ord now fn s st =
    (None, fold (\<lambda>(k, it) st. f k it st) (filter (\<lambda>(k, it). Value now it \<noteq> None) (entries ord s)) st,
     foldl (\<lambda>s k. cleanup now k s) s ks)"
  by (simp add: Each_def each_loop_total [OF assms]) blast

lemma each_loop_inv:
  assumes "P st" and "\<And>key it st. (key, it) \<in> set xs \<Longrightarrow> P st \<Longrightarrow> P (snd (fn key it st))"
  shows "P (fst (snd (each_loop now fn xs st deferred)))"
  using assms
proof (induction now fn xs st deferred rule: each_loop.induct)
  case (2 now fn key it rest st deferred)
  show ?case
  proof (cases "Value now it = None")
    case True
    then show ?thesis using 2 by simp
  next
    case False
    obtain r st' where r: "fn key it st = (r, st')" by fastforce
    then have "P st'" using 2(4) [of key it st] 2(3) by simp
    then show ?thesis using False r 2(2) [OF False r [symmetric]] 2(4) by (cases r) auto
  qed
qed simp

text \<open>An invariant of the callback's state, for a callback that may end the loop.\<close>

lemma Each_inv:
  assumes "P st" and "\<And>key it st. map_of (lookup s) key = Some it \<Longrightarrow> P st \<Longrightarrow> P (snd (fn key it st))"
  shows "P (fst (snd (Each ord now fn s st)))"
proof -
  have "P (fst (snd (each_loop now fn (entries ord s) st [])))"
    by (rule each_loop_inv [where P = P, OF assms(1)]) (auto simp: entries_def List.map_filter_def intro!: assms(2))
  then show ?thesis by (cases "each_loop now fn (entries ord s) st []") (simp add: Each_def)
qed

lemma Each_state:
  "\<exists>ks. snd (snd (Each ord now fn s st)) = foldl (\<lambda>s k. cleanup now k s) s ks"
  by (auto simp: Each_def split: prod.split)

lemma Each_live [set_view]: "now \<le> now' \<Longrightarrow> live now' (snd (snd (Each ord now fn s st))) = live now' s"
  using Each_state [of ord now fn s st] by (auto simp: live_cleanups)

lemma Each_normalizer [simp]: "normalizer (snd (snd (Each ord now fn s st))) = normalizer s"
  using Each_state [of ord now fn s st] by auto

lemma set_inv_Each [set_wf]: "set_inv s \<Longrightarrow> set_inv (snd (snd (Each ord now fn s st)))"
  using Each_state [of ord now fn s st] by (auto simp: set_inv_cleanups)

lemma fold_collect:
  "fold (\<lambda>x r. if P x then r @ [g x] else r) xs r = r @ map g (filter P xs)"
  by (induction xs arbitrary: r) auto

lemma ListPrefix_result:
  "fst (ListPrefix ord now pre s) =
    map snd (filter (\<lambda>(k, it). Value now it \<noteq> None \<and> HasPrefix k (normalizer s pre)) (entries ord s))"
proof -
  let ?pre = "normalizer s pre"
  obtain ks where "Each ord now (\<lambda>key it r. (None, if HasPrefix key ?pre then r @ [it] else r)) s [] =
    (None, fold (\<lambda>(k, it) r. if HasPrefix k ?pre then r @ [it] else r)
       (filter (\<lambda>(k, it). Value now it \<noteq> None) (entries ord s)) [],
     foldl (\<lambda>s k. cleanup now k s) s ks)"
    using Each_total [of _ "\<lambda>k it r. if HasPrefix k ?pre then r @ [it] else r", OF refl] by blast
  then show ?thesis
    by (simp add: ListPrefix_def fold_collect case_prod_unfold filter_filter conj_commute)
qed

lemma ListPrefix_set:
  assumes "permuting ord"
  shows "set (fst (ListPrefix ord now pre s)) =
    {it. \<exists>k. live now s k = Some it \<and> HasPrefix k (normalizer s pre)}"
proof -
  have "it \<in> set (fst (ListPrefix ord now pre s)) \<longleftrightarrow>
    (\<exists>k. (k, it) \<in> set (entries ord s) \<and> Value now it \<noteq> None \<and> HasPrefix k (normalizer s pre))" for it
    by (force simp: ListPrefix_result)
  then show ?thesis by (auto simp: entries_mem [OF assms] live_eq_Some)
qed

section \<open>Runs of operations\<close>

text \<open>The critical sections of the set, as other goroutines may interleave
  them; \<open>DoCleanup\<close> is the second section of \<open>In\<close> and \<open>Get\<close>.\<close>

datatype 'v set_op =
    DoClear | DoIn time string | DoGet time string | DoCleanup time string
  | DoAdd time "'v item" | DoSet "'v item" | DoRemove string | DoReplace string "'v item"
  | DoListPrefix sched time string

fun apply_op :: "'v goset \<Rightarrow> 'v set_op \<Rightarrow> 'v goset" where
  "apply_op s DoClear = snd (Clear s)"
| "apply_op s (DoIn now k) = snd (In now k s)"
| "apply_op s (DoGet now k) = snd (Get now k s)"
| "apply_op s (DoCleanup now k) = cleanup now k s"
| "apply_op s (DoAdd now it) = snd (Add now it s)"
| "apply_op s (DoSet it) = snd (Set it s)"
| "apply_op s (DoRemove k) = snd (Remove k s)"
| "apply_op s (DoReplace k it) = snd (Replace k it s)"
| "apply_op s (DoListPrefix ord now pre) = snd (ListPrefix ord now pre s)"

lemma ListPrefix_state: "\<exists>ks. snd (ListPrefix ord now pre s) = foldl (\<lambda>s k. cleanup now k s) s ks"
  by (simp add: ListPrefix_def Let_def case_prod_unfold Each_state)

lemma ListPrefix_live [set_view]: "now \<le> now' \<Longrightarrow> live now' (snd (ListPrefix ord now pre s)) = live now' s"
  using ListPrefix_state [of ord now pre s] by (auto simp: live_cleanups)

lemma ListPrefix_normalizer [simp]: "normalizer (snd (ListPrefix ord now pre s)) = normalizer s"
  using ListPrefix_state [of ord now pre s] by auto

lemma set_inv_ListPrefix [set_wf]: "set_inv s \<Longrightarrow> set_inv (snd (ListPrefix ord now pre s))"
  using ListPrefix_state [of ord now pre s] by (auto simp: set_inv_cleanups)

lemma set_inv_Clear [set_wf]: "set_inv (snd (Clear s))"
  by (simp add: set_inv_def Clear_def)

lemma apply_op_normalizer [simp]: "normalizer (apply_op s p) = normalizer s"
  by (cases p) (simp_all add: Clear_def)

lemma set_inv_apply_op [set_wf]: "set_inv s \<Longrightarrow> set_inv (apply_op s p)"
  by (cases p) (simp_all add: set_wf)

lemma set_inv_run: "set_inv s \<Longrightarrow> set_inv (foldl apply_op s ops)"
  by (induction ops arbitrary: s) (simp_all add: set_wf)

section \<open>Properties\<close>

text \<open>C25: whatever critical sections run on a new set, and in whatever order,
  its keys stay distinct and every key is the normal form of the key of its
  item, so one normalised key never names two items.\<close>

theorem set_reachable_inv:
  "set_inv (foldl apply_op (New low) ops)"
  by (simp add: set_inv_run set_wf)

text \<open>C29: \<open>Add\<close> refines insertion into the map of live items: it refuses exactly
  when the normalised key has an item that has not expired, and then changes
  nothing; otherwise the new item takes the key at every time and no other
  key changes.\<close>

theorem Add_refines:
  "case live now s (normalizer s (Key it)) of
     Some old \<Rightarrow> Add now it s = (Some ErrCollision, s)
   | None \<Rightarrow> fst (Add now it s) = None
       \<and> (\<forall>t. live t (snd (Add now it s)) = (live t s)(normalizer s (Key it) := present t it))"
  by (simp add: Add_collision Add_fresh live_update split: option.split)

text \<open>\<open>Replace\<close> is a rename of the map: a new key that is taken is a
  collision, a missing old key is reported, an error leaves the set unchanged,
  and success frees the old key and gives the item its new one. When old and
  new key normalise alike the item is stored without any check.\<close>

theorem Replace_refines:
  assumes "set_inv s" and "Replace old it s = (err, s')"
  defines "k \<equiv> normalizer s old" and "k' \<equiv> normalizer s (Key it)"
  shows "err = (if k' = k then None
                else if map_of (lookup s) k' \<noteq> None then Some ErrCollision
                else if map_of (lookup s) k = None then Some ErrMissing else None)
    \<and> set_inv s'
    \<and> (if err = None then \<forall>t. live t s' = (live t s)(k := None, k' := present t it) else s' = s)"
proof -
  have "err = fst (Replace old it s)" and s': "s' = snd (Replace old it s)"
    using assms(2) by simp_all
  moreover from this have "set_inv s'"
    using set_inv_Replace [OF assms(1)] by simp
  moreover have "live t s' = (live t s)(k := None, k' := present t it)" if "err = None" for t
    using that calculation Replace_state [of old it s t] by (simp add: k_def k'_def)
  moreover have "s' = s" if "err \<noteq> None"
    using that calculation Replace_error [of old it s] by auto
  moreover have "fst (Replace old it s) = (if k' = k then None
      else if map_of (lookup s) k' \<noteq> None then Some ErrCollision
      else if map_of (lookup s) k = None then Some ErrMissing else None)"
    by (auto simp: Replace_def Let_def k_def k'_def)
  ultimately show ?thesis by simp
qed

theorem Replace_refines_witness:
  "live 0 (snd (Replace ''bob'' (Itemize ''Eve'' (Some True))
      (snd (Add 0 (Itemize ''bob'' (Some True)) (New (\<lambda>r. r)))))) ''eve''
    = Some (Itemize ''Eve'' (Some True))"
proof -
  define s :: "bool goset" where "s = snd (Add 0 (Itemize ''bob'' (Some True)) (New (\<lambda>r. r)))"
  have n: "normalizer s = normalize (\<lambda>r. r)" by (simp add: s_def)
  have low: "normalize (\<lambda>r. r) ''bob'' = ''bob''" "normalize (\<lambda>r. r) ''Eve'' = ''eve''"
    by (simp_all add: normalize_def str_eval)
  have inv: "set_inv s" by (simp add: s_def set_wf)
  have eq: "Replace ''bob'' (Itemize ''Eve'' (Some True)) s
      = (None, snd (Replace ''bob'' (Itemize ''Eve'' (Some True)) s))"
    by (simp add: Replace_def n low) (simp add: s_def Add_def New_def low)
  show ?thesis
    using Replace_refines [OF inv eq] unfolding s_def [symmetric]
    by (simp add: n low present_def split: if_splits)
qed

text \<open>the second critical section of \<open>In\<close> and \<open>Get\<close> is harmless wherever it
  is interleaved: \<open>cleanup\<close> changes no lookup from its time on, on any key and
  in any state, because it looks again before it deletes.\<close>

theorem cleanup_harmless:
  assumes "now \<le> t"
  shows "live t (cleanup now k s) = live t s \<and> fst (In t q (cleanup now k s)) = fst (In t q s)"
  using assms by (simp add: In_live live_cleanup)

theorem cleanup_harmless_witness:
  "(0::time) \<le> 5 \<and> live 5 (cleanup 0 ''a'' (New id :: nat goset)) = live 5 (New id)"
  using cleanup_harmless [of 0 5 "''a''" "New id :: nat goset" "''a''"] by simp

text \<open>\<open>ListPrefix\<close> returns each live item whose normalised key has the
  normalised prefix, exactly once, whatever order the runtime visits the map
  in, and it changes no later lookup.\<close>

theorem ListPrefix_exact:
  assumes "permuting ord" and "set_inv s"
  shows "set (fst (ListPrefix ord now pre s)) =
      {it. \<exists>k. live now s k = Some it \<and> HasPrefix k (normalizer s pre)}
    \<and> distinct (fst (ListPrefix ord now pre s))
    \<and> (\<forall>t\<ge>now. live t (snd (ListPrefix ord now pre s)) = live t s)"
proof (intro conjI)
  have "inj_on snd (set (entries ord s))"
    by (rule inj_onI) (metis assms entries_mem prod.collapse set_inv_def)
  then have "distinct (map snd (entries ord s))"
    using entries_distinct [OF assms] by (simp add: distinct_map)
  then show "distinct (fst (ListPrefix ord now pre s))"
    by (simp add: ListPrefix_result distinct_map_filter)
qed (simp_all add: ListPrefix_set [OF assms(1)] ListPrefix_live)

theorem ListPrefix_exact_witness:
  "permuting rev \<and> set_inv (New id :: nat goset) \<and> fst (ListPrefix rev 0 ''a'' (New id :: nat goset)) = []"
proof -
  have "set (fst (ListPrefix rev 0 ''a'' (New id :: nat goset))) = {}"
    using ListPrefix_exact [of rev "New id :: nat goset" 0 "''a''"] by (simp add: set_wf set_view)
  then show ?thesis by (simp add: set_wf)
qed

end
