(* ===== verification/AuthDb.thy ===== *)
theory AuthDb
  imports GoSet
begin

text \<open>
  The database of bans, operators and the allow list (\<open>auth.go\<close>) and the
  fingerprints that index it (\<open>Fingerprint\<close> of \<open>sshd/auth.go\<close>). A public key is
  its marshalled bytes; a \<open>net.Addr\<close> is the string it prints. Cryptography and
  the parsers of the standard library that \<open>BanQuery\<close> calls are the fields of
  \<open>golib\<close>, an argument of what uses them.
\<close>

section \<open>Library functions that are parameters\<close>

text \<open>
  \<open>ParseIP v\<close> is the canonical text of the address \<open>net.ParseIP(v)\<close>, \<open>None\<close> for a
  \<open>nil\<close> address; \<open>csv_Read q\<close> is the first record of \<open>q\<close> read with a space as the
  separator; \<open>Quote\<close> is the verb \<open>%q\<close>.
\<close>

record golib =
  sha256 :: "string \<Rightarrow> string"
  ParseIP :: "string \<Rightarrow> string option"
  csv_Read :: "string \<Rightarrow> go_error + string list"
  ParseDuration :: "string \<Rightarrow> go_error + duration"
  Quote :: "string \<Rightarrow> string"

section \<open>Fingerprints and addresses\<close>

type_synonym pubkey = string
type_synonym netaddr = string

definition b64_digit :: "nat \<Rightarrow> char" where
  "b64_digit n =
    (if n < 26 then byte (65 + n) else if n < 52 then byte (97 + (n - 26))
     else if n < 62 then byte (48 + (n - 52)) else if n = 62 then CHR ''+'' else CHR ''/'')"

fun base64 :: "string \<Rightarrow> string" where
  "base64 [] = []"
| "base64 [a] = [b64_digit (bv a div 4), b64_digit (bv a mod 4 * 16), CHR ''='', CHR ''='']"
| "base64 [a, b] = [b64_digit (bv a div 4), b64_digit (bv a mod 4 * 16 + bv b div 16),
    b64_digit (bv b mod 16 * 4), CHR ''='']"
| "base64 (a # b # c # rest) =
    [b64_digit (bv a div 4), b64_digit (bv a mod 4 * 16 + bv b div 16),
     b64_digit (bv b mod 16 * 4 + bv c div 64), b64_digit (bv c mod 64)] @ base64 rest"

definition Fingerprint :: "golib \<Rightarrow> pubkey \<Rightarrow> string" where
  "Fingerprint lib k = ''SHA256:'' @ base64 (sha256 lib k)"

text \<open>\<open>net.SplitHostPort\<close>, its host only; every error gives the empty host.\<close>

definition last_index :: "char \<Rightarrow> string \<Rightarrow> nat option" where
  "last_index c s =
    (if c \<in> set s then Some (length s - 1 - length (takeWhile (\<lambda>x. x \<noteq> c) (rev s))) else None)"

definition SplitHost :: "string \<Rightarrow> string" where
  "SplitHost hp =
    (case last_index CHR '':'' hp of
       None \<Rightarrow> []
     | Some i \<Rightarrow>
       if hp ! 0 = CHR ''['' then
         (if CHR '']'' \<notin> set hp then []
          else let e = length (takeWhile (\<lambda>x. x \<noteq> CHR '']'') hp) in
            if e + 1 \<noteq> i then []
            else if CHR ''['' \<in> set (drop 1 hp) \<or> CHR '']'' \<in> set (drop (e + 1) hp) then []
            else take (e - 1) (drop 1 hp))
       else
         let host = take i hp in
         if CHR '':'' \<in> set host \<or> CHR ''['' \<in> set hp \<or> CHR '']'' \<in> set hp then [] else host)"

definition JoinHostPort :: "string \<Rightarrow> string \<Rightarrow> string" where
  "JoinHostPort host port =
    (if CHR '':'' \<in> set host then ''['' @ host @ '']:'' @ port else host @ '':'' @ port)"

definition newAuthKey :: "golib \<Rightarrow> pubkey option \<Rightarrow> string" where
  "newAuthKey lib key = (case key of None \<Rightarrow> [] | Some k \<Rightarrow> Fingerprint lib k)"

definition newAuthItem :: "golib \<Rightarrow> pubkey option \<Rightarrow> unit item" where
  "newAuthItem lib key = StringItem (newAuthKey lib key)"

definition newAuthAddr :: "netaddr option \<Rightarrow> string" where
  "newAuthAddr addr = (case addr of None \<Rightarrow> [] | Some a \<Rightarrow> SplitHost a)"

section \<open>State\<close>

text \<open>A loader returns keys and an error each time it is called.\<close>

type_synonym KeyLoader = "time \<Rightarrow> pubkey option list \<times> go_error option"

record auth =
  passphraseHash :: "string option"
  bannedAddr :: "unit goset"
  bannedClient :: "unit goset"
  banned :: "unit goset"
  allowlist :: "unit goset"
  ops :: "unit goset"
  allowlistMode :: bool
  opLoader :: "KeyLoader option"
  allowlistLoader :: "KeyLoader option"

definition NewAuth :: "(rune \<Rightarrow> rune) \<Rightarrow> auth" where
  "NewAuth low =
    \<lparr>passphraseHash = None, bannedAddr = New low, bannedClient = New low, banned = New low,
     allowlist = New low, ops = New low, allowlistMode = False,
     opLoader = None, allowlistLoader = None\<rparr>"

section \<open>Settings and checks\<close>

definition SetAllowlistMode :: "bool \<Rightarrow> auth \<Rightarrow> auth" where
  "SetAllowlistMode v a = a\<lparr>allowlistMode := v\<rparr>"

definition SetPassphrase :: "golib \<Rightarrow> string \<Rightarrow> auth \<Rightarrow> auth" where
  "SetPassphrase lib passphrase a =
    (if passphrase = [] then a\<lparr>passphraseHash := None\<rparr>
     else a\<lparr>passphraseHash := Some (sha256 lib passphrase)\<rparr>)"

definition AllowAnonymous :: "auth \<Rightarrow> bool" where
  "AllowAnonymous a \<longleftrightarrow> \<not> allowlistMode a \<and> passphraseHash a = None"

definition AcceptPassphrase :: "auth \<Rightarrow> bool" where
  "AcceptPassphrase a \<longleftrightarrow> passphraseHash a \<noteq> None"

definition IsOp :: "golib \<Rightarrow> time \<Rightarrow> pubkey option \<Rightarrow> auth \<Rightarrow> bool \<times> auth" where
  "IsOp lib now key a =
    (case In now (newAuthKey lib key) (ops a) of (b, s) \<Rightarrow> (b, a\<lparr>ops := s\<rparr>))"

definition CheckBans ::
  "golib \<Rightarrow> time \<Rightarrow> netaddr option \<Rightarrow> pubkey option \<Rightarrow> string \<Rightarrow> auth \<Rightarrow> go_error option \<times> auth" where
  "CheckBans lib now addr key clientVersion a =
    (let authkey = newAuthKey lib key;
         (ban, a) = (if authkey \<noteq> [] then
            (case In now authkey (banned a) of (b, s) \<Rightarrow> (b, a\<lparr>banned := s\<rparr>)) else (False, a));
         (ban, a) = (if \<not> ban then
            (case In now (newAuthAddr addr) (bannedAddr a) of (b, s) \<Rightarrow> (b, a\<lparr>bannedAddr := s\<rparr>))
            else (ban, a));
         (ban, a) = (if \<not> ban then
            (case In now clientVersion (bannedClient a) of (b, s) \<Rightarrow> (b, a\<lparr>bannedClient := s\<rparr>))
            else (ban, a)) in
     if ban then
       (case IsOp lib now key a of (op, a) \<Rightarrow> if \<not> op then (Some ErrBanned, a) else (None, a))
     else (None, a))"

definition CheckPublicKey :: "golib \<Rightarrow> time \<Rightarrow> pubkey option \<Rightarrow> auth \<Rightarrow> go_error option \<times> auth" where
  "CheckPublicKey lib now key a =
    (case In now (newAuthKey lib key) (allowlist a) of (allowlisted, s) \<Rightarrow>
      let a = a\<lparr>allowlist := s\<rparr> in
      if AllowAnonymous a \<or> allowlisted then (None, a)
      else case IsOp lib now key a of (op, a) \<Rightarrow> if op then (None, a) else (Some ErrNotAllowed, a))"

definition CheckPassphrase :: "golib \<Rightarrow> string \<Rightarrow> auth \<Rightarrow> go_error option" where
  "CheckPassphrase lib passphrase a =
    (case passphraseHash a of
       None \<Rightarrow> Some (Errorf ''passphrases not accepted'')
     | Some h \<Rightarrow> if sha256 lib passphrase \<noteq> h then Some ErrIncorrectPassphrase else None)"

section \<open>Changing the lists\<close>

text \<open>The statement every method below uses: an expiring item for a duration
  that is not zero, else a permanent one.\<close>

definition put_for :: "duration \<Rightarrow> time \<Rightarrow> string \<Rightarrow> unit goset \<Rightarrow> unit goset" where
  "put_for d now key s =
    snd (Set (if d \<noteq> 0 then Expire (StringItem key) d now else StringItem key) s)"

definition Op :: "golib \<Rightarrow> time \<Rightarrow> pubkey option \<Rightarrow> duration \<Rightarrow> auth \<Rightarrow> auth" where
  "Op lib now key d a =
    (if key = None then a else a\<lparr>ops := put_for d now (newAuthKey lib key) (ops a)\<rparr>)"

definition Allowlist :: "golib \<Rightarrow> time \<Rightarrow> pubkey option \<Rightarrow> duration \<Rightarrow> auth \<Rightarrow> auth" where
  "Allowlist lib now key d a =
    (if key = None then a else a\<lparr>allowlist := put_for d now (newAuthKey lib key) (allowlist a)\<rparr>)"

definition BanFingerprint :: "time \<Rightarrow> string \<Rightarrow> duration \<Rightarrow> auth \<Rightarrow> auth" where
  "BanFingerprint now authkey d a = a\<lparr>banned := put_for d now authkey (banned a)\<rparr>"

definition Ban :: "golib \<Rightarrow> time \<Rightarrow> pubkey option \<Rightarrow> duration \<Rightarrow> auth \<Rightarrow> auth" where
  "Ban lib now key d a = (if key = None then a else BanFingerprint now (newAuthKey lib key) d a)"

definition BanClient :: "time \<Rightarrow> string \<Rightarrow> duration \<Rightarrow> auth \<Rightarrow> auth" where
  "BanClient now client d a = a\<lparr>bannedClient := put_for d now client (bannedClient a)\<rparr>"

definition BanAddr :: "time \<Rightarrow> netaddr option \<Rightarrow> duration \<Rightarrow> auth \<Rightarrow> auth" where
  "BanAddr now addr d a = a\<lparr>bannedAddr := put_for d now (newAuthAddr addr) (bannedAddr a)\<rparr>"

definition addFromLoader ::
  "KeyLoader option \<Rightarrow> (pubkey option \<Rightarrow> duration \<Rightarrow> auth \<Rightarrow> auth) \<Rightarrow> time \<Rightarrow> auth \<Rightarrow> go_error option \<times> auth" where
  "addFromLoader loader adder now a =
    (case loader of
       None \<Rightarrow> (None, a)
     | Some load \<Rightarrow> (case load now of (keys, err) \<Rightarrow> (err, fold (\<lambda>key a. adder key 0 a) keys a)))"

definition ReloadOps :: "golib \<Rightarrow> time \<Rightarrow> auth \<Rightarrow> go_error option \<times> auth" where
  "ReloadOps lib now a = addFromLoader (opLoader a) (Op lib now) now a"

definition LoadOps :: "golib \<Rightarrow> time \<Rightarrow> KeyLoader option \<Rightarrow> auth \<Rightarrow> go_error option \<times> auth" where
  "LoadOps lib now loader a = ReloadOps lib now (a\<lparr>opLoader := loader\<rparr>)"

definition ReloadAllowlist :: "golib \<Rightarrow> time \<Rightarrow> auth \<Rightarrow> go_error option \<times> auth" where
  "ReloadAllowlist lib now a = addFromLoader (allowlistLoader a) (Allowlist lib now) now a"

definition LoadAllowlist :: "golib \<Rightarrow> time \<Rightarrow> KeyLoader option \<Rightarrow> auth \<Rightarrow> go_error option \<times> auth" where
  "LoadAllowlist lib now loader a = ReloadAllowlist lib now (a\<lparr>allowlistLoader := loader\<rparr>)"

text \<open>\<open>Banned\<close>: addresses, fingerprints and clients, each in the order its map is
  visited in.\<close>

definition keys_of :: "sched \<Rightarrow> time \<Rightarrow> unit goset \<Rightarrow> string list \<times> unit goset" where
  "keys_of ord now s = (case Each ord now (\<lambda>key it ks. (None, ks @ [key])) s [] of (_, ks, s') \<Rightarrow> (ks, s'))"

definition Banned :: "sched \<Rightarrow> time \<Rightarrow> auth \<Rightarrow> (string list \<times> string list \<times> string list) \<times> auth" where
  "Banned ord now a =
    (case keys_of ord now (banned a) of (fingerprint, s1) \<Rightarrow>
     case keys_of ord now (bannedAddr a) of (ip, s2) \<Rightarrow>
     case keys_of ord now (bannedClient a) of (client, s3) \<Rightarrow>
       ((ip, fingerprint, client), a\<lparr>banned := s1, bannedAddr := s2, bannedClient := s3\<rparr>))"

text \<open>\<open>IP.String()\<close> and \<open>TCPAddr.String()\<close> of the address that \<open>ParseIP\<close> gave.\<close>

definition IP_String :: "string option \<Rightarrow> string" where
  "IP_String ip = (case ip of None \<Rightarrow> ''<nil>'' | Some t \<Rightarrow> t)"

definition TCPAddr_String :: "string option \<Rightarrow> netaddr" where
  "TCPAddr_String ip = JoinHostPort (case ip of None \<Rightarrow> [] | Some t \<Rightarrow> t) ''0''"

text \<open>The loop of \<open>BanQuery\<close> over the fields: it stops at the first bad one, with
  the bans of the earlier ones already made.\<close>

fun ban_fields :: "golib \<Rightarrow> time \<Rightarrow> string \<Rightarrow> duration \<Rightarrow> string list \<Rightarrow> auth \<Rightarrow> go_error option \<times> auth" where
  "ban_fields lib now q d [] a = (None, a)"
| "ban_fields lib now q d (field # fs) a =
    (case SplitN2 field CHR ''='' of
       [key, val] \<Rightarrow>
         if key = ''client'' then ban_fields lib now q d fs (BanClient now val d a)
         else if key = ''fingerprint'' then ban_fields lib now q d fs (BanFingerprint now val d a)
         else if key = ''ip'' then
           (let ip = ParseIP lib val in
            if IP_String ip = [] then (Some (Errorf (''invalid ip value: '' @ Quote lib (IP_String ip))), a)
            else ban_fields lib now q d fs (BanAddr now (Some (TCPAddr_String ip)) d a))
         else (Some (Errorf (''unknown query field: '' @ Quote lib field)), a)
     | _ \<Rightarrow> (Some (Errorf (''invalid query: '' @ Quote lib q)), a))"

definition BanQuery :: "golib \<Rightarrow> time \<Rightarrow> string \<Rightarrow> auth \<Rightarrow> go_error option \<times> auth" where
  "BanQuery lib now q a =
    (case csv_Read lib q of
       Inl err \<Rightarrow> (Some err, a)
     | Inr fs \<Rightarrow>
       if fs = [] then (Some (GoPanic ''index out of range''), a)
       else if \<not> ContainsByte (last fs) CHR ''='' then
         (case ParseDuration lib (last fs) of
            Inl err \<Rightarrow> (Some err, a)
          | Inr d \<Rightarrow> ban_fields lib now q d (butlast fs) a)
       else ban_fields lib now q 0 fs a)"

section \<open>The interface of a timed list\<close>

text \<open>What the checks rely on in the set: an entry put for a duration holds until
  then (for ever when the duration is zero), and looking does not change what
  is found later.\<close>

locale timed_list =
  fixes put :: "duration \<Rightarrow> time \<Rightarrow> string \<Rightarrow> 's \<Rightarrow> 's"
    and has :: "time \<Rightarrow> string \<Rightarrow> 's \<Rightarrow> bool \<times> 's"
    and holds :: "time \<Rightarrow> 's \<Rightarrow> string \<Rightarrow> bool"
    and norm :: "'s \<Rightarrow> string \<Rightarrow> string"
  assumes has_holds: "fst (has now k s) \<longleftrightarrow> holds now s (norm s k)"
    and holds_has: "now \<le> t \<Longrightarrow> holds t (snd (has now k s)) = holds t s"
    and norm_has: "norm (snd (has now k s)) = norm s"
    and holds_put: "holds t (put d now k s) = (holds t s)(norm s k := d = 0 \<or> t \<le> now + d)"
    and norm_put: "norm (put d now k s) = norm s"
begin

text \<open>A sequence of lookups, the state passed on.\<close>

fun looks :: "(time \<times> string) list \<Rightarrow> 's \<Rightarrow> 's" where
  "looks [] s = s"
| "looks ((now, k) # qs) s = looks qs (snd (has now k s))"

lemma norm_looks: "norm (looks qs s) = norm s"
  by (induction qs s rule: looks.induct) (simp_all add: norm_has)

lemma holds_looks: "list_all (\<lambda>(now, k). now \<le> t) qs \<Longrightarrow> holds t (looks qs s) = holds t s"
  by (induction qs s rule: looks.induct) (simp_all add: holds_has)

lemma has_after_put:
  assumes "list_all (\<lambda>(now, k). now \<le> t) qs"
  shows "fst (has t k (looks qs (put d now k s))) \<longleftrightarrow> d = 0 \<or> t \<le> now + d"
  by (simp add: has_holds norm_looks norm_put holds_looks [OF assms] holds_put)

lemma has_after_other_put:
  assumes "norm s k' \<noteq> norm s k"
  shows "fst (has t k (put d now k' s)) \<longleftrightarrow> fst (has t k s)"
  using assms by (simp add: has_holds norm_put holds_put)

end

definition holds :: "time \<Rightarrow> 'v goset \<Rightarrow> string \<Rightarrow> bool" where
  "holds t s k \<longleftrightarrow> live t s k \<noteq> None"

lemma holds_put_for:
  "holds t (put_for d now k s) = (holds t s)(normalizer s k := d = 0 \<or> t \<le> now + d)"
  by (auto simp: holds_def put_for_def Set_state present_def Expire_def Expired_def fun_eq_iff)

lemma holds_In: "now \<le> t \<Longrightarrow> holds t (snd (In now k s)) = holds t s"
  by (simp add: holds_def fun_eq_iff In_state)

lemma In_holds: "fst (In now k s) \<longleftrightarrow> holds now s (normalizer s k)"
  by (simp add: holds_def In_live)

lemma put_for_normalizer [simp]: "normalizer (put_for d now k s) = normalizer s"
  by (simp add: put_for_def)

interpretation auth_list: timed_list put_for In holds normalizer
  by unfold_locales (simp_all add: In_holds holds_In holds_put_for)

lemma set_inv_put_for [set_wf]: "set_inv s \<Longrightarrow> set_inv (put_for d now k s)"
  by (simp add: put_for_def set_wf)

section \<open>What the lists say\<close>

definition key_listed :: "golib \<Rightarrow> time \<Rightarrow> pubkey option \<Rightarrow> unit goset \<Rightarrow> bool" where
  "key_listed lib now key s \<longleftrightarrow> holds now s (normalizer s (newAuthKey lib key))"

definition ban_applies :: "golib \<Rightarrow> time \<Rightarrow> netaddr option \<Rightarrow> pubkey option \<Rightarrow> string \<Rightarrow> auth \<Rightarrow> bool" where
  "ban_applies lib now addr key client a \<longleftrightarrow>
    (key \<noteq> None \<and> key_listed lib now key (banned a))
    \<or> holds now (bannedAddr a) (normalizer (bannedAddr a) (newAuthAddr addr))
    \<or> holds now (bannedClient a) (normalizer (bannedClient a) client)"

text \<open>Two databases that answer every question alike from time \<open>now\<close> on.\<close>

definition same_lists :: "time \<Rightarrow> auth \<Rightarrow> auth \<Rightarrow> bool" where
  "same_lists now a b \<longleftrightarrow>
    (\<forall>t\<ge>now. holds t (banned a) = holds t (banned b) \<and> holds t (bannedAddr a) = holds t (bannedAddr b)
      \<and> holds t (bannedClient a) = holds t (bannedClient b)
      \<and> holds t (allowlist a) = holds t (allowlist b) \<and> holds t (ops a) = holds t (ops b))
    \<and> normalizer (banned a) = normalizer (banned b) \<and> normalizer (bannedAddr a) = normalizer (bannedAddr b)
    \<and> normalizer (bannedClient a) = normalizer (bannedClient b)
    \<and> normalizer (allowlist a) = normalizer (allowlist b) \<and> normalizer (ops a) = normalizer (ops b)
    \<and> passphraseHash a = passphraseHash b \<and> allowlistMode a = allowlistMode b"

lemma same_lists_refl [simp]: "same_lists now a a"
  by (simp add: same_lists_def)

lemma newAuthKey_empty [simp]: "newAuthKey lib key = [] \<longleftrightarrow> key = None"
  by (simp add: newAuthKey_def Fingerprint_def split: option.split)

lemma IsOp_result: "fst (IsOp lib now key a) \<longleftrightarrow> key_listed lib now key (ops a)"
  by (simp add: IsOp_def key_listed_def auth_list.has_holds case_prod_unfold)

lemma IsOp_state: "snd (IsOp lib now key a) = a\<lparr>ops := snd (In now (newAuthKey lib key) (ops a))\<rparr>"
  by (simp add: IsOp_def case_prod_unfold)

lemma same_lists_step:
  "same_lists now (a\<lparr>banned := snd (In now k (banned a))\<rparr>) b = same_lists now a b"
  "same_lists now (a\<lparr>bannedAddr := snd (In now k (bannedAddr a))\<rparr>) b = same_lists now a b"
  "same_lists now (a\<lparr>bannedClient := snd (In now k (bannedClient a))\<rparr>) b = same_lists now a b"
  "same_lists now (a\<lparr>allowlist := snd (In now k (allowlist a))\<rparr>) b = same_lists now a b"
  "same_lists now (a\<lparr>ops := snd (In now k (ops a))\<rparr>) b = same_lists now a b"
  by (auto simp: same_lists_def holds_In)

lemma CheckBans_result:
  "fst (CheckBans lib now addr key client a) =
    (if ban_applies lib now addr key client a \<and> \<not> key_listed lib now key (ops a)
     then Some ErrBanned else None)"
  by (auto simp: CheckBans_def case_prod_unfold Let_def ban_applies_def key_listed_def In_holds IsOp_result)

lemma CheckBans_same: "same_lists now (snd (CheckBans lib now addr key client a)) a"
  by (auto simp: CheckBans_def case_prod_unfold Let_def IsOp_state same_lists_step same_lists_def holds_In)

lemma CheckPublicKey_result:
  "fst (CheckPublicKey lib now key a) =
    (if AllowAnonymous a \<or> key_listed lib now key (allowlist a) \<or> key_listed lib now key (ops a)
     then None else Some ErrNotAllowed)"
  by (auto simp: CheckPublicKey_def case_prod_unfold Let_def key_listed_def In_holds IsOp_result AllowAnonymous_def)

lemma CheckPublicKey_same: "same_lists now (snd (CheckPublicKey lib now key a)) a"
  by (auto simp: CheckPublicKey_def case_prod_unfold Let_def IsOp_state same_lists_step same_lists_def holds_In)

section \<open>Steps of the database\<close>

text \<open>The operations other components call, \<open>flush\<close> being the \<open>Clear\<close> of the allow
  list by \<open>/allowlist reload flush\<close>.\<close>

inductive auth_step :: "golib \<Rightarrow> auth \<Rightarrow> auth \<Rightarrow> bool" for lib where
  mode: "auth_step lib a (SetAllowlistMode v a)"
| passphrase: "auth_step lib a (SetPassphrase lib p a)"
| check_bans: "auth_step lib a (snd (CheckBans lib now addr key client a))"
| check_key: "auth_step lib a (snd (CheckPublicKey lib now key a))"
| is_op: "auth_step lib a (snd (IsOp lib now key a))"
| op: "auth_step lib a (Op lib now key d a)"
| allow: "auth_step lib a (Allowlist lib now key d a)"
| ban: "auth_step lib a (Ban lib now key d a)"
| ban_fingerprint: "auth_step lib a (BanFingerprint now fp d a)"
| ban_client: "auth_step lib a (BanClient now client d a)"
| ban_addr: "auth_step lib a (BanAddr now addr d a)"
| ban_query: "auth_step lib a (snd (BanQuery lib now q a))"
| load_ops: "auth_step lib a (snd (LoadOps lib now loader a))"
| load_allow: "auth_step lib a (snd (LoadAllowlist lib now loader a))"
| reload_allow: "auth_step lib a (snd (ReloadAllowlist lib now a))"
| list_banned: "auth_step lib a (snd (Banned ord now a))"
| flush: "auth_step lib a (a\<lparr>allowlist := snd (Clear (allowlist a))\<rparr>)"

inductive auth_reach :: "golib \<Rightarrow> (rune \<Rightarrow> rune) \<Rightarrow> auth \<Rightarrow> bool" for lib low where
  start: "auth_reach lib low (NewAuth low)"
| step: "auth_reach lib low a \<Longrightarrow> auth_step lib a b \<Longrightarrow> auth_reach lib low b"

definition list_ok :: "(rune \<Rightarrow> rune) \<Rightarrow> 'v goset \<Rightarrow> bool" where
  "list_ok low s \<longleftrightarrow> set_inv s \<and> normalizer s = normalize low"

definition no_empty_key :: "'v goset \<Rightarrow> bool" where
  "no_empty_key s \<longleftrightarrow> map_of (lookup s) [] = None"

definition auth_inv :: "(rune \<Rightarrow> rune) \<Rightarrow> auth \<Rightarrow> bool" where
  "auth_inv low a \<longleftrightarrow> list_ok low (banned a) \<and> list_ok low (bannedAddr a) \<and> list_ok low (bannedClient a)
    \<and> list_ok low (allowlist a) \<and> list_ok low (ops a)
    \<and> no_empty_key (allowlist a) \<and> no_empty_key (ops a)"

lemma list_ok_In [set_wf]: "list_ok low s \<Longrightarrow> list_ok low (snd (In now k s))"
  by (simp add: list_ok_def set_wf)

lemma list_ok_put [set_wf]: "list_ok low s \<Longrightarrow> list_ok low (put_for d now k s)"
  by (simp add: list_ok_def set_wf)

lemma list_ok_Clear [set_wf]: "list_ok low s \<Longrightarrow> list_ok low (snd (Clear s))"
  by (simp add: list_ok_def set_inv_Clear) (simp add: Clear_def)

lemma list_ok_keys_of [set_wf]: "list_ok low s \<Longrightarrow> list_ok low (snd (keys_of ord now s))"
  by (simp add: list_ok_def keys_of_def case_prod_unfold set_wf)

lemma no_empty_key_In: "no_empty_key s \<Longrightarrow> no_empty_key (snd (In now k s))"
  by (auto simp: no_empty_key_def In_def Let_def cleanup_def split: option.split)

lemma normalize_nonempty: "s \<noteq> [] \<Longrightarrow> normalize low s \<noteq> []"
  by (simp add: normalize_def ToLower_nonempty)

lemma no_empty_key_put:
  "no_empty_key s \<Longrightarrow> list_ok low s \<Longrightarrow> k \<noteq> [] \<Longrightarrow> no_empty_key (put_for d now k s)"
  using normalize_nonempty [of k low]
  by (auto simp: no_empty_key_def put_for_def Set_def Let_def list_ok_def Expire_def)

lemma auth_inv_Op: "auth_inv low a \<Longrightarrow> auth_inv low (Op lib now key d a)"
  by (auto simp: auth_inv_def Op_def set_wf no_empty_key_put)

lemma auth_inv_Allowlist: "auth_inv low a \<Longrightarrow> auth_inv low (Allowlist lib now key d a)"
  by (auto simp: auth_inv_def Allowlist_def set_wf no_empty_key_put)

lemma auth_inv_Ban:
  "auth_inv low a \<Longrightarrow> auth_inv low (BanFingerprint now fp d a)"
  "auth_inv low a \<Longrightarrow> auth_inv low (Ban lib now key d a)"
  "auth_inv low a \<Longrightarrow> auth_inv low (BanClient now client d a)"
  "auth_inv low a \<Longrightarrow> auth_inv low (BanAddr now addr d a)"
  by (simp_all add: auth_inv_def Ban_def BanFingerprint_def BanClient_def BanAddr_def set_wf)

lemma auth_inv_ban_fields: "auth_inv low a \<Longrightarrow> auth_inv low (snd (ban_fields lib now q d fs a))"
  by (induction lib now q d fs a rule: ban_fields.induct)
     (auto simp: Let_def auth_inv_Ban split: list.splits)

lemma auth_inv_BanQuery: "auth_inv low a \<Longrightarrow> auth_inv low (snd (BanQuery lib now q a))"
  by (simp add: BanQuery_def auth_inv_ban_fields split: sum.split)

lemma auth_inv_IsOp: "auth_inv low a \<Longrightarrow> auth_inv low (snd (IsOp lib now key a))"
  by (simp add: auth_inv_def IsOp_state set_wf no_empty_key_In)

lemma auth_inv_CheckBans: "auth_inv low a \<Longrightarrow> auth_inv low (snd (CheckBans lib now addr key client a))"
  by (simp add: CheckBans_def Let_def case_prod_unfold IsOp_state)
     (simp add: auth_inv_def set_wf no_empty_key_In)

lemma auth_inv_CheckPublicKey: "auth_inv low a \<Longrightarrow> auth_inv low (snd (CheckPublicKey lib now key a))"
  by (simp add: CheckPublicKey_def Let_def case_prod_unfold IsOp_state)
     (simp add: auth_inv_def set_wf no_empty_key_In)

lemma auth_inv_addFromLoader:
  assumes "auth_inv low a" and "\<And>key d a. auth_inv low a \<Longrightarrow> auth_inv low (adder key d a)"
  shows "auth_inv low (snd (addFromLoader loader adder now a))"
proof -
  have "auth_inv low (fold (\<lambda>key a. adder key 0 a) keys a)" for keys
    using assms(1) by (induction keys arbitrary: a) (simp_all add: assms(2))
  with assms(1) show ?thesis by (simp add: addFromLoader_def split: option.split prod.split)
qed

lemma auth_inv_Load:
  assumes "auth_inv low a"
  shows "auth_inv low (snd (LoadOps lib now loader a))"
    and "auth_inv low (snd (LoadAllowlist lib now loader a))"
    and "auth_inv low (snd (ReloadAllowlist lib now a))"
proof -
  have "auth_inv low (a\<lparr>opLoader := l\<rparr>)" "auth_inv low (a\<lparr>allowlistLoader := l\<rparr>)" for l
    using assms by (simp_all add: auth_inv_def)
  with assms show "auth_inv low (snd (LoadOps lib now loader a))"
    and "auth_inv low (snd (LoadAllowlist lib now loader a))"
    and "auth_inv low (snd (ReloadAllowlist lib now a))"
    by (simp_all add: LoadOps_def ReloadOps_def LoadAllowlist_def ReloadAllowlist_def
        auth_inv_addFromLoader auth_inv_Op auth_inv_Allowlist)
qed

lemma auth_step_inv: "auth_step lib a b \<Longrightarrow> auth_inv low a \<Longrightarrow> auth_inv low b"
proof (induction rule: auth_step.induct)
  case (list_banned a ord now)
  then show ?case by (simp add: auth_inv_def Banned_def case_prod_unfold set_wf)
next
  case (flush a)
  then show ?case by (simp add: auth_inv_def set_wf) (simp add: Clear_def no_empty_key_def)
next
  case (mode a v)
  then show ?case by (simp add: auth_inv_def SetAllowlistMode_def)
next
  case (passphrase a p)
  then show ?case by (simp add: auth_inv_def SetPassphrase_def)
qed (simp_all add: auth_inv_Op auth_inv_Allowlist auth_inv_Ban auth_inv_BanQuery auth_inv_IsOp
    auth_inv_CheckBans auth_inv_CheckPublicKey auth_inv_Load)

lemma auth_inv_New: "auth_inv low (NewAuth low)"
  by (simp add: auth_inv_def NewAuth_def list_ok_def set_wf no_empty_key_def) (simp add: New_def)

lemma auth_reach_inv: "auth_reach lib low a \<Longrightarrow> auth_inv low a"
  by (induction rule: auth_reach.induct) (auto intro: auth_inv_New auth_step_inv)

lemma no_key_unlisted:
  assumes "auth_inv low a"
  shows "\<not> key_listed lib now None (ops a)" and "\<not> key_listed lib now None (allowlist a)"
  using assms
  by (auto simp: key_listed_def newAuthKey_def auth_inv_def list_ok_def no_empty_key_def normalize_def
      holds_def live_eq_Some)

section \<open>Queries of bans\<close>

text \<open>What one field \<open>kind=val\<close> of a ban query bans.\<close>

definition ban_one :: "golib \<Rightarrow> time \<Rightarrow> duration \<Rightarrow> string \<times> string \<Rightarrow> auth \<Rightarrow> auth" where
  "ban_one lib now d kv a =
    (if fst kv = ''client'' then BanClient now (snd kv) d a
     else if fst kv = ''fingerprint'' then BanFingerprint now (snd kv) d a
     else BanAddr now (Some (TCPAddr_String (ParseIP lib (snd kv)))) d a)"

definition good_field :: "golib \<Rightarrow> string \<times> string \<Rightarrow> bool" where
  "good_field lib kv \<longleftrightarrow> fst kv = ''client'' \<or> fst kv = ''fingerprint''
    \<or> (fst kv = ''ip'' \<and> ParseIP lib (snd kv) \<noteq> Some [])"

definition field_text :: "string \<times> string \<Rightarrow> string" where
  "field_text kv = fst kv @ ''='' @ snd kv"

lemma SplitN2_field: "sep \<notin> set k \<Longrightarrow> SplitN2 (k @ sep # v) sep = [k, v]"
  by (auto simp: SplitN2_def dropWhile_append takeWhile_append)

lemma SplitN2_none:
  assumes "sep \<notin> set s"
  shows "SplitN2 s sep = [s]"
proof -
  have d: "dropWhile (\<lambda>c. c \<noteq> sep) s = []" using assms by (auto simp: dropWhile_eq_Nil_conv)
  show ?thesis unfolding SplitN2_def d by simp
qed

lemma ban_fields_good:
  "list_all (good_field lib) kvs \<Longrightarrow>
    ban_fields lib now q d (map field_text kvs) a = (None, fold (ban_one lib now d) kvs a)"
proof (induction kvs arbitrary: a)
  case (Cons kv kvs)
  obtain k v where kv: "kv = (k, v)" by fastforce
  with Cons.prems have "k = ''client'' \<or> k = ''fingerprint'' \<or> k = ''ip'' \<and> ParseIP lib v \<noteq> Some []"
    by (auto simp: good_field_def)
  moreover from this have "SplitN2 (field_text kv) CHR ''='' = [k, v]"
    by (auto simp: kv field_text_def SplitN2_field simp del: append_Cons append_Nil)
      (auto simp: SplitN2_def)
  ultimately show ?case
    using Cons by (auto simp: kv ban_one_def IP_String_def Let_def split: option.split)
qed simp

text \<open>A concrete library, for the concrete instances of the properties.\<close>

definition sample_lib :: "string list \<Rightarrow> golib" where
  "sample_lib fs = \<lparr>sha256 = (\<lambda>x. x), ParseIP = (\<lambda>x. None), csv_Read = (\<lambda>q. Inr fs),
     ParseDuration = (\<lambda>x. Inr 5000000000), Quote = (\<lambda>x. x)\<rparr>"

section \<open>Properties\<close>

text \<open>C14: \<open>CheckBans\<close> returns \<open>ErrBanned\<close> exactly when the key, the host of the
  address or the client string is on its ban list and has not expired there,
  and the key is not that of an operator; and a check never changes the
  outcome of a later one.\<close>

theorem CheckBans_decides:
  "(fst (CheckBans lib now addr key client a) = Some ErrBanned \<longleftrightarrow>
      ban_applies lib now addr key client a \<and> \<not> key_listed lib now key (ops a))
    \<and> (fst (CheckBans lib now addr key client a) = None \<longleftrightarrow>
      \<not> (ban_applies lib now addr key client a \<and> \<not> key_listed lib now key (ops a)))
    \<and> same_lists now (snd (CheckBans lib now addr key client a)) a"
  by (simp add: CheckBans_result CheckBans_same)

text \<open>\<open>CheckPublicKey\<close> accepts a key exactly when anonymous users are allowed
  or the key is on the allow list or is an operator's; anonymous users are
  allowed when neither the allow-list mode nor a passphrase is set.\<close>

theorem CheckPublicKey_decides:
  "fst (CheckPublicKey lib now key a) =
      (if (\<not> allowlistMode a \<and> passphraseHash a = None)
          \<or> key_listed lib now key (allowlist a) \<or> key_listed lib now key (ops a)
       then None else Some ErrNotAllowed)
    \<and> same_lists now (snd (CheckPublicKey lib now key a)) a"
  by (simp add: CheckPublicKey_result CheckPublicKey_same AllowAnonymous_def)

text \<open>\<open>Op\<close> gives a key operator rights until the duration is over, for ever
  when it is zero, and changes nobody else's; the duration of one nanosecond
  that \<open>/op USER remove\<close> passes therefore takes the rights away. Since the set
  ignores case, "nobody else" is up to the case of the fingerprint.\<close>

theorem Op_grants:
  "fst (IsOp lib t (Some k') (Op lib now (Some k) d a)) \<longleftrightarrow>
    (if normalizer (ops a) (Fingerprint lib k') = normalizer (ops a) (Fingerprint lib k)
     then d = 0 \<or> t \<le> now + d else fst (IsOp lib t (Some k') a))"
  by (simp add: IsOp_result key_listed_def Op_def newAuthKey_def auth_list.holds_put)

text \<open>a banned key is refused for exactly the duration of the ban (for ever
  when it is zero), from any address and with any client, unless it belongs to
  an operator or another ban applies.\<close>

theorem Ban_lasts:
  assumes "\<not> key_listed lib t (Some k) (ops a)"
    and "\<not> holds t (bannedAddr a) (normalizer (bannedAddr a) (newAuthAddr addr))"
    and "\<not> holds t (bannedClient a) (normalizer (bannedClient a) client)"
  shows "fst (CheckBans lib t addr (Some k) client (Ban lib now (Some k) d a)) = Some ErrBanned
    \<longleftrightarrow> d = 0 \<or> t \<le> now + d"
  using assms
  by (simp add: CheckBans_result ban_applies_def key_listed_def Ban_def BanFingerprint_def auth_list.holds_put)

theorem Ban_lasts_witness:
  "fst (CheckBans (sample_lib []) 5 None (Some ''k'') ''c''
      (Ban (sample_lib []) 0 (Some ''k'') 10 (NewAuth (\<lambda>r. r)))) = Some ErrBanned"
proof -
  have "key_listed (sample_lib []) 5 (Some ''k'') (ops (NewAuth (\<lambda>r. r))) = False"
    and "holds 5 (New (\<lambda>r. r) :: unit goset) k = False" for k
    by (simp_all add: key_listed_def holds_def NewAuth_def live_New)
  then show ?thesis by (subst Ban_lasts) (simp_all add: NewAuth_def)
qed

text \<open>C26: whatever operations the database went through, a connection without a
  public key is never an operator and never on the allow list, and every list
  keeps distinct, normalised keys.\<close>

theorem no_key_never_privileged:
  assumes "auth_reach lib low a"
  shows "fst (IsOp lib now None a) = False
    \<and> (fst (CheckPublicKey lib now None a) = None \<longleftrightarrow> \<not> allowlistMode a \<and> passphraseHash a = None)
    \<and> auth_inv low a"
  using auth_reach_inv [OF assms] no_key_unlisted [OF auth_reach_inv [OF assms]]
  by (simp add: IsOp_result CheckPublicKey_result AllowAnonymous_def)

theorem no_key_never_privileged_witness:
  "fst (IsOp (sample_lib []) 7 None (Op (sample_lib []) 0 (Some ''k'') 0 (NewAuth (\<lambda>r. r)))) = False"
proof -
  have "auth_reach (sample_lib []) (\<lambda>r. r) (Op (sample_lib []) 0 (Some ''k'') 0 (NewAuth (\<lambda>r. r)))"
    by (rule auth_reach.step [OF auth_reach.start auth_step.op])
  then show ?thesis using no_key_never_privileged by blast
qed

text \<open>a passphrase is accepted exactly when its hash is that of the passphrase
  that was set, and setting the empty passphrase turns the method off.\<close>

theorem passphrase_check:
  "CheckPassphrase lib p (SetPassphrase lib q a) =
      (if q = [] then Some (Errorf ''passphrases not accepted'')
       else if sha256 lib p = sha256 lib q then None else Some ErrIncorrectPassphrase)
    \<and> (AcceptPassphrase (SetPassphrase lib q a) \<longleftrightarrow> q \<noteq> [])"
  by (simp add: CheckPassphrase_def SetPassphrase_def AcceptPassphrase_def)

text \<open>a ban query of \<open>kind=value\<close> fields, with an optional duration as its
  last field, makes every ban it names and all of them for that one duration,
  permanent when there is none.\<close>

theorem BanQuery_bans:
  assumes "kvs \<noteq> []" and "list_all (good_field lib) kvs"
    and "(csv_Read lib q = Inr (map field_text kvs) \<and> d = 0)
      \<or> (\<exists>dur. csv_Read lib q = Inr (map field_text kvs @ [dur])
          \<and> CHR ''='' \<notin> set dur \<and> ParseDuration lib dur = Inr d)"
  shows "BanQuery lib now q a = (None, fold (ban_one lib now d) kvs a)"
proof -
  have "CHR ''='' \<in> set (last (map field_text kvs))"
    using assms(1) by (simp add: last_map field_text_def)
  then show ?thesis
    using assms(1,3) ban_fields_good [OF assms(2), of now q d a]
    by (auto simp: BanQuery_def ContainsByte_def)
qed

theorem BanQuery_bans_witness:
  "BanQuery (sample_lib [''client=foo'', ''5s'']) 0 ''client=foo 5s'' (NewAuth (\<lambda>r. r))
    = (None, BanClient 0 ''foo'' 5000000000 (NewAuth (\<lambda>r. r)))"
proof -
  have "BanQuery (sample_lib [''client=foo'', ''5s'']) 0 ''client=foo 5s'' (NewAuth (\<lambda>r. r))
    = (None, fold (ban_one (sample_lib [''client=foo'', ''5s'']) 0 5000000000) [(''client'', ''foo'')]
        (NewAuth (\<lambda>r. r)))"
    by (rule BanQuery_bans) (auto simp: sample_lib_def good_field_def field_text_def)
  then show ?thesis by (simp add: ban_one_def)
qed

text \<open>the comment of \<open>BanQuery\<close> says that a field without \<open>=\<close> is a duration for
  the next field and gives \<open>5s client=foo 10min ip=1.1.1.1\<close> as an example. The
  code refuses that query, and any query whose first field has no \<open>=\<close> and
  whose last field has one, without banning anything.\<close>

theorem BanQuery_leading_duration:
  assumes "csv_Read lib q = Inr (dur # fs)" and "CHR ''='' \<notin> set dur"
    and "CHR ''='' \<in> set (last (dur # fs))"
  shows "BanQuery lib now q a = (Some (Errorf (''invalid query: '' @ Quote lib q)), a)"
  using assms by (auto simp: BanQuery_def ContainsByte_def SplitN2_none)

theorem BanQuery_leading_duration_witness:
  "snd (BanQuery (sample_lib [''5s'', ''client=foo'', ''10min'', ''ip=1.1.1.1'']) 0
      ''5s client=foo 10min ip=1.1.1.1'' (NewAuth (\<lambda>r. r))) = NewAuth (\<lambda>r. r)"
  by (subst BanQuery_leading_duration [of _ _ "''5s''" "[''client=foo'', ''10min'', ''ip=1.1.1.1'']"])
     (simp_all add: sample_lib_def)

text \<open>a ban of an invalid address is not refused: \<open>ParseIP\<close> gives a \<open>nil\<close>
  address, which prints as \<open><nil>\<close> and not as the empty string the code compares
  with, so the query succeeds and bans the empty host instead.\<close>

theorem BanQuery_invalid_ip:
  assumes "csv_Read lib q = Inr [''ip='' @ v]" and "ParseIP lib v = None"
  shows "BanQuery lib now q a = (None, a\<lparr>bannedAddr := put_for 0 now [] (bannedAddr a)\<rparr>)"
  using assms
  by (simp add: BanQuery_def ContainsByte_def SplitN2_def IP_String_def Let_def BanAddr_def newAuthAddr_def
      TCPAddr_String_def JoinHostPort_def SplitHost_def last_index_def)

theorem BanQuery_invalid_ip_witness:
  "holds 9 (bannedAddr (snd (BanQuery (sample_lib [''ip=bogus'']) 0 ''ip=bogus'' (NewAuth (\<lambda>r. r))))) []"
  by (subst BanQuery_invalid_ip [of _ _ "''bogus''"])
     (simp_all add: sample_lib_def holds_put_for NewAuth_def normalize_def)

end
