(* ===== verification/SshdAuth.thy ===== *)
theory SshdAuth
  imports AuthDb Sanitize
begin

text \<open>
  The authentication callbacks of the SSH server (\<open>MakeAuth\<close> and \<open>MakeNoAuth\<close> of
  \<open>sshd/auth.go\<close>). They use the database through the interface \<open>Auth\<close>, which is
  the record \<open>auth_iface\<close> of its methods; the laws they need of it are the
  locale \<open>conn_policy\<close>, interpreted on the database of \<open>AuthDb\<close>. The library
  that calls the callbacks, \<open>golang.org/x/crypto/ssh\<close>, is not modelled; a
  challenge of the client is the answers it returns.
\<close>

section \<open>The interface Auth\<close>

record 'a auth_iface =
  if_AllowAnonymous :: "'a \<Rightarrow> bool"
  if_AcceptPassphrase :: "'a \<Rightarrow> bool"
  if_CheckBans :: "time \<Rightarrow> netaddr option \<Rightarrow> pubkey option \<Rightarrow> string \<Rightarrow> 'a \<Rightarrow> go_error option \<times> 'a"
  if_CheckPublicKey :: "time \<Rightarrow> pubkey option \<Rightarrow> 'a \<Rightarrow> go_error option \<times> 'a"
  if_CheckPassphrase :: "string \<Rightarrow> 'a \<Rightarrow> go_error option"
  if_BanAddr :: "time \<Rightarrow> netaddr option \<Rightarrow> duration \<Rightarrow> 'a \<Rightarrow> 'a"

record conn_meta =
  RemoteAddr :: netaddr
  ClientVersion :: string

text \<open>The extensions of an \<open>ssh.Permissions\<close>.\<close>

type_synonym permissions = "(string \<times> string) list"

section \<open>The callbacks\<close>

definition PublicKeyCallback ::
  "'a auth_iface \<Rightarrow> time \<Rightarrow> conn_meta \<Rightarrow> pubkey \<Rightarrow> 'a \<Rightarrow> (go_error + permissions) \<times> 'a" where
  "PublicKeyCallback auth now conn key a =
    (case if_CheckBans auth now (Some (RemoteAddr conn)) (Some key) (Data (ClientVersion conn) 64) a of
       (Some err, a) \<Rightarrow> (Inl err, a)
     | (None, a) \<Rightarrow>
       (case if_CheckPublicKey auth now (Some key) a of
          (Some err, a) \<Rightarrow> (Inl err, a)
        | (None, a) \<Rightarrow> (Inr [(''pubkey'', key)], a)))"

text \<open>The keyboard-interactive callback returns no permissions, only an error or
  \<open>nil\<close>; \<open>challenge\<close> is what the client's side of the challenge returned.\<close>

definition KeyboardInteractiveCallback ::
  "'a auth_iface \<Rightarrow> time \<Rightarrow> conn_meta \<Rightarrow> go_error + string list \<Rightarrow> 'a \<Rightarrow> go_error option \<times> 'a" where
  "KeyboardInteractiveCallback auth now conn challenge a =
    (case if_CheckBans auth now (Some (RemoteAddr conn)) None (Data (ClientVersion conn) 64) a of
       (Some err, a) \<Rightarrow> (Some err, a)
     | (None, a) \<Rightarrow>
       if if_AcceptPassphrase auth a then
         (case challenge of
            Inl err \<Rightarrow> (Some err, a)
          | Inr answers \<Rightarrow>
            if length answers \<noteq> 1 then (Some (Errorf ''didn't get passphrase''), a)
            else case if_CheckPassphrase auth (answers ! 0) a of
              None \<Rightarrow> (None, a)
            | Some err \<Rightarrow> (Some err, if_BanAddr auth now (Some (RemoteAddr conn)) (time_Second * 2) a))
       else if \<not> if_AllowAnonymous auth a then
         (Some (Errorf ''public key authentication required''), a)
       else (None, a))"

text \<open>\<open>MakeNoAuth\<close>: every key and every client is accepted.\<close>

definition NoAuth_PublicKeyCallback :: "conn_meta \<Rightarrow> pubkey \<Rightarrow> go_error + permissions" where
  "NoAuth_PublicKeyCallback conn key = Inr [(''pubkey'', key)]"

section \<open>What the callbacks need of the interface\<close>

locale conn_policy =
  fixes auth :: "'a auth_iface" and inv :: "'a \<Rightarrow> bool"
  assumes inv_CheckBans: "inv a \<Longrightarrow> inv (snd (if_CheckBans auth now addr key client a))"
    and CheckBans_keeps_key: "fst (if_CheckPublicKey auth now key (snd (if_CheckBans auth now addr key' client a)))
        = fst (if_CheckPublicKey auth now key a)"
    and CheckBans_keeps_accept: "if_AcceptPassphrase auth (snd (if_CheckBans auth now addr key client a))
        = if_AcceptPassphrase auth a"
    and CheckBans_keeps_anonymous: "if_AllowAnonymous auth (snd (if_CheckBans auth now addr key client a))
        = if_AllowAnonymous auth a"
    and CheckBans_keeps_pass: "if_CheckPassphrase auth p (snd (if_CheckBans auth now addr key client a))
        = if_CheckPassphrase auth p a"
    and BanAddr_bans: "inv a \<Longrightarrow> d \<noteq> 0 \<Longrightarrow> t \<le> now + d \<Longrightarrow>
        fst (if_CheckBans auth t addr None client (if_BanAddr auth now addr d a)) \<noteq> None"
begin

lemma key_accepted_iff:
  "(\<exists>perms. fst (PublicKeyCallback auth now conn key a) = Inr perms) \<longleftrightarrow>
    fst (if_CheckBans auth now (Some (RemoteAddr conn)) (Some key) (Data (ClientVersion conn) 64) a) = None
    \<and> fst (if_CheckPublicKey auth now (Some key) a) = None"
  using CheckBans_keeps_key [of now "Some key" "Some (RemoteAddr conn)" "Some key" "Data (ClientVersion conn) 64" a]
  by (auto simp: PublicKeyCallback_def case_prod_unfold split: option.splits)

lemma keyboard_accepted_iff:
  "fst (KeyboardInteractiveCallback auth now conn challenge a) = None \<longleftrightarrow>
    fst (if_CheckBans auth now (Some (RemoteAddr conn)) None (Data (ClientVersion conn) 64) a) = None
    \<and> (if if_AcceptPassphrase auth a
        then \<exists>p. challenge = Inr [p] \<and> if_CheckPassphrase auth p a = None
        else if_AllowAnonymous auth a)"
proof -
  let ?cb = "if_CheckBans auth now (Some (RemoteAddr conn)) None (Data (ClientVersion conn) 64) a"
  obtain e b where cb: "?cb = (e, b)" by fastforce
  have b: "if_AcceptPassphrase auth b = if_AcceptPassphrase auth a"
    "if_AllowAnonymous auth b = if_AllowAnonymous auth a"
    "if_CheckPassphrase auth p b = if_CheckPassphrase auth p a" for p
    using CheckBans_keeps_accept CheckBans_keeps_anonymous CheckBans_keeps_pass cb by (metis snd_conv)+
  show ?thesis
    by (auto simp: KeyboardInteractiveCallback_def cb b length_Suc_conv split: option.splits sum.splits if_splits)
qed

lemma wrong_passphrase_bans:
  assumes "inv a" and "if_AcceptPassphrase auth a"
    and "fst (if_CheckBans auth now (Some (RemoteAddr conn)) None (Data (ClientVersion conn) 64) a) = None"
    and "if_CheckPassphrase auth p a \<noteq> None"
    and "t \<le> now + time_Second * 2" and "RemoteAddr conn' = RemoteAddr conn"
  shows "fst (KeyboardInteractiveCallback auth t conn' challenge
      (snd (KeyboardInteractiveCallback auth now conn (Inr [p]) a))) \<noteq> None"
proof -
  let ?addr = "Some (RemoteAddr conn)"
  obtain b where cb: "if_CheckBans auth now ?addr None (Data (ClientVersion conn) 64) a = (None, b)"
    using assms(3) by (metis prod.collapse)
  have b: "inv b" "if_AcceptPassphrase auth b = if_AcceptPassphrase auth a"
    "if_CheckPassphrase auth p b = if_CheckPassphrase auth p a"
    using inv_CheckBans [OF assms(1)] CheckBans_keeps_accept CheckBans_keeps_pass cb by (metis snd_conv)+
  have "snd (KeyboardInteractiveCallback auth now conn (Inr [p]) a)
      = if_BanAddr auth now ?addr (time_Second * 2) b"
    using assms(2,4) b by (auto simp: KeyboardInteractiveCallback_def cb split: option.split)
  moreover have "fst (if_CheckBans auth t ?addr None (Data (ClientVersion conn') 64)
      (if_BanAddr auth now ?addr (time_Second * 2) b)) \<noteq> None"
    using assms(5) by (intro BanAddr_bans b(1)) (simp_all add: time_Second_def)
  ultimately show ?thesis
    using keyboard_accepted_iff assms(6) by metis
qed

end

section \<open>The database behind the interface\<close>

definition Auth_iface :: "golib \<Rightarrow> auth auth_iface" where
  "Auth_iface lib = \<lparr>if_AllowAnonymous = AllowAnonymous, if_AcceptPassphrase = AcceptPassphrase,
     if_CheckBans = CheckBans lib, if_CheckPublicKey = CheckPublicKey lib,
     if_CheckPassphrase = CheckPassphrase lib, if_BanAddr = BanAddr\<rparr>"

lemma key_listed_same:
  assumes "same_lists now a b"
  shows "key_listed lib now key (ops a) = key_listed lib now key (ops b)"
    and "key_listed lib now key (allowlist a) = key_listed lib now key (allowlist b)"
  using assms by (auto simp: same_lists_def key_listed_def)

lemma CheckBans_settings:
  "passphraseHash (snd (CheckBans lib now addr key client a)) = passphraseHash a"
  "allowlistMode (snd (CheckBans lib now addr key client a)) = allowlistMode a"
  using CheckBans_same [of now lib addr key client a] by (simp_all add: same_lists_def)

interpretation sshd_conn: conn_policy "Auth_iface lib" "auth_inv low"
proof
  fix a now addr key client key' p t d
  show "auth_inv low a \<Longrightarrow> auth_inv low (snd (if_CheckBans (Auth_iface lib) now addr key client a))"
    by (simp add: Auth_iface_def auth_inv_CheckBans)
  show "fst (if_CheckPublicKey (Auth_iface lib) now key
        (snd (if_CheckBans (Auth_iface lib) now addr key' client a)))
      = fst (if_CheckPublicKey (Auth_iface lib) now key a)"
    using key_listed_same [OF CheckBans_same [of now lib addr key' client a], of lib key]
    by (simp add: Auth_iface_def CheckPublicKey_result AllowAnonymous_def CheckBans_settings)
  show "if_AcceptPassphrase (Auth_iface lib) (snd (if_CheckBans (Auth_iface lib) now addr key client a))
      = if_AcceptPassphrase (Auth_iface lib) a"
    by (simp add: Auth_iface_def AcceptPassphrase_def CheckBans_settings)
  show "if_AllowAnonymous (Auth_iface lib) (snd (if_CheckBans (Auth_iface lib) now addr key client a))
      = if_AllowAnonymous (Auth_iface lib) a"
    by (simp add: Auth_iface_def AllowAnonymous_def CheckBans_settings)
  show "if_CheckPassphrase (Auth_iface lib) p (snd (if_CheckBans (Auth_iface lib) now addr key client a))
      = if_CheckPassphrase (Auth_iface lib) p a"
    by (simp add: Auth_iface_def CheckPassphrase_def CheckBans_settings)
  show "fst (if_CheckBans (Auth_iface lib) t addr None client (if_BanAddr (Auth_iface lib) now addr d a)) \<noteq> None"
    if "auth_inv low a" "d \<noteq> 0" "t \<le> now + d"
  proof -
    have "\<not> key_listed lib t None (ops (BanAddr now addr d a))"
      by (rule no_key_unlisted) (rule auth_inv_Ban [OF that(1)])
    then show ?thesis
      using that(3) by (simp add: Auth_iface_def CheckBans_result ban_applies_def BanAddr_def auth_list.holds_put)
  qed
qed

section \<open>Properties\<close>

text \<open>C5: a public key is admitted exactly when no ban applies to the connection
  or the key is an operator's, and the key is allowed; the permissions then
  carry that key. A banned client whose key is not an operator's is never
  admitted.\<close>

theorem PublicKeyCallback_admits:
  "(\<exists>perms. fst (PublicKeyCallback (Auth_iface lib) now conn key a) = Inr perms) \<longleftrightarrow>
    \<not> (ban_applies lib now (Some (RemoteAddr conn)) (Some key) (Data (ClientVersion conn) 64) a
      \<and> \<not> key_listed lib now (Some key) (ops a))
    \<and> ((\<not> allowlistMode a \<and> passphraseHash a = None)
      \<or> key_listed lib now (Some key) (allowlist a) \<or> key_listed lib now (Some key) (ops a))"
  unfolding sshd_conn.key_accepted_iff
  by (auto simp: Auth_iface_def CheckBans_result CheckPublicKey_result AllowAnonymous_def)

text \<open>C9: without a public key a client is admitted exactly when no ban applies to
  it and either it gives the one passphrase that is set, or none is set and
  the allow list is off. This holds in every state the database can reach.\<close>

theorem KeyboardInteractive_admits:
  assumes "auth_reach lib low a"
  shows "fst (KeyboardInteractiveCallback (Auth_iface lib) now conn challenge a) = None \<longleftrightarrow>
    \<not> ban_applies lib now (Some (RemoteAddr conn)) None (Data (ClientVersion conn) 64) a
    \<and> (case passphraseHash a of
         Some h \<Rightarrow> \<exists>p. challenge = Inr [p] \<and> sha256 lib p = h
       | None \<Rightarrow> \<not> allowlistMode a)"
  using no_key_unlisted [OF auth_reach_inv [OF assms], of lib now]
  unfolding sshd_conn.keyboard_accepted_iff
  by (auto simp: Auth_iface_def CheckBans_result AcceptPassphrase_def AllowAnonymous_def CheckPassphrase_def
      split: option.splits)

theorem KeyboardInteractive_admits_witness:
  "fst (KeyboardInteractiveCallback (Auth_iface (sample_lib [])) 3 \<lparr>RemoteAddr = ''1.2.3.4:5'', ClientVersion = ''c''\<rparr>
      (Inr [''pw'']) (SetPassphrase (sample_lib []) ''pw'' (NewAuth (\<lambda>r. r)))) = None"
proof -
  have r: "auth_reach (sample_lib []) (\<lambda>r. r) (SetPassphrase (sample_lib []) ''pw'' (NewAuth (\<lambda>r. r)))"
    by (rule auth_reach.step [OF auth_reach.start auth_step.passphrase])
  show ?thesis
    unfolding KeyboardInteractive_admits [OF r]
    by (simp add: SetPassphrase_def NewAuth_def sample_lib_def ban_applies_def holds_def live_New)
qed



text \<open>A ban of an address replaces the one before it, also by a shorter one. Between the check
  for bans and the answer of a client to the challenge an operator may ban its address; the two
  seconds for the wrong passphrase then end that ban.\<close>

theorem wrong_passphrase_shortens_ban:
  "holds t (bannedAddr (BanAddr now addr (time_Second * 2) (BanAddr earlier addr d a))) (normalizer (bannedAddr a) (newAuthAddr addr)) \<longleftrightarrow>
    t \<le> now + time_Second * 2"
  by (simp add: BanAddr_def holds_put_for time_Second_def)

end
