(* ===== verification/Pty.thy ===== *)
theory Pty
  imports GoStrings "HOL-Library.Word"
begin

text \<open>
  Parsing of the \<open>pty-req\<close> and \<open>window-change\<close> payloads (\<open>sshd/pty.go\<close>). The
  lengths and sizes in them are 32-bit words and the bounds check of
  \<open>parseString\<close> is computed in 32 bits, so it is modelled on \<open>32 word\<close>, where
  addition wraps. An \<open>int\<close> is the 64-bit one of the release platforms: every
  32-bit size fits, and none becomes negative.
\<close>

type_synonym u32 = "32 word"

text \<open>\<open>binary.BigEndian.Uint32\<close> on the first four bytes.\<close>

definition be_nat :: "string \<Rightarrow> nat" where
  "be_nat bs = bv (bs ! 0) * 16777216 + bv (bs ! 1) * 65536 + bv (bs ! 2) * 256 + bv (bs ! 3)"

definition Uint32 :: "string \<Rightarrow> u32" where
  "Uint32 bs = word_of_nat (be_nat bs)"

text \<open>A slice expression \<open>s[lo:hi]\<close> panics unless \<open>lo \<le> hi \<le> len(s)\<close>.\<close>

definition slice :: "string \<Rightarrow> nat \<Rightarrow> nat \<Rightarrow> go_error + string" where
  "slice s lo hi =
    (if lo \<le> hi \<and> hi \<le> length s then Inr (take (hi - lo) (drop lo s))
     else Inl (GoPanic ''slice bounds out of range''))"

definition parseString :: "string \<Rightarrow> go_error + string \<times> string \<times> bool" where
  "parseString inp =
    (if length inp < 4 then Inr ([], [], False)
     else let len = Uint32 inp in
       if (word_of_nat (length inp) :: u32) < 4 + len then Inr ([], [], False)
       else case slice inp 4 (unat (4 + len)) of
         Inl e \<Rightarrow> Inl e
       | Inr out \<Rightarrow> (case slice inp (unat (4 + len)) (length inp) of
           Inl e \<Rightarrow> Inl e
         | Inr rest \<Rightarrow> Inr (out, rest, True)))"

definition parseUint32 :: "string \<Rightarrow> u32 \<times> string \<times> bool" where
  "parseUint32 inp = (if length inp < 4 then (0, [], False) else (Uint32 inp, drop 4 inp, True))"

definition int_of_u32 :: "u32 \<Rightarrow> int" where
  "int_of_u32 w = uint w"

text \<open>The result is \<open>(term, width, height, ok)\<close>; the named results are returned
  with whatever they hold at each return.\<close>

definition parsePtyRequest :: "string \<Rightarrow> go_error + string \<times> int \<times> int \<times> bool" where
  "parsePtyRequest s =
    (case parseString s of
       Inl e \<Rightarrow> Inl e
     | Inr (trm, s, ok) \<Rightarrow>
       if \<not> ok then Inr (trm, 0, 0, False)
       else case parseUint32 s of (width32, s, ok) \<Rightarrow>
         if \<not> ok then Inr (trm, 0, 0, False)
         else case parseUint32 s of (height32, _, ok) \<Rightarrow>
           let width = int_of_u32 width32; height = int_of_u32 height32;
               ok = (if width < 1 then False else ok);
               ok = (if height < 1 then False else ok) in
           Inr (trm, width, height, ok))"

text \<open>\<open>parseWinchRequest\<close> reads both words from the same slice \<open>s\<close>: the rest of
  the first \<open>parseUint32\<close> is dropped.\<close>

definition parseWinchRequest :: "string \<Rightarrow> int \<times> int \<times> bool" where
  "parseWinchRequest s =
    (case parseUint32 s of (width32, _, ok) \<Rightarrow>
       if \<not> ok then (0, 0, False)
       else case parseUint32 s of (height32, _, ok) \<Rightarrow>
         if \<not> ok then (0, 0, False)
         else let width = int_of_u32 width32; height = int_of_u32 height32;
                  ok = (if width < 1 then False else ok);
                  ok = (if height < 1 then False else ok) in
           (width, height, ok))"

section \<open>The encoding that the parser reads\<close>

definition put_u32 :: "nat \<Rightarrow> string" where
  "put_u32 n = [byte (n div 16777216 mod 256), byte (n div 65536 mod 256),
                byte (n div 256 mod 256), byte (n mod 256)]"

definition put_string :: "string \<Rightarrow> string" where
  "put_string s = put_u32 (length s) @ s"

lemma length_put_u32 [simp]: "length (put_u32 n) = 4"
  by (simp add: put_u32_def)

lemma be_nat_lt: "be_nat bs < 4294967296"
proof -
  have "bv (bs ! i) \<le> 255" for i using bv_lt [of "bs ! i"] by linarith
  from this [of 0] this [of 1] this [of 2] this [of 3] show ?thesis
    unfolding be_nat_def by linarith
qed

lemma unat_Uint32 [simp]: "unat (Uint32 bs) = be_nat bs"
  using be_nat_lt [of bs] by (simp add: Uint32_def unat_of_nat)

lemma be_nat_put_u32:
  assumes "n < 4294967296"
  shows "be_nat (put_u32 n @ rest) = n"
proof -
  define q p a where "q = n div 256" and "p = q div 256" and "a = p div 256"
  have div: "n div 65536 = p" "n div 16777216 = a"
    by (simp_all add: a_def p_def q_def div_mult2_eq [symmetric])
  have dec: "n = q * 256 + n mod 256" "q = p * 256 + q mod 256" "p = a * 256 + p mod 256"
    by (simp_all add: a_def p_def q_def)
  have "a < 256" using assms dec by linarith
  then have "a mod 256 = a" by simp
  with dec have "a mod 256 * 16777216 + p mod 256 * 65536 + q mod 256 * 256 + n mod 256 = n"
    by linarith
  then show ?thesis by (simp add: be_nat_def put_u32_def div q_def)
qed

lemma int_of_put_u32: "n < 4294967296 \<Longrightarrow> int_of_u32 (Uint32 (put_u32 n @ rest)) = int n"
  by (simp add: int_of_u32_def uint_nat be_nat_put_u32)

lemma unat_four_plus: "unat (4 + len :: u32) = (4 + unat len) mod 4294967296"
  by (simp add: unat_word_ariths)

text \<open>The check in words against the sizes as numbers.\<close>

lemma length_check:
  assumes "length inp < 4294967296"
  shows "(word_of_nat (length inp) :: u32) < 4 + Uint32 inp \<longleftrightarrow> length inp < (4 + be_nat inp) mod 4294967296"
  using assms by (simp add: word_less_nat_alt unat_four_plus unat_of_nat)

lemma parseString_cases:
  assumes "length inp < 4294967296" and "4 \<le> length inp"
  shows "parseString inp =
    (if 4294967292 \<le> be_nat inp then Inl (GoPanic ''slice bounds out of range'')
     else if length inp < 4 + be_nat inp then Inr ([], [], False)
     else Inr (take (be_nat inp) (drop 4 inp), drop (4 + be_nat inp) inp, True))"
proof (cases "4294967292 \<le> be_nat inp")
  case True
  then have "(4 + be_nat inp) mod 4294967296 = be_nat inp - 4294967292"
    using be_nat_lt [of inp] by (simp add: mod_if)
  then show ?thesis
    using assms be_nat_lt [of inp] True
    by (simp add: parseString_def Let_def length_check unat_four_plus slice_def)
next
  case False
  then have "(4 + be_nat inp) mod 4294967296 = 4 + be_nat inp" by simp
  then show ?thesis
    using assms False by (simp add: parseString_def Let_def length_check unat_four_plus slice_def)
qed

lemma parsePty_encoded:
  assumes "w < 4294967296" and "h < 4294967296"
    and "length (put_string trm @ put_u32 w @ put_u32 h @ rest) < 4294967292"
  shows "parsePtyRequest (put_string trm @ put_u32 w @ put_u32 h @ rest)
    = Inr (trm, int w, int h, 1 \<le> w \<and> 1 \<le> h)"
proof -
  let ?s = "put_string trm @ put_u32 w @ put_u32 h @ rest"
  have be: "be_nat ?s = length trm"
    using assms(3) be_nat_put_u32 [of "length trm" "trm @ put_u32 w @ put_u32 h @ rest"]
    by (simp add: put_string_def)
  have "parseString ?s = Inr (trm, put_u32 w @ put_u32 h @ rest, True)"
    using assms(3) parseString_cases [of ?s] unfolding be by (simp add: put_string_def)
  then show ?thesis
    using int_of_put_u32 [OF assms(1), of "put_u32 h @ rest"] int_of_put_u32 [OF assms(2), of rest]
    by (auto simp: parsePtyRequest_def parseUint32_def Let_def)
qed

section \<open>Properties\<close>

text \<open>C31: a \<open>pty-req\<close> payload, a terminal name and two sizes in the encoding of
  RFC 4254, is parsed back to them, whatever follows, and it is accepted
  exactly when neither size is zero.\<close>

theorem parsePtyRequest_roundtrip:
  assumes "w < 4294967296" and "h < 4294967296"
    and "length (put_string trm @ put_u32 w @ put_u32 h @ rest) < 4294967292"
  shows "parsePtyRequest (put_string trm @ put_u32 w @ put_u32 h @ rest)
    = Inr (trm, int w, int h, 1 \<le> w \<and> 1 \<le> h)"
  using assms by (rule parsePty_encoded)

theorem parsePtyRequest_roundtrip_witness:
  "parsePtyRequest (put_string ''xterm'' @ put_u32 80 @ put_u32 24 @ ''x'') = Inr (''xterm'', 80, 24, True)"
  using parsePtyRequest_roundtrip [of 80 24 "''xterm''" "''x''"] by (simp add: put_string_def)

text \<open>the sizes that the two parsers accept are positive and fit in 32 bits,
  so the width that reaches the terminal is never zero.\<close>

theorem pty_sizes_bounded:
  assumes "parsePtyRequest s = Inr (trm, w, h, True) \<or> parseWinchRequest s = (w, h, True)"
  shows "1 \<le> w \<and> w < 2 ^ 32 \<and> 1 \<le> h \<and> h < 2 ^ 32"
proof -
  have "int_of_u32 x < 2 ^ 32" for x
    using uint_lt2p [of x] by (simp add: int_of_u32_def)
  with assms show ?thesis
    by (auto simp: parsePtyRequest_def parseWinchRequest_def Let_def
        split: sum.splits prod.splits if_splits)
qed

theorem pty_sizes_bounded_witness:
  "(1::int) \<le> 80 \<and> (80::int) < 2 ^ 32 \<and> (1::int) \<le> 24 \<and> (24::int) < 2 ^ 32"
proof -
  let ?s = "put_string ''xterm'' @ put_u32 80 @ put_u32 24 @ []"
  have "length ?s < 4294967292" by (simp add: put_string_def)
  then have "parsePtyRequest ?s = Inr (''xterm'', 80, 24, True)"
    using parsePty_encoded [of 80 24 "''xterm''" "[]"] by simp
  then show ?thesis by (intro pty_sizes_bounded [of ?s "''xterm''" 80 24] disjI1)
qed

text \<open>\<open>parseString\<close> panics on some payloads that a client can send: exactly
  those whose length word is at least \<open>2^32 - 4\<close>, for which \<open>4+length\<close> wraps and
  the bounds check passes. On every other payload it does not panic.\<close>

theorem parseString_panics_iff:
  assumes "length inp < 2 ^ 32"
  shows "(\<exists>e. parseString inp = Inl (GoPanic e)) \<longleftrightarrow> 4 \<le> length inp \<and> 2 ^ 32 - 4 \<le> be_nat inp"
proof (cases "4 \<le> length inp")
  case True
  with assms show ?thesis by (simp add: parseString_cases)
next
  case False
  then show ?thesis by (simp add: parseString_def)
qed

theorem parseString_panics_iff_witness:
  "\<exists>e. parseString (put_u32 4294967292 @ ''xterm'') = Inl (GoPanic e)"
proof -
  have "be_nat (put_u32 4294967292 @ ''xterm'') = 4294967292" by (rule be_nat_put_u32) simp
  then show ?thesis
    by (subst parseString_panics_iff) simp_all
qed

text \<open>\<open>parseWinchRequest\<close> reports the width as the height too: the second
  \<open>parseUint32\<close> reads the same four bytes as the first, and the height word of a
  \<open>window-change\<close> request is never looked at.\<close>

theorem winch_height_is_width:
  assumes "w < 4294967296"
  shows "parseWinchRequest (put_u32 w @ put_u32 h @ rest) = (int w, int w, 1 \<le> w)"
  using int_of_put_u32 [OF assms, of "put_u32 h @ rest"]
  by (auto simp: parseWinchRequest_def parseUint32_def Let_def)

theorem winch_height_is_width_witness:
  "parseWinchRequest (put_u32 80 @ put_u32 24 @ []) = (80, 80, True)"
  using winch_height_is_width [of 80 24 "[]"] by simp

end
