(* ===== verification/TermKeys.thy ===== *)
theory TermKeys
  imports GoStrings
begin

text \<open>
  Parsing of the bytes a terminal sends into keys (\<open>bytesToKey\<close> of
  \<open>sshd/terminal/terminal.go\<close>). A key is a rune; the keys that are no
  characters are runes of the UTF-16 surrogate area, numbered by the constant
  block of the source.
\<close>

section \<open>Keys\<close>

definition keyCtrlD :: rune where "keyCtrlD = 4"
definition keyCtrlU :: rune where "keyCtrlU = 21"
definition keyEnter :: rune where "keyEnter = 13"
definition keyEscape :: rune where "keyEscape = 27"
definition keyBackspace :: rune where "keyBackspace = 127"
definition keyUnknown :: rune where "keyUnknown = 0xd800 + 5"
definition keyUp :: rune where "keyUp = 0xd800 + 6"
definition keyDown :: rune where "keyDown = 0xd800 + 7"
definition keyLeft :: rune where "keyLeft = 0xd800 + 8"
definition keyRight :: rune where "keyRight = 0xd800 + 9"
definition keyAltLeft :: rune where "keyAltLeft = 0xd800 + 10"
definition keyAltRight :: rune where "keyAltRight = 0xd800 + 11"
definition keyAltF :: rune where "keyAltF = 0xd800 + 12"
definition keyAltB :: rune where "keyAltB = 0xd800 + 13"
definition keyHome :: rune where "keyHome = 0xd800 + 14"
definition keyEnd :: rune where "keyEnd = 0xd800 + 15"
definition keyDeleteWord :: rune where "keyDeleteWord = 0xd800 + 16"
definition keyDeleteLine :: rune where "keyDeleteLine = 0xd800 + 17"
definition keyClearScreen :: rune where "keyClearScreen = 0xd800 + 18"
definition keyPasteStart :: rune where "keyPasteStart = 0xd800 + 19"
definition keyPasteEnd :: rune where "keyPasteEnd = 0xd800 + 20"

lemmas key_defs = keyCtrlD_def keyCtrlU_def keyEnter_def keyEscape_def keyBackspace_def keyUnknown_def
  keyUp_def keyDown_def keyLeft_def keyRight_def keyAltLeft_def keyAltRight_def keyAltF_def keyAltB_def
  keyHome_def keyEnd_def keyDeleteWord_def keyDeleteLine_def keyClearScreen_def keyPasteStart_def
  keyPasteEnd_def

definition ESC :: char where
  "ESC = byte 27"

definition pasteStart :: string where
  "pasteStart = [ESC, CHR ''['', CHR ''2'', CHR ''0'', CHR ''0'', CHR ''~'']"

definition pasteEnd :: string where
  "pasteEnd = [ESC, CHR ''['', CHR ''2'', CHR ''0'', CHR ''1'', CHR ''~'']"

section \<open>The parser\<close>

text \<open>The four \<open>switch\<close> statements, on the first, third, sixth and second byte;
  \<open>None\<close> when no case matches.\<close>

definition ctrl_switch :: "nat \<Rightarrow> rune option" where
  "ctrl_switch b =
    (if b = 1 then Some keyHome else if b = 2 then Some keyLeft else if b = 5 then Some keyEnd
     else if b = 6 then Some keyRight else if b = 8 then Some keyBackspace
     else if b = 11 then Some keyDeleteLine else if b = 12 then Some keyClearScreen
     else if b = 23 then Some keyDeleteWord else if b = 14 then Some keyDown
     else if b = 16 then Some keyUp else None)"

definition csi_switch :: "char \<Rightarrow> rune option" where
  "csi_switch c =
    (if c = CHR ''A'' then Some keyUp else if c = CHR ''B'' then Some keyDown
     else if c = CHR ''C'' then Some keyRight else if c = CHR ''D'' then Some keyLeft
     else if c = CHR ''H'' then Some keyHome else if c = CHR ''F'' then Some keyEnd else None)"

definition alt_arrow_switch :: "char \<Rightarrow> rune option" where
  "alt_arrow_switch c =
    (if c = CHR ''C'' then Some keyAltRight else if c = CHR ''D'' then Some keyAltLeft else None)"

definition alt_switch :: "char \<Rightarrow> rune option" where
  "alt_switch c = (if c = CHR ''f'' then Some keyAltF else if c = CHR ''b'' then Some keyAltB else None)"

text \<open>The bytes that end a sequence, \<open>[a-zA-Z~]\<close>.\<close>

definition final_byte :: "char \<Rightarrow> bool" where
  "final_byte c \<longleftrightarrow> (97 \<le> bv c \<and> bv c \<le> 122) \<or> (65 \<le> bv c \<and> bv c \<le> 90) \<or> c = CHR ''~''"

definition guarded :: "bool \<Rightarrow> 'a option \<Rightarrow> 'a option" where
  "guarded g x = (if g then x else None)"

text \<open>What the code recognises at the start of \<open>b\<close> and how many bytes it is, in
  the order of the source; \<open>None\<close> when it reaches the final loop.\<close>

definition escape_key :: "string \<Rightarrow> bool \<Rightarrow> (rune \<times> nat) option" where
  "escape_key b pasteActive =
    (case guarded (\<not> pasteActive \<and> 3 \<le> length b \<and> b ! 1 = CHR ''['') (csi_switch (b ! 2)) of
       Some k \<Rightarrow> Some (k, 3)
     | None \<Rightarrow>
     case guarded (\<not> pasteActive \<and> 6 \<le> length b \<and> b ! 1 = CHR ''['' \<and> b ! 2 = CHR ''1''
         \<and> b ! 3 = CHR '';'' \<and> b ! 4 = CHR ''3'') (alt_arrow_switch (b ! 5)) of
       Some k \<Rightarrow> Some (k, 6)
     | None \<Rightarrow>
     case guarded (\<not> pasteActive \<and> 2 \<le> length b) (alt_switch (b ! 1)) of
       Some k \<Rightarrow> Some (k, 2)
     | None \<Rightarrow>
       if \<not> pasteActive \<and> 6 \<le> length b \<and> take 6 b = pasteStart then Some (keyPasteStart, 6)
       else if pasteActive \<and> 6 \<le> length b \<and> take 6 b = pasteEnd then Some (keyPasteEnd, 6)
       else None)"

definition bytesToKey :: "string \<Rightarrow> bool \<Rightarrow> rune \<times> string" where
  "bytesToKey b pasteActive =
    (if b = [] then (RuneError, [])
     else case guarded (\<not> pasteActive) (ctrl_switch (bv (b ! 0))) of
       Some k \<Rightarrow> (k, drop 1 b)
     | None \<Rightarrow>
       if b ! 0 \<noteq> ESC then
         (if \<not> FullRune b then (RuneError, b)
          else let (r, l) = DecodeRune b in (r, drop l b))
       else case escape_key b pasteActive of
         Some (k, n) \<Rightarrow> (k, drop n b)
       | None \<Rightarrow>
         (case dropWhile (\<lambda>c. \<not> final_byte c) b of
            [] \<Rightarrow> (RuneError, b)
          | _ # rest \<Rightarrow> (keyUnknown, rest)))"

definition isPrintable :: "rune \<Rightarrow> bool" where
  "isPrintable key \<longleftrightarrow> 32 \<le> key \<and> \<not> (0xd800 \<le> key \<and> key \<le> 0xdbff)"

section \<open>Lemmas\<close>

lemma FullRune_append: "FullRune b \<Longrightarrow> FullRune (b @ c)"
  by (cases b) (auto simp: nth_append split: prod.splits)

lemma DecodeRune_append: "FullRune b \<Longrightarrow> DecodeRune (b @ c) = DecodeRune b"
proof (cases b)
  case (Cons a bs)
  assume full: "FullRune b"
  obtain sz lo hi where l: "lead (bv a) = (sz, lo, hi)" by (cases "lead (bv a)") auto
  consider "bv a < 0x80" | "\<not> bv a < 0x80" "sz = 1"
    | "\<not> bv a < 0x80" "1 < sz" "sz \<le> length b"
    | "\<not> bv a < 0x80" "1 < sz" "length b < sz" "bs \<noteq> []" "bv (bs ! 0) < lo \<or> hi < bv (bs ! 0)"
    | "\<not> bv a < 0x80" "sz = 4" "length b = 3" "\<not> cont_byte (bv (bs ! 1))"
    using full lead_size [OF l] l Cons by fastforce
  then show ?thesis
  proof cases
    case 3
    have eq: "\<And>n. n < length bs \<Longrightarrow> (bs @ c) ! n = bs ! n" by (simp add: nth_append)
    consider (two) "sz = 2" | (three) "sz = 3" | (four) "sz = 4" using lead_size [OF l] 3 by auto
    then show ?thesis
    proof cases
      case two
      with 3 have "(bs @ c) ! 0 = bs ! 0" by (intro eq) (auto simp: Cons Suc_le_eq)
      with two 3 show ?thesis by (auto simp: l Cons Let_def Suc_le_eq)
    next
      case three
      with 3 have "(bs @ c) ! 0 = bs ! 0" "(bs @ c) ! 1 = bs ! 1" by (auto intro!: eq simp: Cons)
      with three 3 show ?thesis by (simp add: l Cons Let_def)
    next
      case four
      with 3 four have "(bs @ c) ! 0 = bs ! 0" "(bs @ c) ! 1 = bs ! 1" "(bs @ c) ! 2 = bs ! 2"
        by (auto intro!: eq simp: Cons)
      with four 3 show ?thesis by (simp add: l Cons Let_def)
    qed
  next
    case 4
    then have "(bs @ c) ! 0 = bs ! 0" by (cases bs) simp_all
    with 4 show ?thesis by (auto simp: l Cons Let_def)
  next
    case 5
    then have "(bs @ c) ! 0 = bs ! 0" "(bs @ c) ! 1 = bs ! 1" by (simp_all add: Cons nth_append)
    with 5 show ?thesis by (simp add: l Cons Let_def)
  qed (simp_all add: l Cons)
qed simp

lemma DecodeRune_length: "snd (DecodeRune b) \<le> length b"
  using DecodeRune_width [of b] by (cases b) auto

lemma guarded_Some: "guarded g x = Some k \<longleftrightarrow> g \<and> x = Some k"
  by (simp add: guarded_def)

lemma guarded_None: "guarded g x = None \<longleftrightarrow> \<not> g \<or> x = None"
  by (simp add: guarded_def)

lemma escape_key_size: "escape_key b p = Some (k, n) \<Longrightarrow> 2 \<le> n \<and> n \<le> length b"
  by (auto simp: escape_key_def guarded_Some split: option.splits if_splits)

text \<open>A recognised key takes at least one byte off, so the loop over the keys of
  a buffer ends.\<close>

lemma bytesToKey_shorter: 
  assumes "bytesToKey b p = (k, rest)" and "k \<noteq> RuneError" 
  shows "length rest < length b"
proof -
  have ne: "b \<noteq> []" using assms by (auto simp: bytesToKey_def)
  have one: "length (drop (Suc 0) b) < length b" using ne by (cases b) simp_all
  have esc: "escape_key b p = Some (k', n) \<Longrightarrow> length (drop n b) < length b" for k' n
    using escape_key_size [of b p k' n] by auto
  have dec: "DecodeRune b = (r, l) \<Longrightarrow> length (drop l b) < length b" for r l
    using DecodeRune_width [OF ne] by auto
  have unk: "dropWhile q b = x # xs \<Longrightarrow> length xs < length b" for q x xs
    using length_dropWhile_le [of q b] by simp
  show ?thesis
    using assms ne
    by (auto simp: bytesToKey_def guarded_Some Let_def one dest: esc dec unk simp del: length_drop
        split: option.splits if_splits list.splits prod.splits)
qed

lemma escape_key_long: "6 \<le> length b \<Longrightarrow> escape_key (b @ c) p = escape_key b p"
  by (simp add: escape_key_def nth_append cong: option.case_cong if_cong)

lemma short_cases:
  assumes "length b < 6" and "b \<noteq> []"
  obtains (1) x0 where "b = [x0]" | (2) x0 x1 where "b = [x0, x1]"
    | (3) x0 x1 x2 where "b = [x0, x1, x2]" | (4) x0 x1 x2 x3 where "b = [x0, x1, x2, x3]"
    | (5) x0 x1 x2 x3 x4 where "b = [x0, x1, x2, x3, x4]"
  using assms by (auto simp: less_Suc_eq eval_nat_numeral length_Suc_conv)

lemma escape_key_append: "escape_key b p = Some kn \<Longrightarrow> escape_key (b @ c) p = Some kn"
proof (cases "6 \<le> length b")
  case False
  assume k: "escape_key b p = Some kn"
  then have "b \<noteq> []" using escape_key_size [of b p] by (cases kn) auto
  with False have "length b < 6" "b \<noteq> []" by simp_all
  then show ?thesis
    using k
    by (cases b rule: short_cases)
       (auto simp: escape_key_def guarded_Some guarded_None alt_switch_def split: option.splits if_splits)
qed (simp add: escape_key_long)

text \<open>The bytes that a recognised sequence begins with.\<close>

lemma escape_key_forms:
  assumes "escape_key b p = Some kn" and "b ! 0 = ESC"
  shows "(\<not> p \<and> 3 \<le> length b \<and> b ! 1 = CHR ''['' \<and> csi_switch (b ! 2) \<noteq> None)
    \<or> (\<not> p \<and> 2 \<le> length b \<and> alt_switch (b ! 1) \<noteq> None)
    \<or> (6 \<le> length b \<and> (\<forall>i<5. \<not> final_byte (b ! i)))"
proof -
  have nf: "\<not> final_byte ESC" "\<not> final_byte CHR ''[''" "\<not> final_byte CHR ''1''" "\<not> final_byte CHR '';''"
    "\<not> final_byte CHR ''3''" "\<not> final_byte CHR ''2''" "\<not> final_byte CHR ''0''"
    by (simp_all add: final_byte_def ESC_def str_eval)
  have five: "(\<forall>i<5. Q i) \<longleftrightarrow> Q 0 \<and> Q 1 \<and> Q 2 \<and> Q 3 \<and> Q (4::nat)" for Q
    by (auto simp: eval_nat_numeral less_Suc_eq)
  have take: "take 6 b = xs \<Longrightarrow> i < 6 \<Longrightarrow> b ! i = xs ! i" for xs i
    by (metis nth_take)
  have "take 6 b = pasteStart \<Longrightarrow> \<forall>i<5. \<not> final_byte (b ! i)"
    and "take 6 b = pasteEnd \<Longrightarrow> \<forall>i<5. \<not> final_byte (b ! i)"
    unfolding five by (simp_all add: take pasteStart_def pasteEnd_def nf)
  then show ?thesis
    using assms by (auto simp: escape_key_def guarded_Some five nf split: option.splits if_splits)
qed

lemma escape_key_csi:
  "\<not> p \<Longrightarrow> 3 \<le> length b \<Longrightarrow> b ! 1 = CHR ''['' \<Longrightarrow> csi_switch (b ! 2) \<noteq> None \<Longrightarrow> escape_key b p \<noteq> None"
  by (auto simp: escape_key_def guarded_def)

lemma escape_key_alt:
  "\<not> p \<Longrightarrow> 2 \<le> length b \<Longrightarrow> alt_switch (b ! 1) \<noteq> None \<Longrightarrow> escape_key b p \<noteq> None"
  by (auto simp: escape_key_def guarded_def split: option.split)

lemma no_escape_key_append:
  assumes none: "escape_key b p = None" and esc: "b ! 0 = ESC" and fin: "i < length b" "final_byte (b ! i)"
  shows "escape_key (b @ c) p = None"
proof (rule ccontr)
  assume "escape_key (b @ c) p \<noteq> None"
  then obtain kn where some: "escape_key (b @ c) p = Some kn" by auto
  have at: "\<And>j. j < length b \<Longrightarrow> (b @ c) ! j = b ! j" by (simp add: nth_append)
  have nf: "\<not> final_byte ESC" "\<not> final_byte CHR ''[''"
    by (simp_all add: final_byte_def ESC_def str_eval)
  have "0 < i" using esc fin nf by (cases i) auto
  have long: "\<not> 6 \<le> length b" using none some by (auto simp: escape_key_long)
  have "(b @ c) ! 0 = ESC" using esc fin at [of 0] by (cases b) simp_all
  from escape_key_forms [OF some this] show False
  proof (elim disjE conjE)
    assume csi: "\<not> p" "(b @ c) ! 1 = CHR ''[''" "csi_switch ((b @ c) ! 2) \<noteq> None"
    have "i \<noteq> 1" using csi(2) fin nf at [of 1] by auto
    then have "3 \<le> length b" using \<open>0 < i\<close> fin(1) by linarith
    then show False using escape_key_csi [OF csi(1), of b] csi none at [of 1] at [of 2] by auto
  next
    assume alt: "\<not> p" "alt_switch ((b @ c) ! 1) \<noteq> None"
    have "2 \<le> length b" using \<open>0 < i\<close> fin(1) by linarith
    then show False using escape_key_alt [OF alt(1), of b] alt none at [of 1] by auto
  next
    assume nof: "\<forall>j<5. \<not> final_byte ((b @ c) ! j)"
    have "i < 5" using fin(1) long by linarith
    with nof have "\<not> final_byte ((b @ c) ! i)" by blast
    then show False using fin(2) at [OF fin(1)] by metis
  qed
qed

lemma final_split:
  assumes "dropWhile (\<lambda>c. \<not> final_byte c) b = f # rest"
  shows "\<exists>i<length b. final_byte (b ! i)"
proof -
  have "f \<in> set b" by (metis assms list.set_intros(1) set_dropWhileD)
  moreover have "final_byte f" using hd_dropWhile [of "\<lambda>c. \<not> final_byte c" b] assms by simp
  ultimately show ?thesis by (metis in_set_conv_nth)
qed

lemma dropWhile_append_Cons: "dropWhile q b = f # rest \<Longrightarrow> dropWhile q (b @ c) = f # rest @ c"
  by (induction b) (auto split: if_splits)

lemma bytesToKey_rune:
  assumes "valid_rune r" and "32 \<le> r"
  shows "bytesToKey (encode_rune r @ s) p = (r, s)"
proof -
  obtain a bs where e: "encode_rune r = a # bs" by (cases "encode_rune r") auto
  have d: "DecodeRune (encode_rune r @ s) = (r, length (encode_rune r))"
    by (rule DecodeRune_encode [OF assms(1)])
  have a: "32 \<le> bv a"
    using e assms by (auto simp: encode_rune_def encode3_def RuneError_def valid_rune_def split: if_splits)
  have "FullRune (encode_rune r)"
    using assms by (auto simp: encode_rune_def encode3_def valid_rune_def lead_def not_le)
  then have "FullRune (encode_rune r @ s)" by (rule FullRune_append)
  moreover have "a \<noteq> ESC" using a by (auto simp: ESC_def)
  ultimately show ?thesis
    using a d e by (simp add: bytesToKey_def guarded_def ctrl_switch_def)
qed

section \<open>Properties\<close>

text \<open>parsing keys does not depend on how the input is cut into reads: a key
  that is recognised in the bytes read so far is the key that is recognised
  when more bytes follow, it uses the same bytes, and it uses at least one of
  them, so the loop over a buffer ends.\<close>

theorem bytesToKey_stable:
  assumes "bytesToKey b p = (k, rest)" and "k \<noteq> RuneError"
  shows "bytesToKey (b @ c) p = (k, rest @ c) \<and> length rest < length b"
proof
  show "length rest < length b" using assms by (rule bytesToKey_shorter)
  have ne: "b \<noteq> []" using assms by (auto simp: bytesToKey_def)
  then have hd: "(b @ c) ! 0 = b ! 0" by (cases b) simp_all
  show "bytesToKey (b @ c) p = (k, rest @ c)"
  proof (cases "guarded (\<not> p) (ctrl_switch (bv (b ! 0)))")
    case (Some k')
    with assms ne hd show ?thesis by (cases b) (auto simp: bytesToKey_def)
  next
    case None
    show ?thesis
    proof (cases "b ! 0 = ESC")
      case False
      with None assms ne have full: "FullRune b" and "(k, rest) = (let (r, l) = DecodeRune b in (r, drop l b))"
        by (auto simp: bytesToKey_def split: if_splits)
      then show ?thesis
        using None False ne hd FullRune_append [OF full] DecodeRune_append [OF full] DecodeRune_length [of b]
        by (auto simp: bytesToKey_def split: prod.splits)
    next
      case True
      show ?thesis
      proof (cases "escape_key b p")
        case (Some kn)
        then show ?thesis
          using assms True ne hd None escape_key_append [OF Some, of c] escape_key_size [of b p "fst kn" "snd kn"]
          by (cases kn) (auto simp: bytesToKey_def)
      next
        case none: None
        then obtain f where f: "dropWhile (\<lambda>c. \<not> final_byte c) b = f # rest" "k = keyUnknown"
          using assms True ne None by (auto simp: bytesToKey_def split: list.splits)
        then obtain i where "i < length b" "final_byte (b ! i)" using final_split by blast
        then have "escape_key (b @ c) p = None" by (rule no_escape_key_append [OF none True])
        then show ?thesis
          using True ne hd None f by (simp add: bytesToKey_def dropWhile_append_Cons)
      qed
    qed
  qed
qed

theorem bytesToKey_stable_witness:
  "bytesToKey (ESC # ''[A'' @ ''xy'') False = (keyUp, ''xy'')"
proof -
  have "bytesToKey (ESC # ''[A'') False = (keyUp, [])"
    by (simp add: bytesToKey_def guarded_def ctrl_switch_def escape_key_def csi_switch_def ESC_def str_eval)
  moreover have "keyUp \<noteq> RuneError" by (simp add: keyUp_def RuneError_def)
  ultimately show ?thesis using bytesToKey_stable [of "ESC # ''[A''" False keyUp "[]" "''xy''"] by simp
qed

text \<open>typed text arrives as it was typed: the UTF-8 bytes of a character that
  is no control character, and is not the replacement character, are parsed to
  that character, in and out of a paste, whatever follows.\<close>

theorem bytesToKey_text:
  assumes "valid_rune r" and "32 \<le> r"
  shows "bytesToKey (encode_rune r @ s) p = (r, s)"
  by (rule bytesToKey_rune [OF assms])

theorem bytesToKey_text_witness:
  "bytesToKey (encode_rune 0x1F600 @ ''!'') True = (0x1F600, ''!'')"
  by (rule bytesToKey_text) (simp_all add: valid_rune_def surrogate_def)

end
