(* ===== verification/TermLine.thy ===== *)
theory TermLine
  imports TermKeys RingLog "HOL-Library.Monad_Syntax"
begin

text \<open>
  The line editor of a VT100 terminal (\<open>sshd/terminal/terminal.go\<close>): its state,
  the drawing operations, the edit operations and the dispatch of a key.

  An operation that can panic (a division by a zero width, a slice out of range)
  returns an option, \<open>None\<close> for the panic; a Go slice bound is checked against the
  length. \<open>wd r\<close> says that \<open>golang.org/x/text/width\<close> classes the rune \<open>r\<close> as
  fullwidth or wide. The device is the type \<open>'d\<close> and its \<open>Write\<close> a parameter.
  The lock is held throughout an operation, so operations do not interleave; the
  slice \<open>t.line\<close> is not shared with the caller, so it is a list.
\<close>

section \<open>State\<close>

record terminal =
  AutoCompleteCallback :: "(string \<Rightarrow> int \<Rightarrow> rune \<Rightarrow> (string \<times> int) option) option"
  prompt :: "rune list"
  line :: "rune list"
  pos :: nat
  echo :: bool
  pasteActive :: bool
  cursorX :: nat
  cursorY :: nat
  maxLine :: nat
  termWidth :: nat
  termHeight :: nat
  outBuf :: string
  remainder :: string
  history :: stRingBuffer
  historyIndex :: int
  historyPending :: string
  enterClear :: bool

definition NewTerminal :: "string \<Rightarrow> terminal" where
  "NewTerminal p =
    \<lparr>AutoCompleteCallback = None, prompt = to_runes p, line = [], pos = 0, echo = True,
     pasteActive = False, cursorX = 0, cursorY = 0, maxLine = 0, termWidth = 80, termHeight = 24,
     outBuf = [], remainder = [], history = emptyRing, historyIndex = -1, historyPending = [],
     enterClear = False\<rparr>"

definition maxLineLength :: nat where
  "maxLineLength = 4096"

section \<open>Drawing\<close>

definition queue :: "rune list \<Rightarrow> terminal \<Rightarrow> terminal" where
  "queue data t = t\<lparr>outBuf := outBuf t @ of_runes data\<rparr>"

definition lit :: "string \<Rightarrow> rune list" where
  "lit s = map bv s"

definition space :: "rune list" where
  "space = [32]"

definition move_seq :: "nat \<Rightarrow> char \<Rightarrow> rune list" where
  "move_seq n c =
    (if n = 1 then [keyEscape] @ lit [CHR ''['', c]
     else if 1 < n then [keyEscape] @ lit ''['' @ lit (Itoa n) @ lit [c]
     else [])"

definition move :: "nat \<Rightarrow> nat \<Rightarrow> nat \<Rightarrow> nat \<Rightarrow> terminal \<Rightarrow> terminal" where
  "move up down left right t =
    queue (move_seq up CHR ''A'' @ move_seq down CHR ''B'' @ move_seq right CHR ''C''
      @ move_seq left CHR ''D'') t"

fun visual_loop :: "(rune \<Rightarrow> bool) \<Rightarrow> bool \<Rightarrow> nat \<Rightarrow> rune list \<Rightarrow> nat" where
  "visual_loop wd inEscapeSeq n [] = n"
| "visual_loop wd inEscapeSeq n (r # rs) =
    (if inEscapeSeq then
       visual_loop wd (\<not> (97 \<le> r \<and> r \<le> 122 \<or> 65 \<le> r \<and> r \<le> 90)) n rs
     else if r = keyEscape then visual_loop wd True n rs
     else visual_loop wd False (if wd r then n + 2 else n + 1) rs)"

definition visualLength :: "(rune \<Rightarrow> bool) \<Rightarrow> rune list \<Rightarrow> nat" where
  "visualLength wd rs = visual_loop wd False 0 rs"

definition moveCursorToPos :: "(rune \<Rightarrow> bool) \<Rightarrow> nat \<Rightarrow> terminal \<Rightarrow> terminal option" where
  "moveCursorToPos wd p t =
    (if \<not> echo t then Some t
     else if termWidth t = 0 then None
     else let p = (if p > length (line t) then length (line t) else p);
              x = visualLength wd (prompt t) + visualLength wd (take p (line t));
              y = x div termWidth t;
              x = x mod termWidth t;
              up = (if y < cursorY t then cursorY t - y else 0);
              down = (if y > cursorY t then y - cursorY t else 0);
              left = (if x < cursorX t then cursorX t - x else 0);
              right = (if x > cursorX t then x - cursorX t else 0) in
       Some (move up down left right (t\<lparr>cursorX := x, cursorY := y\<rparr>)))"

definition clearLineToRight :: "terminal \<Rightarrow> terminal" where
  "clearLineToRight t = queue ([keyEscape] @ lit ''[K'') t"

definition clearScreenBelow :: "terminal \<Rightarrow> terminal" where
  "clearScreenBelow t = queue ([keyEscape] @ lit ''[J'') t"

definition crlf :: string where
  "crlf = [byte 13, byte 10]"

definition advanceCursor :: "nat \<Rightarrow> terminal \<Rightarrow> terminal option" where
  "advanceCursor places t =
    (if termWidth t = 0 then None
     else let x = cursorX t + places;
              y = cursorY t + x div termWidth t;
              t = t\<lparr>cursorY := y, maxLine := (if y > maxLine t then y else maxLine t),
                    cursorX := x mod termWidth t\<rparr> in
       Some (if places > 0 \<and> cursorX t = 0 then t\<lparr>outBuf := outBuf t @ crlf\<rparr> else t))"

lemma advanceCursor_width:
  "advanceCursor n t = Some t' \<Longrightarrow> termWidth t' = termWidth t \<and> cursorX t' < termWidth t"
  by (auto simp: advanceCursor_def Let_def split: if_splits)

function writeLine :: "(rune \<Rightarrow> bool) \<Rightarrow> rune list \<Rightarrow> terminal \<Rightarrow> terminal option" where
  "writeLine wd ls t =
    (if ls = [] then Some t
     else if cursorX t > termWidth t then None
     else let remainingOnLine = termWidth t - cursorX t;
              todo = (if length ls > remainingOnLine then remainingOnLine else length ls) in
       case advanceCursor (visualLength wd (take todo ls)) (queue (take todo ls) t) of
         None \<Rightarrow> None
       | Some t' \<Rightarrow> writeLine wd (drop todo ls) t')"
  by auto
termination
  by (relation "measures [\<lambda>(wd, ls, t). length ls, \<lambda>(wd, ls, t). if cursorX t < termWidth t then 0 else 1]")
     (auto simp: queue_def dest!: advanceCursor_width)

declare writeLine.simps [simp del]

fun write_spaces :: "(rune \<Rightarrow> bool) \<Rightarrow> nat \<Rightarrow> terminal \<Rightarrow> terminal option" where
  "write_spaces wd 0 t = Some t"
| "write_spaces wd (Suc n) t = do { t \<leftarrow> writeLine wd space t; write_spaces wd n t }"

definition setLine :: "(rune \<Rightarrow> bool) \<Rightarrow> rune list \<Rightarrow> nat \<Rightarrow> terminal \<Rightarrow> terminal option" where
  "setLine wd newLine newPos t =
    (if echo t then do {
       t \<leftarrow> moveCursorToPos wd 0 t;
       t \<leftarrow> writeLine wd newLine t;
       t \<leftarrow> write_spaces wd (length (line t) - length newLine) t;
       t \<leftarrow> moveCursorToPos wd newPos (t\<lparr>line := newLine\<rparr>);
       Some (t\<lparr>line := newLine, pos := newPos\<rparr>)
     } else Some (t\<lparr>line := newLine, pos := newPos\<rparr>))"

section \<open>Editing\<close>

fun queue_spaces :: "nat \<Rightarrow> terminal \<Rightarrow> terminal" where
  "queue_spaces 0 t = t"
| "queue_spaces (Suc n) t = queue_spaces n (queue space t)"

definition eraseNPreviousChars :: "(rune \<Rightarrow> bool) \<Rightarrow> nat \<Rightarrow> terminal \<Rightarrow> terminal option" where
  "eraseNPreviousChars wd n t =
    (if n = 0 then Some t
     else let n = (if pos t < n then pos t else n);
              t = t\<lparr>pos := pos t - n\<rparr> in do {
       t \<leftarrow> moveCursorToPos wd (pos t) t;
       if length (line t) < n + pos t then None else do {
         let t = t\<lparr>line := take (pos t) (line t) @ drop (n + pos t) (line t)\<rparr>;
         if echo t then do {
           t \<leftarrow> writeLine wd (drop (pos t) (line t)) t;
           t \<leftarrow> advanceCursor n (queue_spaces n t);
           moveCursorToPos wd (pos t) t
         } else Some t
       }
     })"

text \<open>The loops that look for a word boundary, on the line and the position.\<close>

fun back_spaces :: "rune list \<Rightarrow> nat \<Rightarrow> nat" where
  "back_spaces l 0 = 0"
| "back_spaces l (Suc p) = (if l ! Suc p \<noteq> 32 then Suc p else back_spaces l p)"

fun back_word :: "rune list \<Rightarrow> nat \<Rightarrow> nat" where
  "back_word l 0 = 0"
| "back_word l (Suc p) = (if l ! Suc p = 32 then Suc (Suc p) else back_word l p)"

definition countToLeftWord :: "terminal \<Rightarrow> nat" where
  "countToLeftWord t =
    (if pos t = 0 then 0
     else pos t - back_word (line t) (back_spaces (line t) (pos t - 1)))"

definition countToRightWord :: "terminal \<Rightarrow> nat" where
  "countToRightWord t =
    (let rest = drop (pos t) (line t) in
     length (takeWhile (\<lambda>r. r \<noteq> 32) rest)
       + length (takeWhile (\<lambda>r. r = 32) (dropWhile (\<lambda>r. r \<noteq> 32) rest)))"

definition addKeyToLine :: "(rune \<Rightarrow> bool) \<Rightarrow> rune \<Rightarrow> terminal \<Rightarrow> terminal option" where
  "addKeyToLine wd key t =
    (if length (line t) < pos t then None
     else do {
       let t = t\<lparr>line := take (pos t) (line t) @ [key] @ drop (pos t) (line t)\<rparr>;
       t \<leftarrow> (if echo t then writeLine wd (drop (pos t) (line t)) t else Some t);
       let t = t\<lparr>pos := pos t + 1\<rparr>;
       moveCursorToPos wd (pos t) t
     })"

fun delete_spaces :: "nat \<Rightarrow> terminal \<Rightarrow> terminal option" where
  "delete_spaces 0 t = Some t"
| "delete_spaces (Suc n) t = do { t \<leftarrow> advanceCursor 1 (queue space t); delete_spaces n t }"


section \<open>Dispatch of a key\<close>

text \<open>The result of \<open>handleKey\<close>: the line (empty unless the key completed it),
  whether it is complete, and the terminal. A case that ends without a line
  continues with \<open>no_line\<close>.\<close>

type_synonym key_result = "string \<times> bool \<times> terminal"

definition no_line :: "terminal \<Rightarrow> key_result option" where
  "no_line t = Some ([], False, t)"

definition history_entry :: "stRingBuffer \<Rightarrow> int \<Rightarrow> string option option" where
  "history_entry h n = (case NthPreviousEntry h n of Inl _ \<Rightarrow> None | Inr e \<Rightarrow> Some e)"

definition handleKey_up :: "(rune \<Rightarrow> bool) \<Rightarrow> terminal \<Rightarrow> terminal option" where
  "handleKey_up wd t = do {
     e \<leftarrow> history_entry (history t) (historyIndex t + 1);
     (case e of
       None \<Rightarrow> Some t
     | Some entry \<Rightarrow>
         let t = (if historyIndex t = -1 then t\<lparr>historyPending := of_runes (line t)\<rparr> else t);
             t = t\<lparr>historyIndex := historyIndex t + 1\<rparr>;
             runes = to_runes entry in
         setLine wd runes (length runes) t)
   }"

definition handleKey_down :: "(rune \<Rightarrow> bool) \<Rightarrow> terminal \<Rightarrow> terminal option" where
  "handleKey_down wd t =
    (if historyIndex t = -1 then Some t
     else if historyIndex t = 0 then do {
       let runes = to_runes (historyPending t);
       t \<leftarrow> setLine wd runes (length runes) t;
       Some (t\<lparr>historyIndex := historyIndex t - 1\<rparr>)
     } else do {
       e \<leftarrow> history_entry (history t) (historyIndex t - 1);
       (case e of
         None \<Rightarrow> Some t
       | Some entry \<Rightarrow>
           let t = t\<lparr>historyIndex := historyIndex t - 1\<rparr>;
               runes = to_runes entry in
           setLine wd runes (length runes) t)
     })"

definition handleKey_enter :: "(rune \<Rightarrow> bool) \<Rightarrow> terminal \<Rightarrow> key_result option" where
  "handleKey_enter wd t = do {
     let l = of_runes (line t);
     t \<leftarrow> (if enterClear t then Some (queue ([keyEscape] @ lit ''[2K'' @ [keyEscape] @ lit ''[J'') t)
          else do {
            t \<leftarrow> moveCursorToPos wd (length (line t)) t;
            Some ((queue (lit crlf) t)\<lparr>cursorX := 0, cursorY := 0\<rparr>)
          });
     Some (l, True, t\<lparr>line := [], pos := 0, maxLine := 0\<rparr>)
   }"

definition handleKey_deleteLine :: "(rune \<Rightarrow> bool) \<Rightarrow> terminal \<Rightarrow> terminal option" where
  "handleKey_deleteLine wd t = do {
     t \<leftarrow> delete_spaces (length (line t) - pos t) t;
     if length (line t) < pos t then None
     else moveCursorToPos wd (pos t) (t\<lparr>line := take (pos t) (line t)\<rparr>)
   }"

definition handleKey_clearScreen :: "(rune \<Rightarrow> bool) \<Rightarrow> terminal \<Rightarrow> terminal option" where
  "handleKey_clearScreen wd t = do {
     let t = queue ([keyEscape] @ lit ''[2J'' @ [keyEscape] @ lit ''[H'') t;
     let t = queue (prompt t) t;
     t \<leftarrow> advanceCursor (visualLength wd (prompt t)) (t\<lparr>cursorX := 0, cursorY := 0\<rparr>);
     setLine wd (line t) (pos t) t
   }"

definition typeKey :: "(rune \<Rightarrow> bool) \<Rightarrow> rune \<Rightarrow> terminal \<Rightarrow> terminal option" where
  "typeKey wd key t =
    (if \<not> isPrintable key then Some t
     else if length (line t) = maxLineLength then Some t
     else addKeyToLine wd key t)"

definition handleKey_default :: "(rune \<Rightarrow> bool) \<Rightarrow> rune \<Rightarrow> terminal \<Rightarrow> terminal option" where
  "handleKey_default wd key t =
    (case AutoCompleteCallback t of
       None \<Rightarrow> typeKey wd key t
     | Some f \<Rightarrow>
         if length (line t) < pos t then None
         else let prefix = of_runes (take (pos t) (line t));
                  suffix = of_runes (drop (pos t) (line t)) in
           (case f (prefix @ suffix) (int (length prefix)) key of
              Some (newLine, newPos) \<Rightarrow>
                (if newPos < 0 \<or> int (length newLine) < newPos then None
                 else setLine wd (to_runes newLine) (RuneCount (take (nat newPos) newLine)) t)
            | None \<Rightarrow> typeKey wd key t))"

definition moveTo :: "(rune \<Rightarrow> bool) \<Rightarrow> nat \<Rightarrow> terminal \<Rightarrow> terminal option" where
  "moveTo wd p t = moveCursorToPos wd p (t\<lparr>pos := p\<rparr>)"

definition handleKey :: "(rune \<Rightarrow> bool) \<Rightarrow> rune \<Rightarrow> terminal \<Rightarrow> key_result option" where
  "handleKey wd key t =
    (if pasteActive t \<and> key \<noteq> keyEnter then Option.bind (addKeyToLine wd key t) no_line
     else if key = keyBackspace then
       (if pos t = 0 then no_line t else Option.bind (eraseNPreviousChars wd 1 t) no_line)
     else if key = keyAltB \<or> key = keyAltLeft then
       Option.bind (moveTo wd (pos t - countToLeftWord t) t) no_line
     else if key = keyAltF \<or> key = keyAltRight then
       Option.bind (moveTo wd (pos t + countToRightWord t) t) no_line
     else if key = keyLeft then
       (if pos t = 0 then no_line t else Option.bind (moveTo wd (pos t - 1) t) no_line)
     else if key = keyRight then
       (if pos t = length (line t) then no_line t else Option.bind (moveTo wd (pos t + 1) t) no_line)
     else if key = keyHome then
       (if pos t = 0 then no_line t else Option.bind (moveTo wd 0 t) no_line)
     else if key = keyEnd then
       (if pos t = length (line t) then no_line t else Option.bind (moveTo wd (length (line t)) t) no_line)
     else if key = keyUp then Option.bind (handleKey_up wd t) no_line
     else if key = keyDown then Option.bind (handleKey_down wd t) no_line
     else if key = keyEnter then handleKey_enter wd t
     else if key = keyDeleteWord then
       Option.bind (eraseNPreviousChars wd (countToLeftWord t) t) no_line
     else if key = keyDeleteLine then Option.bind (handleKey_deleteLine wd t) no_line
     else if key = keyCtrlD then
       (if pos t < length (line t)
        then Option.bind (eraseNPreviousChars wd 1 (t\<lparr>pos := pos t + 1\<rparr>)) no_line
        else no_line t)
     else if key = keyCtrlU then Option.bind (eraseNPreviousChars wd (pos t) t) no_line
     else if key = keyClearScreen then Option.bind (handleKey_clearScreen wd t) no_line
     else Option.bind (handleKey_default wd key t) no_line)"


section \<open>What drawing keeps\<close>

text \<open>\<open>edit\<close> forgets the fields that the drawing operations own, so two
  terminals with the same \<open>edit\<close> hold the same text; \<open>runs m Q\<close> says that \<open>m\<close>
  does not panic and ends in \<open>Q\<close>.\<close>

definition edit :: "terminal \<Rightarrow> terminal" where
  "edit t = t\<lparr>cursorX := 0, cursorY := 0, maxLine := 0, outBuf := []\<rparr>"

definition geom :: "terminal \<Rightarrow> bool" where
  "geom t \<longleftrightarrow> cursorX t < termWidth t"

definition runs :: "'a option \<Rightarrow> ('a \<Rightarrow> bool) \<Rightarrow> bool" where
  "runs m Q \<longleftrightarrow> (\<exists>x. m = Some x \<and> Q x)"

abbreviation draws :: "terminal \<Rightarrow> terminal option \<Rightarrow> bool" where
  "draws t m \<equiv> runs m (\<lambda>t'. edit t' = edit t \<and> geom t')"

named_theorems draw_intro

lemma runs_Some [simp]: "runs (Some x) Q = Q x"
  by (simp add: runs_def)

lemma runs_bind: "runs m P \<Longrightarrow> (\<And>x. P x \<Longrightarrow> runs (f x) Q) \<Longrightarrow> runs (Option.bind m f) Q"
  by (auto simp: runs_def)

lemma runs_mono: "runs m P \<Longrightarrow> (\<And>x. P x \<Longrightarrow> Q x) \<Longrightarrow> runs m Q"
  by (auto simp: runs_def)

lemma edit_fields:
  assumes "edit t' = edit t"
  shows "line t' = line t" "pos t' = pos t" "echo t' = echo t" "prompt t' = prompt t"
    "pasteActive t' = pasteActive t" "termWidth t' = termWidth t" "history t' = history t"
    "historyIndex t' = historyIndex t" "historyPending t' = historyPending t"
    "remainder t' = remainder t" "enterClear t' = enterClear t"
    "AutoCompleteCallback t' = AutoCompleteCallback t"
  using assms by (cases t, cases t', simp add: edit_def)+

lemma edit_update [simp]:
  "edit (t\<lparr>cursorX := x\<rparr>) = edit t" "edit (t\<lparr>cursorY := x\<rparr>) = edit t"
  "edit (t\<lparr>maxLine := x\<rparr>) = edit t" "edit (t\<lparr>outBuf := ob\<rparr>) = edit t"
  "edit (t\<lparr>line := l\<rparr>) = (edit t)\<lparr>line := l\<rparr>" "edit (t\<lparr>pos := p\<rparr>) = (edit t)\<lparr>pos := p\<rparr>"
  "edit (t\<lparr>historyIndex := i\<rparr>) = (edit t)\<lparr>historyIndex := i\<rparr>"
  "edit (t\<lparr>historyPending := s\<rparr>) = (edit t)\<lparr>historyPending := s\<rparr>"
  by (simp_all add: edit_def)

lemma edit_view [simp]:
  "line (edit t) = line t" "pos (edit t) = pos t" "termWidth (edit t) = termWidth t"
  by (simp_all add: edit_def)

lemma edit_queue [simp]: "edit (queue d t) = edit t"
  by (simp add: queue_def)

lemma edit_move [simp]: "edit (move u d l r t) = edit t"
  by (simp add: move_def)

lemma edit_queue_spaces [simp]: "edit (queue_spaces n t) = edit t"
  by (induction n arbitrary: t) simp_all

lemma geom_update [simp]:
  "geom (t\<lparr>line := l\<rparr>) = geom t" "geom (t\<lparr>pos := p\<rparr>) = geom t" "geom (t\<lparr>outBuf := ob\<rparr>) = geom t"
  "geom (t\<lparr>historyIndex := i\<rparr>) = geom t" "geom (t\<lparr>historyPending := s\<rparr>) = geom t"
  "geom (t\<lparr>maxLine := m\<rparr>) = geom t" "geom (t\<lparr>cursorY := m\<rparr>) = geom t"
  by (simp_all add: geom_def)

lemma geom_queue [simp]: "geom (queue d t) = geom t"
  by (simp add: queue_def)

lemma geom_move [simp]: "geom (move u d l r t) = geom t"
  by (simp add: move_def)

lemma geom_queue_spaces [simp]: "geom (queue_spaces n t) = geom t"
  by (induction n arbitrary: t) simp_all

lemma draws_moveCursorToPos [draw_intro]: "geom t \<Longrightarrow> draws t (moveCursorToPos wd p t)"
  by (auto simp: moveCursorToPos_def Let_def geom_def move_def queue_def)

lemma draws_advanceCursor [draw_intro]: "geom t \<Longrightarrow> draws t (advanceCursor n t)"
  by (auto simp: advanceCursor_def Let_def geom_def)

lemma draws_writeLine [draw_intro]: "geom t \<Longrightarrow> draws t (writeLine wd ls t)"
proof (induction wd ls t rule: writeLine.induct)
  case (1 wd ls t)
  show ?case
  proof (cases "ls = []")
    case False
    define todo where "todo = (if length ls > termWidth t - cursorX t then termWidth t - cursorX t else length ls)"
    obtain t' where t': "advanceCursor (visualLength wd (take todo ls)) (queue (take todo ls) t) = Some t'"
      "edit t' = edit t" "geom t'"
      using draws_advanceCursor [of "queue (take todo ls) t" "visualLength wd (take todo ls)"] 1 by (auto simp: runs_def)
    have g: "\<not> cursorX t > termWidth t" using 1 by (simp add: geom_def)
    have "draws t' (writeLine wd (drop todo ls) t')"
      using "1.IH" [OF False g refl todo_def t'(1)] t' by simp
    then show ?thesis
      using False g t' by (simp add: writeLine.simps [of wd ls] Let_def todo_def [symmetric])
  qed (use 1 in \<open>simp add: writeLine.simps\<close>)
qed

lemma draws_bind:
  "draws t m \<Longrightarrow> (\<And>t'. edit t' = edit t \<Longrightarrow> geom t' \<Longrightarrow> runs (f t') Q) \<Longrightarrow> runs (Option.bind m f) Q"
  by (auto simp: runs_def)

lemma draws_write_spaces [draw_intro]: "geom t \<Longrightarrow> draws t (write_spaces wd n t)"
proof (induction n arbitrary: t)
  case (Suc n)
  show ?case unfolding write_spaces.simps
    by (rule draws_bind [OF draws_writeLine [OF Suc.prems]]) (use Suc.IH in fastforce)
qed simp

lemma draws_delete_spaces [draw_intro]: "geom t \<Longrightarrow> draws t (delete_spaces n t)"
proof (induction n arbitrary: t)
  case (Suc n)
  have "draws t (advanceCursor 1 (queue space t))"
    using draws_advanceCursor [of "queue space t" 1] Suc.prems by simp
  then show ?case unfolding delete_spaces.simps
    by (rule draws_bind) (use Suc.IH in fastforce)
qed simp

section \<open>What editing does\<close>

text \<open>\<open>edits t l p m\<close>: \<open>m\<close> does not panic, and of all that is not drawing only
  the line and the cursor change, to \<open>l\<close> and \<open>p\<close>.\<close>

abbreviation edits :: "terminal \<Rightarrow> rune list \<Rightarrow> nat \<Rightarrow> terminal option \<Rightarrow> bool" where
  "edits t l p m \<equiv> runs m (\<lambda>t'. edit t' = (edit t)\<lparr>line := l, pos := p\<rparr> \<and> geom t')"

lemma edit_same [simp]:
  "(edit t)\<lparr>line := line t\<rparr> = edit t" "(edit t)\<lparr>pos := pos t\<rparr> = edit t"
  "(edit t)\<lparr>line := l, pos := pos t\<rparr> = (edit t)\<lparr>line := l\<rparr>"
  "r\<lparr>pos := p, line := l\<rparr> = r\<lparr>line := l, pos := (p::nat)\<rparr>"
  by (simp_all add: edit_def)

lemma edits_moveTo: "geom t \<Longrightarrow> edits t (line t) p (moveTo wd p t)"
  using draws_moveCursorToPos [of "t\<lparr>pos := p\<rparr>" wd p] by (simp add: moveTo_def)

lemma edits_setLine: "geom t \<Longrightarrow> edits t l p (setLine wd l p t)"
proof (cases "echo t")
  case True
  assume g: "geom t"
  have "draws t (do { t \<leftarrow> moveCursorToPos wd 0 t; t \<leftarrow> writeLine wd l t;
      write_spaces wd (length (line t) - length l) t })" (is "draws t ?m")
    by (rule draws_bind [OF draws_moveCursorToPos [OF g]], rule runs_bind [OF draws_writeLine], assumption,
        rule runs_mono [OF draws_write_spaces]) auto
  moreover have "setLine wd l p t = do { t \<leftarrow> ?m; t \<leftarrow> moveCursorToPos wd p (t\<lparr>line := l\<rparr>);
      Some (t\<lparr>line := l, pos := p\<rparr>) }"
    using True by (simp add: setLine_def)
  moreover have "edits t l p (do { t \<leftarrow> moveCursorToPos wd p (t'\<lparr>line := l\<rparr>); Some (t\<lparr>line := l, pos := p\<rparr>) })"
    if t': "edit t' = edit t" "geom t'" for t'
    using draws_moveCursorToPos [of "t'\<lparr>line := l\<rparr>" wd p] t' by (auto simp: runs_def)
  ultimately show ?thesis by (simp only:) (rule draws_bind)
qed (simp add: setLine_def)

lemma edits_addKeyToLine:
  assumes "geom t" and "pos t \<le> length (line t)"
  shows "edits t (take (pos t) (line t) @ [k] @ drop (pos t) (line t)) (pos t + 1) (addKeyToLine wd k t)"
proof -
  define t1 where "t1 = t\<lparr>line := take (pos t) (line t) @ [k] @ drop (pos t) (line t)\<rparr>"
  have "geom t1" using assms by (simp add: t1_def)
  then have draw: "draws t1 (if echo t1 then writeLine wd (drop (pos t1) (line t1)) t1 else Some t1)"
    by (simp add: draws_writeLine)
  have eq: "addKeyToLine wd k t = do {
      t \<leftarrow> (if echo t1 then writeLine wd (drop (pos t1) (line t1)) t1 else Some t1);
      moveCursorToPos wd (pos t + 1) (t\<lparr>pos := pos t + 1\<rparr>) }"
    using assms(2) by (simp add: addKeyToLine_def t1_def)
  have step: "edits t (line t1) (pos t + 1) (moveCursorToPos wd (pos t' + 1) (t'\<lparr>pos := pos t' + 1\<rparr>))"
    if t': "edit t' = edit t1" "geom t'" for t'
    using draws_moveCursorToPos [of "t'\<lparr>pos := pos t' + 1\<rparr>" wd "pos t' + 1"] t' edit_fields(2) [OF t'(1)]
    by (simp add: t1_def)
  show ?thesis
    by (subst eq, rule draws_bind [OF draw]) (use step in \<open>simp add: t1_def\<close>)
qed

lemma edits_erase:
  assumes "geom t" and "pos t \<le> length (line t)"
  shows "edits t (take (pos t - n) (line t) @ drop (pos t) (line t)) (pos t - n) (eraseNPreviousChars wd n t)"
proof (cases "n = 0")
  case False
  define m where "m = (if pos t < n then pos t else n)"
  have m: "pos t - m = pos t - n" "m + (pos t - n) = pos t" by (auto simp: m_def)
  define t1 where "t1 = t\<lparr>pos := pos t - n\<rparr>"
  define l where "l = take (pos t - n) (line t) @ drop (pos t) (line t)"
  have g1: "geom t1" using assms by (simp add: t1_def)
  define rest where "rest t2 = (if echo t2 then do {
           t \<leftarrow> writeLine wd (drop (pos t2) (line t2)) t2;
           t \<leftarrow> advanceCursor m (queue_spaces m t);
           moveCursorToPos wd (pos t) t
         } else Some t2)" for t2
  have draw: "draws t2 (rest t2)" if "geom t2" for t2
  proof (cases "echo t2")
    case True
    show ?thesis unfolding rest_def using True
      apply simp
      apply (rule draws_bind [OF draws_writeLine [OF that]])
      apply (rule runs_bind [OF draws_advanceCursor])
       apply simp
      apply (rule runs_mono [OF draws_moveCursorToPos])
       apply simp_all
      done
  qed (simp add: rest_def that)
  have "eraseNPreviousChars wd n t = do {
      t \<leftarrow> moveCursorToPos wd (pos t1) t1;
      if length (line t) < m + pos t then None
      else rest (t\<lparr>line := take (pos t) (line t) @ drop (m + pos t) (line t)\<rparr>) }"
    using False by (simp add: eraseNPreviousChars_def rest_def Let_def m_def [symmetric] m t1_def cong: if_cong)
  moreover have "edits t l (pos t - n) (if length (line t2) < m + pos t2 then None
      else rest (t2\<lparr>line := take (pos t2) (line t2) @ drop (m + pos t2) (line t2)\<rparr>))"
    if t2: "edit t2 = edit t1" "geom t2" for t2
  proof -
    have f: "line t2 = line t" "pos t2 = pos t - n"
      using edit_fields(1,2) [OF t2(1)] by (simp_all add: t1_def)
    show ?thesis
      using draw [of "t2\<lparr>line := l\<rparr>"] t2 assms(2) f m by (simp add: l_def [symmetric] t1_def)
  qed
  ultimately show ?thesis
    unfolding l_def by (simp only:) (auto intro: draws_bind [OF draws_moveCursorToPos [OF g1]])
qed (use assms in \<open>simp add: eraseNPreviousChars_def\<close>)

lemma edits_deleteLine:
  assumes "geom t" and "pos t \<le> length (line t)"
  shows "edits t (take (pos t) (line t)) (pos t) (handleKey_deleteLine wd t)"
  unfolding handleKey_deleteLine_def
proof (rule draws_bind [OF draws_delete_spaces [OF assms(1)]])
  fix t' assume t': "edit t' = edit t" "geom t'"
  then show "edits t (take (pos t) (line t)) (pos t) (if length (line t') < pos t' then None
     else moveCursorToPos wd (pos t') (t'\<lparr>line := take (pos t') (line t')\<rparr>))"
    using draws_moveCursorToPos [of "t'\<lparr>line := take (pos t') (line t')\<rparr>" wd "pos t'"] assms(2)
      edit_fields(1,2) [OF t'(1)] by simp
qed

lemma edits_clearScreen:
  assumes "geom t"
  shows "edits t (line t) (pos t) (handleKey_clearScreen wd t)"
proof -
  define t1 where "t1 = (queue (prompt t) (queue ([keyEscape] @ lit ''[2J'' @ [keyEscape] @ lit ''[H'') t))
      \<lparr>cursorX := 0, cursorY := 0\<rparr>"
  have t1: "edit t1 = edit t" "geom t1" using assms by (auto simp: t1_def geom_def queue_def)
  have "handleKey_clearScreen wd t = do { t \<leftarrow> advanceCursor (visualLength wd (prompt t)) t1; setLine wd (line t) (pos t) t }"
    by (simp add: handleKey_clearScreen_def t1_def queue_def)
  moreover have "edits t (line t) (pos t) (setLine wd (line t') (pos t') t')"
    if "edit t' = edit t1" "geom t'" for t'
    using edits_setLine [OF that(2), of wd "line t'" "pos t'"] that t1 edit_fields(1,2) [of t' t] by simp
  ultimately show ?thesis
    by (simp only:) (auto intro: draws_bind [OF draws_advanceCursor [OF t1(2)]])
qed

lemma enter_result:
  assumes "geom t"
  shows "runs (handleKey_enter wd t)
    (\<lambda>(l, ok, t'). l = of_runes (line t) \<and> ok \<and> edit t' = (edit t)\<lparr>line := [], pos := 0\<rparr> \<and> geom t')"
proof (cases "enterClear t")
  case False
  have w: "0 < termWidth t" using assms by (simp add: geom_def)
  show ?thesis
    using draws_moveCursorToPos [OF assms, of wd "length (line t)"] False w
    by (auto simp: handleKey_enter_def runs_def geom_def queue_def dest: edit_fields(6))
qed (use assms in \<open>simp add: handleKey_enter_def\<close>)

end
