(* ===== verification/TermEdit.thy ===== *)
theory TermEdit
  imports TermLine
begin

text \<open>
  Correctness of the line editor of \<open>TermLine\<close>: no key makes it panic, its
  invariant is kept, every edit key is a step of an abstract editor on the text
  before and after the cursor, and the keys that walk through the input history
  do not lose the line that was being typed.
\<close>

section \<open>The invariant\<close>

definition term_inv :: "terminal \<Rightarrow> bool" where
  "term_inv t \<longleftrightarrow> geom t \<and> pos t \<le> length (line t) \<and> rb_inv (history t) \<and> -1 \<le> historyIndex t"

text \<open>What the editor needs of a completion callback: a position inside the line
  it returns, and not in the middle of a character that decodes to fewer runes.\<close>

definition complete_ok :: "terminal \<Rightarrow> bool" where
  "complete_ok t \<longleftrightarrow>
    (\<forall>f l p k nl np. AutoCompleteCallback t = Some f \<and> f l p k = Some (nl, np) \<longrightarrow>
      0 \<le> np \<and> np \<le> int (length nl) \<and> RuneCount (take (nat np) nl) \<le> length (to_runes nl))"

lemma term_inv_edits:
  assumes "term_inv t" and "edits t l p m" and "p \<le> length l"
  shows "runs m term_inv"
  using assms(2)
proof (rule runs_mono)
  fix t' assume t': "edit t' = (edit t)\<lparr>line := l, pos := p\<rparr> \<and> geom t'"
  then have "edit t' = edit (t\<lparr>line := l, pos := p\<rparr>)" by simp
  from edit_fields [OF this] t' assms show "term_inv t'" by (simp add: term_inv_def)
qed

lemma back_spaces_view:
  "q < length l \<Longrightarrow> back_spaces l q \<le> q \<and> (l ! back_spaces l q = 32 \<longrightarrow> back_spaces l q = 0) \<and>
    dropWhile (\<lambda>r. r = 32) (rev (take (Suc q) l)) =
      (if l ! back_spaces l q = 32 then [] else rev (take (Suc (back_spaces l q)) l))"
proof (induction q)
  case 0
  then show ?case by (cases l) auto
next
  case (Suc q)
  moreover have "rev (take (Suc (Suc q)) l) = l ! Suc q # rev (take (Suc q) l)"
    using Suc.prems by (simp add: take_Suc_conv_app_nth)
  ultimately show ?case by (auto simp del: take_Suc)
qed

definition shrink :: "rune list \<Rightarrow> rune list" where
  "shrink w = (if length w = 1 then [] else w)"

lemma back_word_view:
  "q < length l \<Longrightarrow> back_word l q = length (shrink (dropWhile (\<lambda>r. r \<noteq> 32) (rev (take (Suc q) l))))"
proof (induction q)
  case 0
  then show ?case by (cases l) (auto simp: shrink_def)
next
  case (Suc q)
  moreover have "rev (take (Suc (Suc q)) l) = l ! Suc q # rev (take (Suc q) l)"
    using Suc.prems by (simp add: take_Suc_conv_app_nth)
  ultimately show ?case by (auto simp: shrink_def)
qed

text \<open>The text to the left of the cursor without its last word: trailing spaces
  and the word before them are taken off. A line that begins with a single
  space loses it together with its first word.\<close>

definition without_word :: "rune list \<Rightarrow> rune list" where
  "without_word b = rev (shrink (dropWhile (\<lambda>r. r \<noteq> 32) (dropWhile (\<lambda>r. r = 32) (rev b))))"

lemma countToLeftWord_view:
  assumes "pos t \<le> length (line t)"
  shows "countToLeftWord t \<le> pos t" 
    and "take (pos t - countToLeftWord t) (line t) = without_word (take (pos t) (line t))"
proof -
  show "countToLeftWord t \<le> pos t" by (simp add: countToLeftWord_def)
  show "take (pos t - countToLeftWord t) (line t) = without_word (take (pos t) (line t))"
  proof (cases "pos t")
    case (Suc q)
    define l where "l = line t"
    define j where "j = back_spaces l q"
    define w where "w = dropWhile (\<lambda>r. r \<noteq> 32) (dropWhile (\<lambda>r. r = 32) (rev (take (Suc q) l)))"
    have q: "q < length l" using assms Suc by (simp add: l_def)
    note j = back_spaces_view [OF q, folded j_def]
    have bw: "back_word l j = length (shrink w)"
    proof (cases "l ! j = 32")
      case True
      then have "dropWhile (\<lambda>r. r = 32) (rev (take (Suc q) l)) = []" and "j = 0" using j by metis+
      then show ?thesis by (simp only: w_def shrink_def) simp
    next
      case False
      then show ?thesis using j q back_word_view [of j l] by (simp add: w_def)
    qed
    have "\<exists>u. rev (take (Suc q) l) = u @ w"
      unfolding w_def by (metis append_assoc takeWhile_dropWhile_id)
    then obtain u where "rev (take (Suc q) l) = u @ w" by blast
    then have "take (Suc q) l = rev w @ rev u" by (metis rev_append rev_rev_ident)
    then have tw: "take (length w) l = rev w" and le: "length w \<le> Suc q"
      using q by (metis append_eq_conv_conj length_rev take_take min.absorb1 length_append length_take le_add1 min_def) (metis \<open>take (Suc q) l = rev w @ rev u\<close> length_append length_rev length_take le_add1 min.bounded_iff)
    have "take (length (shrink w)) l = rev (shrink w)" using tw by (simp add: shrink_def)
    moreover have "pos t - countToLeftWord t = length (shrink w)"
      using Suc bw le by (auto simp: countToLeftWord_def j_def l_def shrink_def)
    ultimately show ?thesis by (simp add: without_word_def l_def w_def Suc)
  qed (simp add: countToLeftWord_def without_word_def shrink_def)
qed

lemma countToRightWord_le: "pos t \<le> length (line t) \<Longrightarrow> pos t + countToRightWord t \<le> length (line t)"
proof -
  assume p: "pos t \<le> length (line t)"
  define r where "r = drop (pos t) (line t)"
  have "length (takeWhile P r) + length (takeWhile Q (dropWhile P r)) \<le> length r" for P Q
    by (metis add_le_cancel_left length_append length_takeWhile_le takeWhile_dropWhile_id)
  from this [of "\<lambda>r. r \<noteq> 32" "\<lambda>r. r = 32"] show ?thesis
    using p by (simp add: countToRightWord_def Let_def r_def)
qed

section \<open>The editor as two lists\<close>

text \<open>The abstract editor holds the text before and after the cursor.\<close>

definition zip_view :: "terminal \<Rightarrow> rune list \<times> rune list" where
  "zip_view t = (take (pos t) (line t), drop (pos t) (line t))"

definition word_right :: "rune list \<Rightarrow> rune list" where
  "word_right a = takeWhile (\<lambda>r. r \<noteq> 32) a @ takeWhile (\<lambda>r. r = 32) (dropWhile (\<lambda>r. r \<noteq> 32) a)"

fun spec_key :: "bool \<Rightarrow> rune \<Rightarrow> rune list \<times> rune list \<Rightarrow> rune list \<times> rune list" where
  "spec_key paste key (b, a) =
    (if paste then (b @ [key], a)
     else if key = keyBackspace then (butlast b, a)
     else if key = keyAltB \<or> key = keyAltLeft then
       (without_word b, drop (length (without_word b)) b @ a)
     else if key = keyAltF \<or> key = keyAltRight then (b @ word_right a, drop (length (word_right a)) a)
     else if key = keyLeft then (butlast b, drop (length b - 1) b @ a)
     else if key = keyRight then (b @ take 1 a, drop 1 a)
     else if key = keyHome then ([], b @ a)
     else if key = keyEnd then (b @ a, [])
     else if key = keyDeleteWord then (without_word b, a)
     else if key = keyDeleteLine then (b, [])
     else if key = keyCtrlD then (b, drop 1 a)
     else if key = keyCtrlU then ([], a)
     else if key = keyClearScreen then (b, a)
     else if isPrintable key \<and> length (b @ a) \<noteq> maxLineLength then (b @ [key], a)
     else (b, a))"

text \<open>The keys with an edit command of their own; any other key is first offered
  to the completion callback.\<close>

definition edit_keys :: "rune set" where
  "edit_keys = {keyBackspace, keyAltB, keyAltLeft, keyAltF, keyAltRight, keyLeft, keyRight,
     keyHome, keyEnd, keyDeleteWord, keyDeleteLine, keyCtrlD, keyCtrlU, keyClearScreen}"

definition uncompleted :: "terminal \<Rightarrow> rune \<Rightarrow> bool" where
  "uncompleted t key \<longleftrightarrow>
    (\<forall>f l p. AutoCompleteCallback t = Some f \<and> \<not> pasteActive t \<and> key \<notin> edit_keys \<longrightarrow> f l p key = None)"

text \<open>\<open>steps t z m\<close>: \<open>m\<close> does not panic, gives no line, leaves the text and the
  cursor \<open>z\<close>, and changes nothing but the text, the cursor and the drawing.\<close>

definition steps :: "terminal \<Rightarrow> rune list \<times> rune list \<Rightarrow> key_result option \<Rightarrow> bool" where
  "steps t z m \<longleftrightarrow> runs m (\<lambda>(l, ok, t'). l = [] \<and> \<not> ok \<and> geom t' \<and> zip_view t' = z \<and>
    edit t' = (edit t)\<lparr>line := fst z @ snd z, pos := length (fst z)\<rparr>)"

lemma steps_edits:
  assumes "edits t l p m" and "p \<le> length l" and "z = (take p l, drop p l)"
  shows "steps t z (Option.bind m no_line)"
proof -
  from assms(1) obtain t' where t': "m = Some t'" "edit t' = (edit t)\<lparr>line := l, pos := p\<rparr>" "geom t'"
    by (auto simp: runs_def)
  then have "edit t' = edit (t\<lparr>line := l, pos := p\<rparr>)" by simp
  from edit_fields(1,2) [OF this] show ?thesis
    using t' assms by (simp add: steps_def no_line_def zip_view_def)
qed

lemma steps_none:
  "geom t \<Longrightarrow> pos t \<le> length (line t) \<Longrightarrow> steps t (zip_view t) (no_line t)"
  by (simp add: steps_def no_line_def zip_view_def)

lemma steps_bind_none:
  "geom t \<Longrightarrow> pos t \<le> length (line t) \<Longrightarrow> steps t (zip_view t) (Option.bind (Some t) no_line)"
  by (simp add: steps_none)

lemma spec_steps:
  assumes "geom t" and p: "pos t \<le> length (line t)" and "uncompleted t key"
    and "key \<noteq> keyEnter" and "pasteActive t \<or> key \<notin> {keyUp, keyDown}"
  shows "steps t (spec_key (pasteActive t) key (zip_view t)) (handleKey wd key t)"
proof -
  note g = assms(1)
  define b where "b = take (pos t) (line t)"
  define a where "a = drop (pos t) (line t)"
  have z: "zip_view t = (b, a)" and l: "line t = b @ a" and n: "length b = pos t"
    using p by (simp_all add: zip_view_def a_def b_def)
  note add = steps_edits [OF edits_addKeyToLine [OF g p]]
  note goto = steps_edits [OF edits_moveTo [OF g]]
  note erase = steps_edits [OF edits_erase [OF g p]]
  have right: "countToRightWord t = length (word_right a)"
    by (simp add: countToRightWord_def Let_def a_def word_right_def)
  have "\<exists>a'. a = word_right a @ a'"
    unfolding word_right_def by (metis append_assoc takeWhile_dropWhile_id)
  then have right_take: "length (word_right a) \<le> length a" "take (length (word_right a)) a = word_right a"
    by (metis le_add1 length_append) (metis \<open>\<exists>a'. a = word_right a @ a'\<close> append_eq_conv_conj)
  have left: "take (pos t - countToLeftWord t) (line t) = without_word b"
    using countToLeftWord_view(2) [OF p] by (simp add: b_def)
  have left_len: "length (without_word b) = pos t - countToLeftWord t"
    using arg_cong [OF left, of length] p by simp
  consider "pasteActive t" | "\<not> pasteActive t" "key = keyBackspace" 
    | "\<not> pasteActive t" "key = keyAltB \<or> key = keyAltLeft"
    | "\<not> pasteActive t" "key = keyAltF \<or> key = keyAltRight" | "\<not> pasteActive t" "key = keyLeft"
    | "\<not> pasteActive t" "key = keyRight" | "\<not> pasteActive t" "key = keyHome" | "\<not> pasteActive t" "key = keyEnd"
    | "\<not> pasteActive t" "key = keyDeleteWord" | "\<not> pasteActive t" "key = keyDeleteLine"
    | "\<not> pasteActive t" "key = keyCtrlD" | "\<not> pasteActive t" "key = keyCtrlU"
    | "\<not> pasteActive t" "key = keyClearScreen"
    | "\<not> pasteActive t" "key \<notin> {keyBackspace, keyAltB, keyAltLeft, keyAltF, keyAltRight, keyLeft, keyRight,
        keyHome, keyEnd, keyDeleteWord, keyDeleteLine, keyCtrlD, keyCtrlU, keyClearScreen}"
    by blast
  then show ?thesis
  proof cases
    case 1
    then show ?thesis using assms(4) p
      by (simp add: handleKey_def z) (rule add, simp_all add: l n)
  next
    case 2
    show ?thesis
    proof (cases "pos t = 0")
      case True
      with 2 show ?thesis using steps_none [OF g p] z n by (simp add: handleKey_def key_defs)
    next
      case False
      with 2 show ?thesis
        by (simp add: handleKey_def z) (rule erase, simp_all add: l n [symmetric] butlast_conv_take)
    qed
  next
    case 3
    have "steps t (without_word b, drop (length (without_word b)) b @ a)
        (Option.bind (moveTo wd (pos t - countToLeftWord t) t) no_line)"
      by (rule goto) (use left left_len p in \<open>simp_all add: l n\<close>)
    with 3 show ?thesis by (auto simp: handleKey_def z key_defs)
  next
    case 4
    have "steps t (b @ word_right a, drop (length (word_right a)) a)
        (Option.bind (moveTo wd (pos t + countToRightWord t) t) no_line)"
      by (rule goto) (use right_take in \<open>simp_all add: l n [symmetric] right\<close>)
    with 4 show ?thesis by (auto simp: handleKey_def z key_defs)
  next
    case 5
    show ?thesis
    proof (cases "pos t = 0")
      case True
      with 5 show ?thesis using steps_none [OF g p] z n by (simp add: handleKey_def key_defs)
    next
      case False
      have "steps t (butlast b, drop (length b - 1) b @ a) (Option.bind (moveTo wd (pos t - 1) t) no_line)"
        by (rule goto) (simp_all add: l n [symmetric] butlast_conv_take)
      with 5 False show ?thesis by (simp add: handleKey_def z key_defs)
    qed
  next
    case 6
    show ?thesis
    proof (cases a)
      case Nil
      with 6 show ?thesis using steps_none [OF g p] z n l by (simp add: handleKey_def key_defs)
    next
      case (Cons r rs)
      have "steps t (b @ take 1 a, drop 1 a) (Option.bind (moveTo wd (pos t + 1) t) no_line)"
        by (rule goto) (simp_all add: l n [symmetric] Cons)
      with 6 Cons show ?thesis by (simp add: handleKey_def z key_defs l n)
    qed
  next
    case 7
    have "steps t ([], b @ a) (if pos t = 0 then no_line t else Option.bind (moveTo wd 0 t) no_line)"
      using steps_none [OF g p] z n by (auto intro!: goto simp: l)
    with 7 show ?thesis by (simp add: handleKey_def z key_defs)
  next
    case 8
    have "steps t (b @ a, []) (if pos t = length (line t) then no_line t
        else Option.bind (moveTo wd (length (line t)) t) no_line)"
      using steps_none [OF g p] z n by (auto intro!: goto simp: l)
    with 8 show ?thesis by (simp add: handleKey_def z key_defs)
  next
    case 9
    have "steps t (without_word b, a) (Option.bind (eraseNPreviousChars wd (countToLeftWord t) t) no_line)"
      by (rule erase) (use left left_len in \<open>simp_all add: a_def\<close>)
    with 9 show ?thesis by (simp add: handleKey_def z key_defs)
  next
    case 10
    have "steps t (b, []) (Option.bind (handleKey_deleteLine wd t) no_line)"
      by (rule steps_edits [OF edits_deleteLine [OF g p]]) (simp_all add: b_def p)
    with 10 show ?thesis by (simp add: handleKey_def z key_defs)
  next
    case 11
    show ?thesis
    proof (cases a)
      case Nil
      with 11 show ?thesis using steps_none [OF g p] z n l by (simp add: handleKey_def key_defs)
    next
      case (Cons r rs)
      define t1 where "t1 = t\<lparr>pos := pos t + 1\<rparr>"
      have t1: "geom t1" "pos t1 \<le> length (line t1)" using g Cons by (simp_all add: t1_def l n [symmetric])
      have "steps t1 (b, rs) (Option.bind (eraseNPreviousChars wd 1 t1) no_line)"
        by (rule steps_edits [OF edits_erase [OF t1]]) (simp_all add: t1_def l n [symmetric] Cons)
      then have "steps t (b, rs) (Option.bind (eraseNPreviousChars wd 1 t1) no_line)"
        by (simp add: steps_def t1_def)
      with 11 Cons show ?thesis by (simp add: handleKey_def z key_defs l n t1_def)
    qed
  next
    case 12
    have "steps t ([], a) (Option.bind (eraseNPreviousChars wd (pos t) t) no_line)"
      by (rule erase) (simp_all add: a_def)
    with 12 show ?thesis by (simp add: handleKey_def z key_defs)
  next
    case 13
    have "steps t (b, a) (Option.bind (handleKey_clearScreen wd t) no_line)"
      by (rule steps_edits [OF edits_clearScreen [OF g]]) (simp_all add: a_def b_def p)
    with 13 show ?thesis by (simp add: handleKey_def z key_defs)
  next
    case 14
    have "handleKey_default wd key t = typeKey wd key t"
      using assms(3) p 14
      by (auto simp: handleKey_default_def uncompleted_def edit_keys_def Let_def split: option.split)
    moreover have "steps t (if isPrintable key \<and> length (b @ a) \<noteq> maxLineLength then (b @ [key], a) else (b, a))
        (Option.bind (typeKey wd key t) no_line)"
      using steps_bind_none [OF g p] z by (auto simp: typeKey_def l n intro!: add)
    ultimately show ?thesis
      using 14 assms(4,5) by (simp add: handleKey_def z)
  qed
qed

section \<open>Walking through the history\<close>

definition nav :: "terminal \<Rightarrow> int \<Rightarrow> string \<Rightarrow> rune list \<Rightarrow> terminal \<Rightarrow> bool" where
  "nav t i pending l t' \<longleftrightarrow> geom t' \<and>
    edit t' = (edit t)\<lparr>line := l, pos := length l, historyIndex := i, historyPending := pending\<rparr>"

lemma history_entry_recent:
  "rb_inv h \<Longrightarrow> 0 \<le> n \<Longrightarrow> history_entry h n =
    Some (if nat n < length (rb_recent h) then Some (rb_recent h ! nat n) else None)"
  by (simp add: history_entry_def NthPreviousEntry_recent)

lemma nav_fields:
  assumes "nav t i pending l t'"
  shows "geom t'" "line t' = l" "pos t' = length l" "historyIndex t' = i" "historyPending t' = pending"
    "history t' = history t" "pasteActive t' = pasteActive t"
proof -
  show "geom t'" using assms by (simp add: nav_def)
  have "edit t' = edit (t\<lparr>line := l, pos := length l, historyIndex := i, historyPending := pending\<rparr>)"
    using assms by (simp add: nav_def)
  note f = edit_fields [OF this]
  show "line t' = l" "pos t' = length l" "historyIndex t' = i" "historyPending t' = pending"
    "history t' = history t" "pasteActive t' = pasteActive t"
    using f by simp_all
qed

lemma nav_setLine:
  assumes "geom t"
  shows "runs (setLine wd l (length l) (t\<lparr>historyPending := pending, historyIndex := i\<rparr>)) (nav t i pending l)"
  using edits_setLine [of "t\<lparr>historyPending := pending, historyIndex := i\<rparr>" wd l "length l"] assms
  by (auto elim!: runs_mono simp: nav_def edit_def)

lemma nav_setLine_index:
  assumes "geom t"
  shows "runs (setLine wd l (length l) (t\<lparr>historyIndex := i\<rparr>)) (nav t i (historyPending t) l)"
  using edits_setLine [of "t\<lparr>historyIndex := i\<rparr>" wd l "length l"] assms
  by (auto elim!: runs_mono simp: nav_def edit_def)

lemma handleKey_up_result:
  assumes "term_inv t" and "historyIndex t = int n - 1"
  shows "runs (handleKey_up wd t)
    (if n < length (rb_recent (history t))
     then nav t (int n) (if n = 0 then of_runes (line t) else historyPending t) (to_runes (rb_recent (history t) ! n))
     else (\<lambda>t'. t' = t))"
proof -
  have g: "geom t" and e: "history_entry (history t) (int n) =
      Some (if n < length (rb_recent (history t)) then Some (rb_recent (history t) ! n) else None)"
    using assms history_entry_recent [of "history t" "int n"] by (simp_all add: term_inv_def)
  show ?thesis
    using assms(2) g nav_setLine [OF g, where wd = wd and l = "to_runes (rb_recent (history t) ! n)" and i = "int n"]
      nav_setLine_index [OF g, where wd = wd and l = "to_runes (rb_recent (history t) ! n)" and i = "int n"]
    by (auto simp: handleKey_up_def e Let_def)
qed

lemma handleKey_down_result:
  assumes "term_inv t" and "historyIndex t = int n - 1"
  shows "runs (handleKey_down wd t)
    (if n = 0 \<or> 1 < n \<and> length (rb_recent (history t)) \<le> n - 2 then (\<lambda>t'. t' = t)
     else nav t (int n - 2) (historyPending t)
       (to_runes (if n = 1 then historyPending t else rb_recent (history t) ! (n - 2))))"
proof -
  have g: "geom t" using assms by (simp add: term_inv_def)
  consider "n = 0" | "n = 1" | m where "n = Suc (Suc m)" by (metis One_nat_def not0_implies_Suc)
  then show ?thesis
  proof cases
    case 1
    then show ?thesis using assms(2) by (simp add: handleKey_down_def)
  next
    case 2
    obtain t' where t': "setLine wd (to_runes (historyPending t)) (length (to_runes (historyPending t))) t = Some t'"
      "edit t' = (edit t)\<lparr>line := to_runes (historyPending t), pos := length (to_runes (historyPending t))\<rparr>" "geom t'"
      using edits_setLine [OF g, of wd "to_runes (historyPending t)" "length (to_runes (historyPending t))"]
      by (auto simp: runs_def)
    have "edit t' = edit (t\<lparr>line := to_runes (historyPending t), pos := length (to_runes (historyPending t))\<rparr>)"
      using t'(2) by simp
    from edit_fields(8) [OF this] have "historyIndex t' = historyIndex t" by simp
    with t' assms(2) 2 show ?thesis
      by (simp add: handleKey_down_def nav_def) (simp add: edit_def)
  next
    case 3
    then have e: "history_entry (history t) (historyIndex t - 1) =
        Some (if m < length (rb_recent (history t)) then Some (rb_recent (history t) ! m) else None)"
      using assms history_entry_recent [of "history t" "int m"] by (simp add: term_inv_def)
    then show ?thesis
      using 3 assms(2) nav_setLine_index [OF g, where wd = wd and l = "to_runes (rb_recent (history t) ! m)"
          and i = "int m"]
      by (simp add: handleKey_down_def Let_def)
  qed
qed

section \<open>Safety\<close>

lemma handleKey_updown:
  assumes "\<not> pasteActive t"
  shows "handleKey wd keyUp t = Option.bind (handleKey_up wd t) no_line"
    and "handleKey wd keyDown t = Option.bind (handleKey_down wd t) no_line"
    and "handleKey wd keyEnter t = handleKey_enter wd t"
  using assms by (simp_all add: handleKey_def key_defs)

lemma handleKey_Enter: "handleKey wd keyEnter t = handleKey_enter wd t"
  by (simp add: handleKey_def key_defs)

lemma nav_inv: "nav t i p l t' \<Longrightarrow> term_inv t \<Longrightarrow> -1 \<le> i \<Longrightarrow> term_inv t'"
  using nav_fields [of t i p l t'] by (simp add: term_inv_def)

lemma steps_inv:
  assumes "steps t z m" and "term_inv t"
  shows "runs m (\<lambda>(l, ok, t'). term_inv t' \<and> \<not> ok)"
proof -
  obtain l t' where m: "m = Some (l, False, t')" and g: "geom t'"
    and e: "edit t' = (edit t)\<lparr>line := fst z @ snd z, pos := length (fst z)\<rparr>"
    using assms(1) by (auto simp: steps_def runs_def)
  have "edit t' = edit (t\<lparr>line := fst z @ snd z, pos := length (fst z)\<rparr>)" using e by simp
  from edit_fields [OF this] show ?thesis using g assms(2) by (simp add: term_inv_def m)
qed

lemma handleKey_offered:
  assumes "\<not> uncompleted t key" and "key \<notin> {keyEnter, keyUp, keyDown}"
  shows "handleKey wd key t = Option.bind (handleKey_default wd key t) no_line"
proof -
  have "\<not> pasteActive t" and "key \<notin> edit_keys" using assms(1) by (auto simp: uncompleted_def)
  then show ?thesis using assms(2) by (simp add: handleKey_def edit_keys_def)
qed

text \<open>The callback and everything it promises stay as they are.\<close>

lemma handleKey_default_complete:
  assumes t: "term_inv t" "complete_ok t" and d: "\<not> uncompleted t key"
  shows "runs (handleKey_default wd key t) (\<lambda>t'. term_inv t' \<and> AutoCompleteCallback t' = AutoCompleteCallback t)"
proof -
  have g: "geom t" and p: "pos t \<le> length (line t)" using t by (simp_all add: term_inv_def)
  obtain f where f: "AutoCompleteCallback t = Some f" using d by (auto simp: uncompleted_def)
  have keep: "runs m (\<lambda>t'. term_inv t' \<and> AutoCompleteCallback t' = AutoCompleteCallback t)"
    if e: "edits t l q m" and "q \<le> length l" for l q m
  proof -
    from e obtain t' where t': "m = Some t'" "edit t' = (edit t)\<lparr>line := l, pos := q\<rparr>" by (auto simp: runs_def)
    then have "edit t' = edit (t\<lparr>line := l, pos := q\<rparr>)" by simp
    from edit_fields(12) [OF this] show ?thesis
      using term_inv_edits [OF t(1) e] that t'(1) by simp
  qed
  have type: "runs (typeKey wd key t) (\<lambda>t'. term_inv t' \<and> AutoCompleteCallback t' = AutoCompleteCallback t)"
    using keep [OF edits_addKeyToLine [OF g p]] p t by (auto simp: typeKey_def)
  show ?thesis
  proof (cases "f (of_runes (take (pos t) (line t)) @ of_runes (drop (pos t) (line t)))
      (int (length (of_runes (take (pos t) (line t))))) key")
    case None
    with f p type show ?thesis by (simp add: handleKey_default_def)
  next
    case (Some r)
    obtain nl np where r: "r = (nl, np)" by (cases r)
    have ok: "0 \<le> np \<and> np \<le> int (length nl) \<and> RuneCount (take (nat np) nl) \<le> length (to_runes nl)"
      using t(2) f Some r unfolding complete_ok_def by blast
    then show ?thesis
      using f p Some r keep [OF edits_setLine [OF g]] by (simp add: handleKey_default_def)
  qed
qed

lemma steps_callback:
  assumes "steps t z m"
  shows "runs m (\<lambda>(l, ok, t'). AutoCompleteCallback t' = AutoCompleteCallback t)"
proof -
  obtain l ok t' where m: "m = Some (l, ok, t')" 
    and e: "edit t' = (edit t)\<lparr>line := fst z @ snd z, pos := length (fst z)\<rparr>"
    using assms(1) by (auto simp: steps_def runs_def)
  have "edit t' = edit (t\<lparr>line := fst z @ snd z, pos := length (fst z)\<rparr>)" using e by simp
  from edit_fields(12) [OF this] show ?thesis by (simp add: m)
qed

lemma nav_callback: "nav t i p l t' \<Longrightarrow> AutoCompleteCallback t' = AutoCompleteCallback t"
  using edit_fields(12) [of t' "t\<lparr>line := l, pos := length l, historyIndex := i, historyPending := p\<rparr>"]
  by (simp add: nav_def)

lemma handleKey_keeps:
  assumes t: "term_inv t" "complete_ok t"
  shows "runs (handleKey wd key t) (\<lambda>(l, ok, t'). term_inv t' \<and> AutoCompleteCallback t' = AutoCompleteCallback t
    \<and> (ok \<longleftrightarrow> key = keyEnter) \<and> (ok \<longrightarrow> l = of_runes (line t) \<and> line t' = []))"
    (is "runs _ ?Q")
proof -
  have g: "geom t" and p: "pos t \<le> length (line t)" using t by (simp_all add: term_inv_def)
  define n where "n = nat (historyIndex t + 1)"
  have n: "historyIndex t = int n - 1" using t(1) by (simp add: n_def term_inv_def)
  have none: "runs (Option.bind m no_line) ?Q"
    if "runs m (\<lambda>t'. term_inv t' \<and> AutoCompleteCallback t' = AutoCompleteCallback t)" "key \<noteq> keyEnter" for m
    using that by (auto simp: runs_def no_line_def)
  have ud: "keyUp \<noteq> keyEnter" "keyDown \<noteq> keyEnter" by (simp_all add: key_defs)
  consider "key = keyEnter" | "key \<noteq> keyEnter" "uncompleted t key" "pasteActive t \<or> key \<notin> {keyUp, keyDown}"
    | "\<not> pasteActive t" "key = keyUp" | "\<not> pasteActive t" "key = keyDown"
    | "\<not> uncompleted t key" "key \<notin> {keyEnter, keyUp, keyDown}" 
  proof (cases "uncompleted t key")
    case False
    then have "\<not> pasteActive t" by (auto simp: uncompleted_def)
    with False that show ?thesis by blast
  qed (use that in blast)
  then show ?thesis
  proof cases
    case 1
    obtain l t' where r: "handleKey_enter wd t = Some (l, True, t')" "l = of_runes (line t)" "geom t'"
      and e: "edit t' = (edit t)\<lparr>line := [], pos := 0\<rparr>"
      using enter_result [OF g, of wd] by (auto simp: runs_def)
    have "edit t' = edit (t\<lparr>line := [], pos := 0\<rparr>)" using e by simp
    from edit_fields [OF this] r show ?thesis
      using t(1) by (simp add: 1 handleKey_Enter term_inv_def)
  next
    case 2
    note st = spec_steps [OF g p 2(2,1,3), of wd]
    then show ?thesis
      using steps_inv [OF st t(1)] steps_callback [OF st] 2(1) by (auto simp: runs_def)
  next
    case 3
    have "runs (handleKey_up wd t) (\<lambda>t'. term_inv t' \<and> AutoCompleteCallback t' = AutoCompleteCallback t)"
      using handleKey_up_result [OF t(1) n, of wd] t(1)
      by (auto elim!: runs_mono dest: nav_inv nav_callback split: if_splits)
    with 3 show ?thesis using none [of "handleKey_up wd t"] ud by (simp add: handleKey_updown)
  next
    case 4
    have "runs (handleKey_down wd t) (\<lambda>t'. term_inv t' \<and> AutoCompleteCallback t' = AutoCompleteCallback t)"
      using handleKey_down_result [OF t(1) n, of wd] t(1)
      by (auto elim!: runs_mono dest: nav_inv nav_callback split: if_splits)
    with 4 show ?thesis using none [of "handleKey_down wd t"] ud by (simp add: handleKey_updown)
  next
    case 5
    then show ?thesis
      using none [of "handleKey_default wd key t"] handleKey_default_complete [OF t 5(1), of wd]
      by (simp add: handleKey_offered [OF 5])
  qed
qed

section \<open>The drawn cursor\<close>

text \<open>With echo on, the row and column that the terminal keeps are those of the
  cursor's place in prompt and text.\<close>

definition cursor_at :: "(rune \<Rightarrow> bool) \<Rightarrow> terminal \<Rightarrow> bool" where
  "cursor_at wd t \<longleftrightarrow> (echo t \<longrightarrow> cursorY t * termWidth t + cursorX t =
    visualLength wd (prompt t) + visualLength wd (take (pos t) (line t)))"

lemma moveCursorToPos_xy:
  assumes "moveCursorToPos wd p t = Some t'" and "echo t"
  shows "cursorY t' * termWidth t + cursorX t' = visualLength wd (prompt t) + visualLength wd (take p (line t))"
proof -
  define x where "x = visualLength wd (prompt t) + visualLength wd (take p (line t))"
  have "take (if p > length (line t) then length (line t) else p) (line t) = take p (line t)" by simp
  then have "cursorX t' = x mod termWidth t" "cursorY t' = x div termWidth t"
    using assms by (auto simp: moveCursorToPos_def Let_def move_def queue_def x_def split: if_splits)
  then show ?thesis by (simp add: x_def)
qed

lemma moveCursorToPos_edit: "moveCursorToPos wd p t = Some t' \<Longrightarrow> edit t' = edit t"
  by (auto simp: moveCursorToPos_def Let_def split: if_splits)

lemma moveCursorToPos_at: 
  assumes "moveCursorToPos wd (pos t) t = Some t'"
  shows "cursor_at wd t'"
  using moveCursorToPos_xy [OF assms] edit_fields(1-4,6) [OF moveCursorToPos_edit [OF assms]]
  by (simp add: cursor_at_def)

lemma cursor_at_update [simp]:
  "cursor_at wd (t\<lparr>historyIndex := i\<rparr>) = cursor_at wd t"
  by (simp add: cursor_at_def)

lemma moveTo_at: "moveTo wd p t = Some t' \<Longrightarrow> cursor_at wd t'"
  using moveCursorToPos_at [of wd "t\<lparr>pos := p\<rparr>" t'] by (simp add: moveTo_def)

lemma setLine_at: 
  assumes "setLine wd l p t = Some t'"
  shows "cursor_at wd t'"
proof (cases "echo t")
  case True
  then obtain t2 t3 where m: "moveCursorToPos wd p (t2\<lparr>line := l\<rparr>) = Some t3" "t' = t3\<lparr>line := l, pos := p\<rparr>"
    using assms by (auto simp: setLine_def bind_eq_Some_conv)
  then show ?thesis
    using moveCursorToPos_xy [OF m(1)] edit_fields(3,4,6) [OF moveCursorToPos_edit [OF m(1)]]
    by (simp add: cursor_at_def)
qed (use assms in \<open>auto simp: setLine_def cursor_at_def\<close>)

lemma addKeyToLine_at:
  assumes "addKeyToLine wd k t = Some t'"
  shows "cursor_at wd t'"
proof -
  have le: "\<not> length (line t) < pos t" using assms by (auto simp: addKeyToLine_def)
  obtain t2 where "moveCursorToPos wd (pos t2 + 1) (t2\<lparr>pos := pos t2 + 1\<rparr>) = Some t'"
    using assms le by (auto simp: addKeyToLine_def Let_def bind_eq_Some_conv split del: if_split)
  then show ?thesis using moveCursorToPos_at [of wd "t2\<lparr>pos := pos t2 + 1\<rparr>" t'] by simp
qed

lemma eraseNPreviousChars_at:
  assumes "eraseNPreviousChars wd n t = Some t'" and "n \<noteq> 0 \<or> cursor_at wd t"
  shows "cursor_at wd t'"
proof (cases "n = 0")
  case False
  then consider t2 where "moveCursorToPos wd (pos t2) t2 = Some t'" | "\<not> echo t'"
    using assms(1) by (auto simp: eraseNPreviousChars_def Let_def bind_eq_Some_conv split: if_splits)
  then show ?thesis
  proof cases
    case 1
    then show ?thesis by (rule moveCursorToPos_at)
  qed (simp add: cursor_at_def)
qed (use assms in \<open>simp add: eraseNPreviousChars_def\<close>)

lemma deleteLine_at: "handleKey_deleteLine wd t = Some t' \<Longrightarrow> cursor_at wd t'"
proof -
  assume "handleKey_deleteLine wd t = Some t'"
  then obtain t2 where "moveCursorToPos wd (pos (t2\<lparr>line := take (pos t2) (line t2)\<rparr>))
      (t2\<lparr>line := take (pos t2) (line t2)\<rparr>) = Some t'"
    by (auto simp: handleKey_deleteLine_def Let_def bind_eq_Some_conv split: if_splits)
  then show ?thesis by (rule moveCursorToPos_at)
qed

lemma clearScreen_at: "handleKey_clearScreen wd t = Some t' \<Longrightarrow> cursor_at wd t'"
  by (auto simp: handleKey_clearScreen_def Let_def bind_eq_Some_conv intro: setLine_at)

lemma up_at: "handleKey_up wd t = Some t' \<Longrightarrow> cursor_at wd t \<Longrightarrow> cursor_at wd t'"
  by (auto simp: handleKey_up_def Let_def bind_eq_Some_conv split: option.splits if_splits intro: setLine_at)

lemma down_at: "handleKey_down wd t = Some t' \<Longrightarrow> cursor_at wd t \<Longrightarrow> cursor_at wd t'"
  by (auto simp: handleKey_down_def Let_def bind_eq_Some_conv split: option.splits if_splits dest: setLine_at)

lemma typeKey_at: "typeKey wd key t = Some t' \<Longrightarrow> cursor_at wd t \<Longrightarrow> cursor_at wd t'"
  by (auto simp: typeKey_def split: if_splits intro: addKeyToLine_at)

lemma default_at: "handleKey_default wd key t = Some t' \<Longrightarrow> cursor_at wd t \<Longrightarrow> cursor_at wd t'"
  by (auto simp: handleKey_default_def Let_def split: option.splits if_splits intro: setLine_at typeKey_at)

lemmas key_at = addKeyToLine_at moveTo_at up_at down_at deleteLine_at clearScreen_at default_at

lemma handleKey_at:
  assumes "handleKey wd key t = Some (l, ok, t')" and "cursor_at wd t" and "key \<noteq> keyEnter"
  shows "cursor_at wd t'"
proof -
  have erase: "eraseNPreviousChars wd n t = Some t' \<Longrightarrow> cursor_at wd t'"
    "eraseNPreviousChars wd 1 u = Some t' \<Longrightarrow> cursor_at wd t'" for n u
    using assms(2) eraseNPreviousChars_at [of wd n t t'] eraseNPreviousChars_at [of wd 1 u t'] by simp_all
  show ?thesis
    using assms by (auto simp: handleKey_def no_line_def bind_eq_Some_conv erase [simplified]
        split: if_splits intro: key_at erase)
qed

section \<open>Sequences of keys\<close>

primrec press :: "(rune \<Rightarrow> bool) \<Rightarrow> rune list \<Rightarrow> terminal \<Rightarrow> terminal option" where
  "press wd [] t = Some t"
| "press wd (k # ks) t = do { (l, ok, t) \<leftarrow> handleKey wd k t; press wd ks t }"

lemma press_append: "press wd (ks @ ks') t = Option.bind (press wd ks t) (press wd ks')"
  by (induction ks arbitrary: t) (simp_all add: case_prod_unfold bind_assoc)

lemma nav_trans: "nav t i p l t1 \<Longrightarrow> nav t1 j q l' t2 \<Longrightarrow> nav t j q l' t2"
  by (simp add: nav_def edit_def)

lemma press_up:
  assumes "term_inv t" "\<not> pasteActive t" "historyIndex t = int n - 1" "n < length (rb_recent (history t))"
  shows "runs (press wd [keyUp] t)
    (nav t (int n) (if n = 0 then of_runes (line t) else historyPending t) (to_runes (rb_recent (history t) ! n)))"
  using handleKey_up_result [OF assms(1,3), of wd] assms
  by (auto simp: handleKey_updown runs_def no_line_def)

lemma press_down:
  assumes "term_inv t" "\<not> pasteActive t" "historyIndex t = int n" "n \<le> length (rb_recent (history t))"
  shows "runs (press wd [keyDown] t) (nav t (int n - 1) (historyPending t)
    (to_runes (if n = 0 then historyPending t else rb_recent (history t) ! (n - 1))))"
proof -
  have "int n = int (n + 1) - 1" "int n - 1 = int (n + 1) - 2" by simp_all
  moreover have "\<not> (1 < n + 1 \<and> length (rb_recent (history t)) \<le> n + 1 - 2)" using assms(4) by auto
  ultimately show ?thesis
    using handleKey_down_result [OF assms(1), of "n + 1" wd] assms(2,3)
    by (cases n) (auto simp: handleKey_updown runs_def no_line_def)
qed

lemma press_ups:
  assumes t: "term_inv t" "\<not> pasteActive t" "historyIndex t = -1"
  shows "Suc n \<le> length (rb_recent (history t)) \<Longrightarrow> runs (press wd (replicate (Suc n) keyUp) t)
    (nav t (int n) (of_runes (line t)) (to_runes (rb_recent (history t) ! n)))"
proof (induction n)
  case 0
  then show ?case using press_up [OF t(1,2), of 0 wd] t(3) by (simp add: Suc_le_eq)
next
  case (Suc n)
  have eq: "replicate (Suc (Suc n)) keyUp = replicate (Suc n) keyUp @ [keyUp]"
    by (metis replicate_append_same replicate_Suc)
  show ?case unfolding eq press_append
  proof (rule runs_bind)
    show "runs (press wd (replicate (Suc n) keyUp) t)
      (nav t (int n) (of_runes (line t)) (to_runes (rb_recent (history t) ! n)))"
      using Suc by simp
  next
    fix t1 assume n: "nav t (int n) (of_runes (line t)) (to_runes (rb_recent (history t) ! n)) t1"
    show "runs (press wd [keyUp] t1)
      (nav t (int (Suc n)) (of_runes (line t)) (to_runes (rb_recent (history t) ! Suc n)))"
      using press_up [of t1 "Suc n" wd] nav_inv [OF n t(1)] nav_fields [OF n] Suc.prems t
      by (auto elim!: runs_mono intro: nav_trans [OF n])
  qed
qed

lemma press_downs:
  assumes "term_inv t" "\<not> pasteActive t"
  shows "historyIndex t = int n \<Longrightarrow> n < length (rb_recent (history t)) \<Longrightarrow>
    runs (press wd (replicate (Suc n) keyDown) t) (nav t (-1) (historyPending t) (to_runes (historyPending t)))"
  using assms
proof (induction n arbitrary: t)
  case 0
  then show ?case using press_down [of t 0 wd] by simp
next
  case (Suc n)
  have eq: "replicate (Suc (Suc n)) keyDown = [keyDown] @ replicate (Suc n) keyDown" by simp
  show ?case unfolding eq press_append
  proof (rule runs_bind)
    show "runs (press wd [keyDown] t) (nav t (int n) (historyPending t) (to_runes (rb_recent (history t) ! n)))"
      using press_down [of t "Suc n" wd] Suc by simp
  next
    fix t1 assume n: "nav t (int n) (historyPending t) (to_runes (rb_recent (history t) ! n)) t1"
    have "runs (press wd (replicate (Suc n) keyDown) t1) (nav t1 (-1) (historyPending t1) (to_runes (historyPending t1)))"
      using Suc.prems nav_fields [OF n] nav_inv [OF n] by (intro Suc.IH) simp_all
    then show "runs (press wd (replicate (Suc n) keyDown) t1) (nav t (-1) (historyPending t) (to_runes (historyPending t)))"
      using nav_fields [OF n] by (auto elim!: runs_mono intro: nav_trans [OF n])
  qed
qed

lemma term_inv_New [simp]: "term_inv (NewTerminal p)"
  by (simp add: term_inv_def NewTerminal_def geom_def rb_inv_def emptyRing_def)

lemma complete_ok_New [simp]: "complete_ok (NewTerminal p)"
  by (simp add: complete_ok_def NewTerminal_def)

lemma spec_key_length:
  "spec_key False key z = z' \<Longrightarrow> length (fst z @ snd z) \<le> maxLineLength \<Longrightarrow> length (fst z' @ snd z') \<le> maxLineLength"
proof -
  have w: "length (without_word b) \<le> length b" for b
    using length_dropWhile_le [of "\<lambda>r. r \<noteq> 32" "dropWhile (\<lambda>r. r = 32) (rev b)"]
      length_dropWhile_le [of "\<lambda>r. r = 32" "rev b"] by (simp add: without_word_def shrink_def)
  have r: "\<exists>a'. a = word_right a @ a'" for a
    unfolding word_right_def by (metis append_assoc takeWhile_dropWhile_id)
  have r: "length (word_right a) + (length a - length (word_right a)) = length a" for a
    using r [of a] by (metis add_diff_cancel_left' length_append)
  assume "spec_key False key z = z'" and "length (fst z @ snd z) \<le> maxLineLength"
  then show ?thesis using w [of "fst z"] r [of "snd z"] by (cases z)
      (auto split: if_splits simp: Suc_le_eq order.strict_iff_order)
qed

section \<open>Properties\<close>



text \<open>C20: the editor refines an editor on the text before and after the cursor:
  outside of history and completion, each key acts on the two texts as the
  abstract step says (erase, move and delete by character and by word, kill,
  insert at the cursor up to the maximal length; in a paste, insert always),
  and changes nothing else but what is drawn.\<close>

theorem handleKey_refines:
  assumes "term_inv t" and "uncompleted t key" and "key \<noteq> keyEnter"
    and "pasteActive t \<or> key \<notin> {keyUp, keyDown}"
  shows "\<exists>t'. handleKey wd key t = Some ([], False, t') \<and>
    zip_view t' = spec_key (pasteActive t) key (zip_view t) \<and> history t' = history t \<and>
    prompt t' = prompt t \<and> echo t' = echo t \<and> pasteActive t' = pasteActive t"
proof -
  have "geom t" and "pos t \<le> length (line t)" using assms(1) by (simp_all add: term_inv_def)
  from spec_steps [OF this assms(2-4), of wd] obtain t' where
    t': "handleKey wd key t = Some ([], False, t')" "zip_view t' = spec_key (pasteActive t) key (zip_view t)"
    and e: "edit t' = (edit t)\<lparr>line := fst (zip_view t') @ snd (zip_view t'), pos := length (fst (zip_view t'))\<rparr>"
    by (auto simp: steps_def runs_def)
  have "edit t' = edit (t\<lparr>line := fst (zip_view t') @ snd (zip_view t'), pos := length (fst (zip_view t'))\<rparr>)"
    using e by simp
  from edit_fields [OF this] t' show ?thesis by simp
qed

theorem handleKey_refines_witness:
  "\<exists>t'. handleKey (\<lambda>r. False) keyDeleteWord ((NewTerminal ''> '')\<lparr>line := lit ''a bc d'', pos := 5\<rparr>)
      = Some ([], False, t') \<and> zip_view t' = (lit ''a '', lit ''d'')"
proof -
  define t where "t = (NewTerminal ''> '')\<lparr>line := lit ''a bc d'', pos := 5\<rparr>"
  have "term_inv t" "uncompleted t keyDeleteWord" "keyDeleteWord \<noteq> keyEnter"
    "pasteActive t \<or> keyDeleteWord \<notin> {keyUp, keyDown}"
    by (simp_all add: t_def term_inv_def NewTerminal_def geom_def rb_inv_def emptyRing_def lit_def
        uncompleted_def key_defs)
  from handleKey_refines [OF this, of "\<lambda>r. False"]
  obtain t' where t': "handleKey (\<lambda>r. False) keyDeleteWord t = Some ([], False, t')"
    "zip_view t' = spec_key (pasteActive t) keyDeleteWord (zip_view t)" by blast
  have "zip_view t = (lit ''a bc '', lit ''d'')" "\<not> pasteActive t"
    by (simp_all add: t_def zip_view_def lit_def NewTerminal_def)
  moreover have "without_word (lit ''a bc '') = lit ''a ''"
    by (simp add: without_word_def shrink_def lit_def str_eval)
  ultimately have "zip_view t' = (lit ''a '', lit ''d'')" using t'(2) by (simp add: key_defs)
  with t'(1) show ?thesis by (auto simp: t_def)
qed

text \<open>with echo on, the row and column kept by the terminal stay those of the
  cursor: after every key but Enter, row times width plus column is the visual
  length of the prompt and of the text before the cursor, escape sequences
  counted as nothing and wide characters as two.\<close>

theorem handleKey_cursor:
  assumes "term_inv t" and "complete_ok t" and "cursor_at wd t" and "key \<noteq> keyEnter"
  shows "\<exists>l t'. handleKey wd key t = Some (l, False, t') \<and> cursor_at wd t'"
  using handleKey_keeps [OF assms(1,2), of wd key] assms(4) handleKey_at [OF _ assms(3,4)]
  by (auto simp: runs_def)

theorem handleKey_cursor_witness:
  "\<exists>l t'. handleKey (\<lambda>r. False) 97 ((NewTerminal ''> '')\<lparr>cursorX := 2\<rparr>) = Some (l, False, t') \<and>
    cursor_at (\<lambda>r. False) t'"
proof (rule handleKey_cursor)
  show "term_inv ((NewTerminal ''> '')\<lparr>cursorX := 2\<rparr>)"
    by (simp add: term_inv_def NewTerminal_def geom_def rb_inv_def emptyRing_def)
  show "complete_ok ((NewTerminal ''> '')\<lparr>cursorX := 2\<rparr>)" by (simp add: complete_ok_def NewTerminal_def)
  have "to_runes ''> '' = [62, 32]" by (simp add: to_runes_def str_eval)
  then show "cursor_at (\<lambda>r. False) ((NewTerminal ''> '')\<lparr>cursorX := 2\<rparr>)"
    by (simp add: cursor_at_def NewTerminal_def visualLength_def keyEscape_def)
qed (simp add: key_defs)

text \<open>C27: walking up and down the input history loses nothing: \<open>n\<close> presses of
  Up, as far as there are entries, show the \<open>n\<close>-th most recent line, and
  \<open>n\<close> presses of Down bring back the line that was being typed, with the cursor
  at its end.\<close>

theorem history_walk:
  assumes "term_inv t" and "\<not> pasteActive t" and "historyIndex t = -1" and "list_all valid_rune (line t)"
    and "0 < n" and "n \<le> length (rb_recent (history t))"
  shows "\<exists>t1 t2. press wd (replicate n keyUp) t = Some t1 \<and> line t1 = to_runes (rb_recent (history t) ! (n - 1)) \<and>
    press wd (replicate n keyDown) t1 = Some t2 \<and> line t2 = line t \<and> pos t2 = length (line t) \<and>
    historyIndex t2 = -1"
proof -
  obtain m where n: "n = Suc m" using assms(5) gr0_implies_Suc by blast
  obtain t1 where t1: "press wd (replicate n keyUp) t = Some t1"
    and n1: "nav t (int m) (of_runes (line t)) (to_runes (rb_recent (history t) ! m)) t1"
    using press_ups [OF assms(1-3), of m wd] assms(6) by (auto simp: runs_def n)
  have "runs (press wd (replicate n keyDown) t1) (nav t1 (-1) (historyPending t1) (to_runes (historyPending t1)))"
    unfolding n using nav_fields [OF n1] nav_inv [OF n1 assms(1)] assms(2,6) n by (intro press_downs) simp_all
  then obtain t2 where t2: "press wd (replicate n keyDown) t1 = Some t2"
    and n2: "nav t1 (-1) (historyPending t1) (to_runes (historyPending t1)) t2"
    by (auto simp: runs_def)
  from t1 t2 show ?thesis
    using nav_fields [OF n1] nav_fields [OF n2] n to_runes_of_runes [OF assms(4)] by simp
qed

theorem history_walk_witness:
  "\<exists>t1. press (\<lambda>r. False) [keyUp] ((NewTerminal ''> '')\<lparr>history := rb_Add ''/who'' emptyRing\<rparr>) = Some t1 \<and>
    line t1 = to_runes ''/who''"
proof -
  define t where "t = (NewTerminal ''> '')\<lparr>history := rb_Add ''/who'' emptyRing\<rparr>"
  have inv: "rb_inv emptyRing" by (simp add: rb_inv_def emptyRing_def)
  have "rb_recent (rb_Add ''/who'' emptyRing) = [''/who'']"
    using input_log.recent_pushes [OF inv, of "[''/who'']"]
    by (simp add: emptyRing_def rb_recent_def rb_capacity_def rb_slots_def ring_view_def defaultNumEntries_def)
  moreover have "term_inv t"
    using term_inv_New [of "''> ''"] rb_inv_Add [OF inv, of "''/who''"]
    by (simp add: t_def term_inv_def NewTerminal_def geom_def)
  ultimately show ?thesis
    using history_walk [of t 1 "\<lambda>r. False"] by (auto simp: t_def NewTerminal_def)
qed

text \<open>a line that is typed stays within the limit: outside of a paste, no key
  makes a line of at most 4096 characters longer than that (history entries and
  completions, which are set as they are, apart).\<close>

theorem typing_bounded:
  assumes "term_inv t" and "uncompleted t key" and "key \<notin> {keyEnter, keyUp, keyDown}"
    and "\<not> pasteActive t" and "length (line t) \<le> 4096"
  shows "\<exists>t'. handleKey wd key t = Some ([], False, t') \<and> length (line t') \<le> 4096"
proof -
  have g: "geom t" and p: "pos t \<le> length (line t)" using assms(1) by (simp_all add: term_inv_def)
  obtain t' where t': "handleKey wd key t = Some ([], False, t')" "zip_view t' = spec_key False key (zip_view t)"
    using spec_steps [OF g p assms(2), of wd] assms(3,4) by (auto simp: steps_def runs_def)
  have l: "fst (zip_view u) @ snd (zip_view u) = line u" for u by (simp add: zip_view_def)
  show ?thesis
    using t' spec_key_length [OF t'(2) [symmetric]] assms(5) unfolding l by (simp add: maxLineLength_def)
qed

theorem typing_bounded_witness:
  "\<exists>t'. handleKey (\<lambda>r. False) 97 (NewTerminal ''> '') = Some ([], False, t') \<and> length (line t') \<le> 4096"
  by (rule typing_bounded) (simp_all add: uncompleted_def NewTerminal_def key_defs term_inv_New [unfolded NewTerminal_def])

text \<open>a paste is not limited: while a paste is active every key but Enter is
  appended, however long the line already is, and after the paste a line that
  is longer than the limit still takes typed characters, since the guard asks
  whether the length is equal to the limit.\<close>

theorem paste_unbounded:
  assumes "term_inv t" and "key \<noteq> keyEnter"
    and "pasteActive t \<or> (4096 < length (line t) \<and> key = 97 \<and> AutoCompleteCallback t = None)"
  shows "\<exists>t'. handleKey wd key t = Some ([], False, t') \<and> length (line t') = length (line t) + 1"
proof -
  have g: "geom t" and p: "pos t \<le> length (line t)" using assms(1) by (simp_all add: term_inv_def)
  have "uncompleted t key" "pasteActive t \<or> key \<notin> {keyUp, keyDown}"
    using assms(3) by (auto simp: uncompleted_def key_defs)
  then obtain t' where t': "handleKey wd key t = Some ([], False, t')"
      "zip_view t' = spec_key (pasteActive t) key (zip_view t)"
    using spec_steps [OF g p _ assms(2), of wd] by (auto simp: steps_def runs_def)
  have l: "length (fst (zip_view u)) + length (snd (zip_view u)) = length (line u)" for u
    by (simp add: zip_view_def)
  have "length (fst (zip_view t')) + length (snd (zip_view t')) = length (line t) + 1"
    using assms(3) l [of t] unfolding t'(2)
    by (cases "zip_view t") (auto simp: key_defs isPrintable_def maxLineLength_def)
  then show ?thesis using t'(1) unfolding l by blast
qed

theorem paste_unbounded_witness:
  "\<exists>t'. handleKey (\<lambda>r. False) 4 ((NewTerminal ''> '')\<lparr>pasteActive := True, line := replicate 5000 97, pos := 5000\<rparr>)
      = Some ([], False, t') \<and> length (line t') = 5001"
proof -
  define t where "t = (NewTerminal ''> '')\<lparr>pasteActive := True, line := replicate 5000 97, pos := 5000\<rparr>"
  have "term_inv t" using term_inv_New [of "''> ''"] by (simp add: t_def term_inv_def NewTerminal_def geom_def)
  from paste_unbounded [OF this, of 4 "\<lambda>r. False"] show ?thesis
    by (simp add: t_def key_defs)
qed

text \<open>deleting a word takes one leading space with it. On a line made of one
  space and a word, with the cursor at the end, the count to the start of the
  previous word is the length of the word and one more.\<close>

theorem countToLeftWord_leading_space:
  assumes "w \<noteq> []" and "32 \<notin> set w"
  shows "countToLeftWord (t\<lparr>line := 32 # w, pos := length w + 1\<rparr>) = length w + 1"
proof -
  define u where "u = t\<lparr>line := 32 # w, pos := length w + 1\<rparr>"
  have "dropWhile (\<lambda>r. r = 32) (rev w @ [32]) = rev w @ [32]"
    using assms by (cases w rule: rev_cases) auto
  moreover have "dropWhile (\<lambda>r. r \<noteq> 32) (rev w @ [32]) = [32]"
    using assms(2) by (auto simp: dropWhile_append)
  ultimately have "without_word (take (pos u) (line u)) = []"
    by (simp add: u_def without_word_def shrink_def)
  then have "take (pos u - countToLeftWord u) (line u) = []" "countToLeftWord u \<le> pos u"
    using countToLeftWord_view [of u] by (simp_all add: u_def)
  then show ?thesis by (simp add: u_def)
qed

theorem countToLeftWord_leading_space_witness:
  "countToLeftWord ((NewTerminal ''> '')\<lparr>line := 32 # lit ''abc'', pos := length (lit ''abc'') + 1\<rparr>) = 4"
  using countToLeftWord_leading_space [of "lit ''abc''" "NewTerminal ''> ''"]
  by (simp add: lit_def str_eval)

end
