(* ===== verification/TermIO.thy ===== *)
theory TermIO
  imports TermEdit
begin

text \<open>
  The terminal and its device (\<open>sshd/terminal/terminal.go\<close>): \<open>Write\<close> beside an
  unfinished input line, the loop of \<open>readLine\<close>, passwords, and the settings.

  The device is a state of any type \<open>'d\<close>; its \<open>Write\<close> is the parameter \<open>wr\<close>, which
  returns the count, the error and the new state, as an \<open>io.Writer\<close> does. What the
  successive \<open>Read\<close>s deliver is a list: a \<open>Read\<close> into a buffer of \<open>n\<close> bytes takes
  at most \<open>n\<close> bytes of its entry. Here the reader is alone; \<open>TermRun\<close> adds the calls of
  other goroutines while \<open>Read\<close> waits and the lock is free.
\<close>

section \<open>Writing\<close>

type_synonym 'd writer = "'d \<Rightarrow> string \<Rightarrow> nat \<times> go_error option \<times> 'd"

function writeWithCRLF_from :: "'d writer \<Rightarrow> nat \<Rightarrow> string \<Rightarrow> 'd \<Rightarrow> nat \<times> go_error option \<times> 'd" where
  "writeWithCRLF_from wr n buf d =
    (if buf = [] then (n, None, d)
     else let todo = length (takeWhile (\<lambda>c. c \<noteq> byte 10) buf);
              found = todo < length buf in
       case wr d (take todo buf) of
         (nn, Some e, d) \<Rightarrow> (n + nn, Some e, d)
       | (nn, None, d) \<Rightarrow>
           if found then
             (case wr d crlf of
                (_, Some e, d) \<Rightarrow> (n + nn, Some e, d)
              | (_, None, d) \<Rightarrow> writeWithCRLF_from wr (n + nn + 1) (drop (todo + 1) buf) d)
           else writeWithCRLF_from wr (n + nn) (drop todo buf) d)"
  by auto
termination
  by (relation "measure (\<lambda>(wr, n, buf, d). length buf)") auto

declare writeWithCRLF_from.simps [simp del]

definition writeWithCRLF :: "'d writer \<Rightarrow> string \<Rightarrow> 'd \<Rightarrow> nat \<times> go_error option \<times> 'd" where
  "writeWithCRLF wr buf d = writeWithCRLF_from wr 0 buf d"

fun erase_rows :: "nat \<Rightarrow> terminal \<Rightarrow> terminal" where
  "erase_rows 0 t = t"
| "erase_rows (Suc y) t = erase_rows y (clearLineToRight ((move 1 0 0 0 t)\<lparr>cursorY := y\<rparr>))"

definition Write :: "(rune \<Rightarrow> bool) \<Rightarrow> 'd writer \<Rightarrow> string \<Rightarrow> terminal \<Rightarrow> 'd
    \<Rightarrow> (nat \<times> go_error option \<times> terminal \<times> 'd) option" where
  "Write wd wr buf t d =
    (if cursorX t = 0 \<and> cursorY t = 0 then
       (case writeWithCRLF wr buf d of (n, err, d) \<Rightarrow> Some (n, err, t, d))
     else
       let t = clearLineToRight ((move 0 0 (cursorX t) 0 t)\<lparr>cursorX := 0\<rparr>);
           t = erase_rows (cursorY t) t in
       case wr d (outBuf t) of
         (_, Some e, d) \<Rightarrow> Some (0, Some e, t, d)
       | (_, None, d) \<Rightarrow>
           let t = t\<lparr>outBuf := []\<rparr> in
           (case writeWithCRLF wr buf d of
              (n, Some e, d) \<Rightarrow> Some (n, Some e, t, d)
            | (n, None, d) \<Rightarrow> do {
                t \<leftarrow> writeLine wd (prompt t) t;
                t \<leftarrow> (if echo t then writeLine wd (line t) t else Some t);
                t \<leftarrow> moveCursorToPos wd (pos t) t;
                (case wr d (outBuf t) of
                   (_, Some e, d) \<Rightarrow> Some (n, Some e, t, d)
                 | (_, None, d) \<Rightarrow> Some (n, None, t\<lparr>outBuf := []\<rparr>, d))
              }))"

section \<open>Reading a line\<close>

text \<open>The inner loop over the keys of the buffer ends without a line, with a
  line, or at Ctrl-D on an empty line. The flag is \<open>lineIsPasted\<close>, the string
  what is left of the buffer.\<close>

datatype key_loop =
    NoLine string bool terminal
  | GotLine string string bool terminal
  | EndOfInput terminal

function (sequential) keyLoop :: "(rune \<Rightarrow> bool) \<Rightarrow> bool \<Rightarrow> string \<Rightarrow> terminal \<Rightarrow> key_loop option" where
  "keyLoop wd lineIsPasted rest t =
    (case bytesToKey rest (pasteActive t) of
       (key, rest') \<Rightarrow>
         if key = RuneError then Some (NoLine rest' lineIsPasted t)
         else if \<not> pasteActive t \<and> key = keyCtrlD \<and> line t = [] then Some (EndOfInput t)
         else if \<not> pasteActive t \<and> key = keyPasteStart then
           keyLoop wd (if line t = [] then True else lineIsPasted) rest' (t\<lparr>pasteActive := True\<rparr>)
         else if pasteActive t \<and> key = keyPasteEnd then
           keyLoop wd lineIsPasted rest' (t\<lparr>pasteActive := False\<rparr>)
         else
           let lineIsPasted = (if \<not> pasteActive t then False else lineIsPasted) in
           (case handleKey wd key t of
              None \<Rightarrow> None
            | Some (l, lineOk, t') \<Rightarrow>
                if lineOk then Some (GotLine l rest' lineIsPasted t')
                else keyLoop wd lineIsPasted rest' t'))"
  by auto
termination
  by (relation "measure (\<lambda>(wd, p, rest, t). length rest)")
     (auto dest: bytesToKey_shorter [OF sym])

declare keyLoop.simps [simp del]

text \<open>One turn of the outer loop up to the point where it needs more input: it
  returns a line and an error, or it is about to \<open>Read\<close>.\<close>

datatype 'd turn =
    Return string "go_error option" terminal 'd
  | Read bool terminal 'd

definition flush :: "'d writer \<Rightarrow> terminal \<Rightarrow> 'd \<Rightarrow> terminal \<times> 'd" where
  "flush wr t d = (t\<lparr>outBuf := []\<rparr>, snd (snd (wr d (outBuf t))))"

definition inBuf_size :: nat where
  "inBuf_size = 256"

definition readLine_turn :: "(rune \<Rightarrow> bool) \<Rightarrow> 'd writer \<Rightarrow> bool \<Rightarrow> terminal \<Rightarrow> 'd \<Rightarrow> 'd turn option" where
  "readLine_turn wd wr lineIsPasted t d =
    (case keyLoop wd lineIsPasted (remainder t) t of
       None \<Rightarrow> None
     | Some (EndOfInput t) \<Rightarrow> Some (Return [] (Some IoEOF) t d)
     | Some (NoLine rest lineIsPasted t) \<Rightarrow>
         (case flush wr (t\<lparr>remainder := take inBuf_size rest\<rparr>) d of
            (t, d) \<Rightarrow> Some (Read lineIsPasted t d))
     | Some (GotLine l rest lineIsPasted t) \<Rightarrow>
         (case flush wr (t\<lparr>remainder := take inBuf_size rest\<rparr>) d of
            (t, d) \<Rightarrow>
              let t = (if echo t then t\<lparr>historyIndex := -1, history := rb_Add l (history t)\<rparr> else t) in
              Some (Return l (if lineIsPasted then Some ErrPasteIndicator else None) t d)))"

text \<open>The outer loop, on what the \<open>Read\<close>s deliver; with no entry left it is still
  waiting.\<close>

type_synonym reads = "(string \<times> go_error option) list"

datatype 'd line_result =
    Returned string "go_error option" terminal 'd reads
  | Waiting bool terminal 'd

fun readLine_loop :: "(rune \<Rightarrow> bool) \<Rightarrow> 'd writer \<Rightarrow> reads \<Rightarrow> bool \<Rightarrow> terminal \<Rightarrow> 'd \<Rightarrow> 'd line_result option" where
  "readLine_loop wd wr [] lineIsPasted t d =
    (case readLine_turn wd wr lineIsPasted t d of
       None \<Rightarrow> None
     | Some (Return l err t d) \<Rightarrow> Some (Returned l err t d [])
     | Some (Read lineIsPasted t d) \<Rightarrow> Some (Waiting lineIsPasted t d))"
| "readLine_loop wd wr ((data, rerr) # rs) lineIsPasted t d =
    (case readLine_turn wd wr lineIsPasted t d of
       None \<Rightarrow> None
     | Some (Return l err t d) \<Rightarrow> Some (Returned l err t d ((data, rerr) # rs))
     | Some (Read lineIsPasted t d) \<Rightarrow>
         (case rerr of
            Some e \<Rightarrow> Some (Returned [] (Some e) t d rs)
          | None \<Rightarrow>
              let got = take (inBuf_size - length (remainder t)) data in
              readLine_loop wd wr rs lineIsPasted (t\<lparr>remainder := remainder t @ got\<rparr>) d))"

definition readLine :: "(rune \<Rightarrow> bool) \<Rightarrow> 'd writer \<Rightarrow> reads \<Rightarrow> terminal \<Rightarrow> 'd \<Rightarrow> 'd line_result option" where
  "readLine wd wr rs t d =
    (if cursorX t = 0 \<and> cursorY t = 0 then do {
       t \<leftarrow> writeLine wd (prompt t) t;
       (case flush wr t d of (t, d) \<Rightarrow> readLine_loop wd wr rs (pasteActive t) t d)
     } else readLine_loop wd wr rs (pasteActive t) t d)"

definition ReadPassword :: "(rune \<Rightarrow> bool) \<Rightarrow> 'd writer \<Rightarrow> reads \<Rightarrow> string \<Rightarrow> terminal \<Rightarrow> 'd
    \<Rightarrow> 'd line_result option" where
  "ReadPassword wd wr rs p t d =
    (case readLine wd wr rs (t\<lparr>prompt := to_runes p, echo := False\<rparr>) d of
       None \<Rightarrow> None
     | Some (Returned l err t' d rs) \<Rightarrow> Some (Returned l err (t'\<lparr>prompt := prompt t, echo := True\<rparr>) d rs)
     | Some (Waiting lineIsPasted t d) \<Rightarrow> Some (Waiting lineIsPasted t d))"

section \<open>Settings\<close>

definition SetPrompt :: "string \<Rightarrow> terminal \<Rightarrow> terminal" where
  "SetPrompt p t = t\<lparr>prompt := to_runes p\<rparr>"

fun clear_rows :: "nat \<Rightarrow> terminal \<Rightarrow> terminal" where
  "clear_rows 0 t = t"
| "clear_rows (Suc n) t =
    clear_rows n (let t = move 0 1 0 0 t in clearLineToRight (t\<lparr>cursorY := cursorY t + 1\<rparr>))"

definition clearAndRepaintLinePlusNPrevious :: "(rune \<Rightarrow> bool) \<Rightarrow> nat \<Rightarrow> terminal \<Rightarrow> terminal option" where
  "clearAndRepaintLinePlusNPrevious wd numPrevLines t =
    (let t = move (cursorY t) 0 (cursorX t) 0 t;
         t = clearLineToRight (t\<lparr>cursorX := 0, cursorY := 0\<rparr>);
         t = clear_rows numPrevLines t;
         t = move (cursorY t) 0 0 0 t;
         t = queue (prompt t) (t\<lparr>cursorX := 0, cursorY := 0\<rparr>) in do {
       t \<leftarrow> advanceCursor (visualLength wd (prompt t)) t;
       t \<leftarrow> writeLine wd (line t) t;
       moveCursorToPos wd (pos t) t
     })"

definition SetSize :: "(rune \<Rightarrow> bool) \<Rightarrow> 'd writer \<Rightarrow> nat \<Rightarrow> nat \<Rightarrow> terminal \<Rightarrow> 'd
    \<Rightarrow> (go_error option \<times> terminal \<times> 'd) option" where
  "SetSize wd wr width height t d =
    (let width = (if width = 0 then 1 else width);
         oldWidth = termWidth t;
         t = t\<lparr>termWidth := width, termHeight := height\<rparr> in
     if width = oldWidth then Some (None, t, d)
     else if line t = [] \<and> cursorX t = 0 \<and> cursorY t = 0 then Some (None, t, d)
     else do {
       t \<leftarrow> (if width < oldWidth then
              let t = (if cursorX t \<ge> termWidth t then t\<lparr>cursorX := termWidth t - 1\<rparr> else t);
                  t = t\<lparr>cursorY := cursorY t * 2\<rparr> in
              clearAndRepaintLinePlusNPrevious wd (maxLine t * 2) t
            else clearAndRepaintLinePlusNPrevious wd (maxLine t) t);
       (case wr d (outBuf t) of (_, err, d) \<Rightarrow> Some (err, t\<lparr>outBuf := []\<rparr>, d))
     })"

definition SetEnterClear :: "bool \<Rightarrow> terminal \<Rightarrow> terminal" where
  "SetEnterClear on t = t\<lparr>enterClear := on\<rparr>"

definition SetBracketedPasteMode :: "'d writer \<Rightarrow> bool \<Rightarrow> 'd \<Rightarrow> 'd" where
  "SetBracketedPasteMode wr on d =
    snd (snd (wr d (if on then ESC # ''[?2004h'' else ESC # ''[?2004l'')))"

section \<open>Lemmas on writing\<close>

text \<open>The text that reaches the device: every line feed becomes CR LF.\<close>

definition with_crlf :: "string \<Rightarrow> string" where
  "with_crlf buf = concat (map (\<lambda>c. if c = byte 10 then crlf else [c]) buf)"

text \<open>\<open>writes wr sent\<close>: the device never fails and appends what it is given to \<open>sent\<close>.
  \<open>writer_ok wr\<close> is the contract of \<open>io.Writer\<close>: no more than the bytes given are
  written, and fewer only with an error.\<close>

definition writes :: "'d writer \<Rightarrow> ('d \<Rightarrow> string) \<Rightarrow> bool" where
  "writes wr sent \<longleftrightarrow> (\<forall>d s. \<exists>d'. wr d s = (length s, None, d') \<and> sent d' = sent d @ s)"

definition writer_ok :: "'d writer \<Rightarrow> bool" where
  "writer_ok wr \<longleftrightarrow> (\<forall>d s. fst (wr d s) \<le> length s \<and> (fst (snd (wr d s)) = None \<longrightarrow> fst (wr d s) = length s))"

definition buffer_write :: "string writer" where
  "buffer_write d s = (length s, None, d @ s)"

lemma writes_buffer: "writes buffer_write (\<lambda>d. d)"
  by (simp add: writes_def buffer_write_def)

lemma with_crlf_plain: "byte 10 \<notin> set s \<Longrightarrow> with_crlf s = s"
  by (induction s) (auto simp: with_crlf_def)

lemma with_crlf_append: "with_crlf (a @ b) = with_crlf a @ with_crlf b"
  by (simp add: with_crlf_def)

lemma line_feed_split:
  fixes buf :: string
  defines "todo \<equiv> length (takeWhile (\<lambda>c. c \<noteq> byte 10) buf)"
  shows "take todo buf = takeWhile (\<lambda>c. c \<noteq> byte 10) buf" "todo \<le> length buf"
    "todo < length buf \<Longrightarrow> buf = take todo buf @ [byte 10] @ drop (todo + 1) buf"
    "with_crlf (take todo buf) = take todo buf"
proof -
  show t: "take todo buf = takeWhile (\<lambda>c. c \<noteq> byte 10) buf"
    by (simp add: todo_def takeWhile_eq_take [symmetric])
  show "todo \<le> length buf" by (simp add: todo_def length_takeWhile_le)
  show "with_crlf (take todo buf) = take todo buf"
    unfolding t by (rule with_crlf_plain) (auto dest: set_takeWhileD)
  assume l: "todo < length buf"
  then have "buf ! todo = byte 10" unfolding todo_def using nth_length_takeWhile by blast
  with l show "buf = take todo buf @ [byte 10] @ drop (todo + 1) buf"
    using id_take_nth_drop [of todo buf] by simp
qed

lemma writeWithCRLF_from_writes:
  assumes "writes wr sent"
  shows "\<exists>d'. writeWithCRLF_from wr n buf d = (n + length buf, None, d') \<and> sent d' = sent d @ with_crlf buf"
proof (induction "length buf" arbitrary: n buf d rule: less_induct)
  case less
  show ?case
  proof (cases "buf = []")
    case False
    define todo where "todo = length (takeWhile (\<lambda>c. c \<noteq> byte 10) buf)"
    note sp = line_feed_split [of buf, folded todo_def]
    obtain d1 where d1: "wr d (take todo buf) = (todo, None, d1)" "sent d1 = sent d @ take todo buf"
      using assms sp(2) unfolding writes_def by (metis length_take min.absorb2)
    show ?thesis
    proof (cases "todo < length buf")
      case True
      obtain d2 where d2: "wr d1 crlf = (length crlf, None, d2)" "sent d2 = sent d1 @ crlf"
        using assms unfolding writes_def by metis
      have "length (drop (todo + 1) buf) < length buf" using True by simp
      from less [OF this, of "n + todo + 1" d2] obtain d3 where d3:
        "writeWithCRLF_from wr (n + todo + 1) (drop (todo + 1) buf) d2 = (n + length buf, None, d3)"
        "sent d3 = sent d2 @ with_crlf (drop (todo + 1) buf)"
        using True by auto
      have "with_crlf buf = take todo buf @ crlf @ with_crlf (drop (todo + 1) buf)"
        using arg_cong [OF sp(3) [OF True], of with_crlf] sp(4) by (simp only: with_crlf_append) (simp add: with_crlf_def)
      with d1 d2 d3 True False show ?thesis
        by (subst writeWithCRLF_from.simps) (simp add: todo_def [symmetric])
    next
      case False
      then have "drop todo buf = []" "take todo buf = buf" "todo = length buf" using sp(2) by auto
      with d1 \<open>buf \<noteq> []\<close> False sp(4) show ?thesis
        by (subst writeWithCRLF_from.simps) (simp add: todo_def [symmetric] writeWithCRLF_from.simps [of wr _ "[]"])
    qed
  qed (simp add: writeWithCRLF_from.simps with_crlf_def)
qed

lemma writeWithCRLF_from_count:
  assumes "writer_ok wr"
  shows "writeWithCRLF_from wr n buf d = (n', err, d') \<Longrightarrow>
    n' \<le> n + length buf \<and> (err = None \<longrightarrow> n' = n + length buf)"
proof (induction "length buf" arbitrary: n buf d rule: less_induct)
  case less
  show ?case
  proof (cases "buf = []")
    case False
    define todo where "todo = length (takeWhile (\<lambda>c. c \<noteq> byte 10) buf)"
    note sp = line_feed_split [of buf, folded todo_def]
    obtain nn e1 d1 where d1: "wr d (take todo buf) = (nn, e1, d1)" by (cases "wr d (take todo buf)") auto
    then have nn: "nn \<le> todo" "e1 = None \<Longrightarrow> nn = todo"
      using assms sp(2) unfolding writer_ok_def by (metis fst_conv snd_conv length_take min.absorb2)+
    obtain n2 e2 d2 where d2: "wr d1 crlf = (n2, e2, d2)" by (cases "wr d1 crlf") auto
    have eq: "writeWithCRLF_from wr n buf d = (case e1 of Some e \<Rightarrow> (n + nn, Some e, d1)
      | None \<Rightarrow> if todo < length buf then (case e2 of Some e \<Rightarrow> (n + nn, Some e, d2)
              | None \<Rightarrow> writeWithCRLF_from wr (n + nn + 1) (drop (todo + 1) buf) d2)
           else writeWithCRLF_from wr (n + nn) (drop todo buf) d1)"
      using False d1 d2 by (subst writeWithCRLF_from.simps) (simp add: todo_def [symmetric] split: option.split)
    show ?thesis
    proof (cases "todo < length buf")
      case True
      then have "length (drop (todo + 1) buf) < length buf" by simp
      from less.hyps [OF this, of "n + nn + 1" d2] show ?thesis
        using less.prems nn True unfolding eq by (auto split: option.splits)
    next
      case False
      then have "drop todo buf = []" "todo = length buf" using sp(2) by auto
      then show ?thesis
        using less.prems nn False unfolding eq
        by (auto simp: writeWithCRLF_from.simps [of wr _ "[]"] split: option.splits)
    qed
  qed (use less.prems in \<open>simp add: writeWithCRLF_from.simps\<close>)
qed

lemma edit_erase_rows [simp]: "edit (erase_rows y t) = edit t"
  by (induction y arbitrary: t) (simp_all add: clearLineToRight_def)

lemma erase_rows_cursor: "cursorX (erase_rows y t) = cursorX t \<and> (0 < y \<longrightarrow> cursorY (erase_rows y t) = 0)"
proof (induction y arbitrary: t)
  case (Suc y)
  show ?case using Suc [of "clearLineToRight ((move 1 0 0 0 t)\<lparr>cursorY := y\<rparr>)"]
    by (cases y) (auto simp: clearLineToRight_def queue_def move_def)
qed simp

lemma Write_result:
  assumes inv: "term_inv t" and wr: "writes wr sent"
  shows "\<exists>t' d' pre post. Write wd wr buf t d = Some (length buf, None, t', d') \<and>
    sent d' = sent d @ pre @ with_crlf buf @ post \<and> edit t' = edit t \<and> geom t' \<and>
    (cursor_at wd t \<or> cursorX t \<noteq> 0 \<or> cursorY t \<noteq> 0 \<longrightarrow> cursor_at wd t')"
proof (cases "cursorX t = 0 \<and> cursorY t = 0")
  case True
  obtain d' where "writeWithCRLF wr buf d = (length buf, None, d')" "sent d' = sent d @ with_crlf buf"
    using writeWithCRLF_from_writes [OF wr, of 0 buf d] by (auto simp: writeWithCRLF_def)
  with True inv show ?thesis
    by (intro exI [of _ t] exI [of _ d'] exI [of _ "[]"]) (simp add: Write_def term_inv_def)
next
  case False
  define t1 where "t1 = clearLineToRight ((move 0 0 (cursorX t) 0 t)\<lparr>cursorX := 0\<rparr>)"
  define t2 where "t2 = erase_rows (cursorY t1) t1"
  have g: "0 < termWidth t" using inv by (auto simp: term_inv_def geom_def)
  have e2: "edit t2 = edit t" by (simp add: t2_def t1_def clearLineToRight_def)
  have "cursorX t2 = 0" using erase_rows_cursor [of "cursorY t1" t1]
    by (simp add: t2_def) (simp add: t1_def clearLineToRight_def queue_def)
  then have g2: "geom t2" using g edit_fields(6) [OF e2] by (simp add: geom_def)
  obtain d1 where d1: "wr d (outBuf t2) = (length (outBuf t2), None, d1)" "sent d1 = sent d @ outBuf t2"
    using wr unfolding writes_def by metis
  define t3 where "t3 = t2\<lparr>outBuf := []\<rparr>"
  obtain d2 where d2: "writeWithCRLF wr buf d1 = (length buf, None, d2)" "sent d2 = sent d1 @ with_crlf buf"
    using writeWithCRLF_from_writes [OF wr, of 0 buf d1] by (auto simp: writeWithCRLF_def)
  have e3: "edit t3 = edit t" "geom t3" using e2 g2 by (simp_all add: t3_def)
  obtain t4 where t4: "writeLine wd (prompt t3) t3 = Some t4" "edit t4 = edit t" "geom t4"
    using draws_writeLine [OF e3(2)] e3(1) by (auto simp: runs_def)
  obtain t5 where t5: "(if echo t4 then writeLine wd (line t4) t4 else Some t4) = Some t5" "edit t5 = edit t" "geom t5"
    using draws_writeLine [OF t4(3)] t4 by (cases "echo t4") (auto simp: runs_def)
  obtain t6 where t6: "moveCursorToPos wd (pos t5) t5 = Some t6" "edit t6 = edit t" "geom t6"
    using draws_moveCursorToPos [OF t5(3), of wd "pos t5"] t5(2) by (auto simp: runs_def)
  obtain d3 where d3: "wr d2 (outBuf t6) = (length (outBuf t6), None, d3)" "sent d3 = sent d2 @ outBuf t6"
    using wr unfolding writes_def by metis
  have "Write wd wr buf t d = Some (length buf, None, t6\<lparr>outBuf := []\<rparr>, d3)"
    using d1 d2 d3 t4(1) t5(1) t6(1)
    by (simp add: Write_def if_not_P [OF False] Let_def t1_def [symmetric] t2_def [symmetric] t3_def [symmetric])
  moreover have "cursor_at wd (t6\<lparr>outBuf := []\<rparr>)"
    using moveCursorToPos_at [OF t6(1)] by (simp add: cursor_at_def)
  ultimately show ?thesis using d1 d2 d3 t6 by auto
qed

lemma edit_clear_rows [simp]: "edit (clear_rows n t) = edit t"
  by (induction n arbitrary: t) (simp_all add: clearLineToRight_def Let_def)

lemma draws_repaint:
  assumes "0 < termWidth t"
  shows "draws t (clearAndRepaintLinePlusNPrevious wd n t)"
proof -
  define t1 where "t1 = clear_rows n (clearLineToRight ((move (cursorY t) 0 (cursorX t) 0 t)\<lparr>cursorX := 0, cursorY := 0\<rparr>))"
  define t2 where "t2 = queue (prompt (move (cursorY t1) 0 0 0 t1)) ((move (cursorY t1) 0 0 0 t1)\<lparr>cursorX := 0, cursorY := 0\<rparr>)"
  have e: "edit t2 = edit t" by (simp add: t2_def t1_def clearLineToRight_def)
  have g: "geom t2" using assms edit_fields(6) [OF e] by (simp add: geom_def) (simp add: t2_def queue_def)
  have "clearAndRepaintLinePlusNPrevious wd n t = do {
      t \<leftarrow> advanceCursor (visualLength wd (prompt t2)) t2; t \<leftarrow> writeLine wd (line t) t; moveCursorToPos wd (pos t) t }"
    by (simp add: clearAndRepaintLinePlusNPrevious_def Let_def t1_def [symmetric] t2_def [symmetric])
  moreover have "draws t2 \<dots>"
    by (rule draws_bind [OF draws_advanceCursor [OF g]], rule runs_bind [OF draws_writeLine], assumption,
        rule runs_mono [OF draws_moveCursorToPos]) auto
  ultimately show ?thesis using e by simp
qed

lemma repaint_at: "clearAndRepaintLinePlusNPrevious wd n t = Some t' \<Longrightarrow> cursor_at wd t'"
  by (auto simp: clearAndRepaintLinePlusNPrevious_def Let_def bind_eq_Some_conv intro: moveCursorToPos_at)

lemma SetSize_result:
  assumes inv: "term_inv t"
  shows "\<exists>err t' d'. SetSize wd wr w h t d = Some (err, t', d') \<and> term_inv t' \<and> line t' = line t \<and> pos t' = pos t
    \<and> edit t' = edit (t\<lparr>termWidth := (if w = 0 then 1 else w), termHeight := h\<rparr>) \<and> termWidth t' = (if w = 0 then 1 else w)
    \<and> (termWidth t' \<noteq> termWidth t \<and> line t \<noteq> [] \<longrightarrow> cursor_at wd t')"
proof -
  define w' where "w' = (if w = 0 then 1 else w)"
  define t1 where "t1 = t\<lparr>termWidth := w', termHeight := h\<rparr>"
  have g: "cursorX t < termWidth t" "pos t \<le> length (line t)" "rb_inv (history t)" "-1 \<le> historyIndex t" "0 < w'"
    using inv by (auto simp: term_inv_def geom_def w'_def)
  have finish: ?thesis if r: "draws t2 m" "edit t2 = (edit t1)" and at: "\<And>t'. m = Some t' \<Longrightarrow> cursor_at wd t'"
    and eq: "SetSize wd wr w h t d = do { t \<leftarrow> m; (case wr d (outBuf t) of (_, err, d) \<Rightarrow> Some (err, t\<lparr>outBuf := []\<rparr>, d)) }"
    for m t2
  proof -
    obtain t' where t': "m = Some t'" "edit t' = edit t1" "geom t'" using r by (auto simp: runs_def)
    have "term_inv (t'\<lparr>outBuf := []\<rparr>)"
      using g t'(3) edit_fields [OF t'(2)] by (simp add: term_inv_def) (simp add: t1_def)
    moreover have "cursor_at wd (t'\<lparr>outBuf := []\<rparr>)" using at [OF t'(1)] by (simp add: cursor_at_def)
    ultimately show ?thesis
      using t'(1,2) edit_fields [OF t'(2)] unfolding eq w'_def [symmetric] t1_def [symmetric]
      by (cases "wr d (outBuf t')") (simp, simp add: t1_def)
  qed
  consider "w' = termWidth t" | "w' \<noteq> termWidth t" "line t = [] \<and> cursorX t = 0 \<and> cursorY t = 0"
    | "w' < termWidth t" "\<not> (line t = [] \<and> cursorX t = 0 \<and> cursorY t = 0)"
    | "termWidth t < w'" "\<not> (line t = [] \<and> cursorX t = 0 \<and> cursorY t = 0)"
    by linarith
  then show ?thesis
  proof cases
    case 1
    then have "SetSize wd wr w h t d = Some (None, t1, d)" by (simp add: SetSize_def t1_def w'_def [symmetric])
    with 1 g show ?thesis by (auto simp: t1_def term_inv_def geom_def w'_def)
  next
    case 2
    then have "SetSize wd wr w h t d = Some (None, t1, d)" by (simp add: SetSize_def t1_def w'_def [symmetric])
    with 2 g show ?thesis by (auto simp: t1_def term_inv_def geom_def w'_def)
  next
    case 3
    define t2 where "t2 = (let u = (if cursorX t1 \<ge> termWidth t1 then t1\<lparr>cursorX := termWidth t1 - 1\<rparr> else t1) in
        u\<lparr>cursorY := cursorY u * 2\<rparr>)"
    have eq: "SetSize wd wr w h t d = do { t \<leftarrow> clearAndRepaintLinePlusNPrevious wd (maxLine t2 * 2) t2;
        (case wr d (outBuf t) of (_, err, d) \<Rightarrow> Some (err, t\<lparr>outBuf := []\<rparr>, d)) }"
      using 3 by (auto simp: SetSize_def w'_def [symmetric] t2_def t1_def Let_def)
    have t2: "edit t2 = edit t1" "0 < termWidth t2" using g(5) by (auto simp: t2_def Let_def t1_def)
    show ?thesis by (rule finish [OF draws_repaint [OF t2(2)] t2(1) repaint_at eq])
  next
    case 4
    have eq: "SetSize wd wr w h t d = do { t \<leftarrow> clearAndRepaintLinePlusNPrevious wd (maxLine t1) t1;
        (case wr d (outBuf t) of (_, err, d) \<Rightarrow> Some (err, t\<lparr>outBuf := []\<rparr>, d)) }"
      using 4 by (auto simp: SetSize_def w'_def [symmetric] t1_def Let_def)
    have t1: "0 < termWidth t1" using g(5) by (simp add: t1_def)
    show ?thesis by (rule finish [OF draws_repaint [OF t1] refl repaint_at eq])
  qed
qed

section \<open>Lemmas on reading\<close>

fun loop_term :: "key_loop \<Rightarrow> terminal" where
  "loop_term (NoLine rest p t) = t"
| "loop_term (GotLine l rest p t) = t"
| "loop_term (EndOfInput t) = t"

fun result_term :: "'d line_result \<Rightarrow> terminal" where
  "result_term (Returned l err t d rs) = t"
| "result_term (Waiting p t d) = t"

abbreviation safe :: "terminal \<Rightarrow> bool" where
  "safe t \<equiv> term_inv t \<and> complete_ok t"

lemma safe_update [simp]:
  "term_inv (t\<lparr>pasteActive := b\<rparr>) = term_inv t" "term_inv (t\<lparr>remainder := s\<rparr>) = term_inv t"
  "term_inv (t\<lparr>outBuf := s\<rparr>) = term_inv t" "term_inv (t\<lparr>prompt := rs\<rparr>) = term_inv t"
  "term_inv (t\<lparr>echo := b\<rparr>) = term_inv t"
  "complete_ok (t\<lparr>pasteActive := b\<rparr>) = complete_ok t" "complete_ok (t\<lparr>remainder := s\<rparr>) = complete_ok t"
  "complete_ok (t\<lparr>outBuf := s\<rparr>) = complete_ok t" "complete_ok (t\<lparr>prompt := rs\<rparr>) = complete_ok t"
  "complete_ok (t\<lparr>echo := b\<rparr>) = complete_ok t"
  "complete_ok (t\<lparr>historyIndex := i, history := h\<rparr>) = complete_ok t"
  by (simp_all add: term_inv_def geom_def complete_ok_def)

lemma safe_history: "term_inv t \<Longrightarrow> term_inv (t\<lparr>historyIndex := -1, history := rb_Add l (history t)\<rparr>)"
  by (simp add: term_inv_def geom_def rb_inv_Add)

lemma handleKey_run:
  assumes "safe t"
  obtains l ok t' where "handleKey wd key t = Some (l, ok, t')" "safe t'"
proof -
  obtain l ok t' where r: "handleKey wd key t = Some (l, ok, t')" "term_inv t'"
    "AutoCompleteCallback t' = AutoCompleteCallback t"
    using handleKey_keeps [of t wd key] assms by (auto simp: runs_def)
  have "complete_ok t'" using conjunct2 [OF assms] unfolding complete_ok_def by (simp only: r(3))
  with r that show ?thesis by blast
qed

lemma keyLoop_safe: "safe t \<Longrightarrow> \<exists>r. keyLoop wd p rest t = Some r \<and> safe (loop_term r)"
proof (induction wd p rest t rule: keyLoop.induct)
  case (1 wd p rest t)
  obtain key rest' where k: "bytesToKey rest (pasteActive t) = (key, rest')" by fastforce
  consider (err) "key = RuneError" | (eof) "key \<noteq> RuneError" "\<not> pasteActive t \<and> key = keyCtrlD \<and> line t = []"
    | (start) "key \<noteq> RuneError" "\<not> (\<not> pasteActive t \<and> key = keyCtrlD \<and> line t = [])"
        "\<not> pasteActive t \<and> key = keyPasteStart"
    | (finish) "key \<noteq> RuneError" "\<not> (\<not> pasteActive t \<and> key = keyCtrlD \<and> line t = [])"
        "\<not> (\<not> pasteActive t \<and> key = keyPasteStart)" "pasteActive t \<and> key = keyPasteEnd"
    | (key) "key \<noteq> RuneError" "\<not> (\<not> pasteActive t \<and> key = keyCtrlD \<and> line t = [])"
        "\<not> (\<not> pasteActive t \<and> key = keyPasteStart)" "\<not> (pasteActive t \<and> key = keyPasteEnd)" by blast
  then show ?case
  proof cases
    case err
    with k 1 show ?thesis by (subst keyLoop.simps) simp
  next
    case eof
    with k 1 show ?thesis by (subst keyLoop.simps) simp
  next
    case start
    from "1.IH"(1) [OF k [symmetric] start] 1 k start show ?thesis by (subst keyLoop.simps) simp
  next
    case finish
    from "1.IH"(2) [OF k [symmetric] finish] 1 k finish show ?thesis by (subst keyLoop.simps) simp
  next
    case key
    obtain l ok t' where h: "handleKey wd key t = Some (l, ok, t')" "safe t'"
      using handleKey_run [OF "1.prems"] by blast
    have eq: "keyLoop wd p rest t = (if ok then Some (GotLine l rest' (if \<not> pasteActive t then False else p) t')
        else keyLoop wd (if \<not> pasteActive t then False else p) rest' t')"
      by (simp only: keyLoop.simps [of wd p rest t] k prod.case if_not_P [OF key(1)] if_not_P [OF key(2)]
          if_not_P [OF key(3)] if_not_P [OF key(4)] Let_def h(1) option.case)
    show ?thesis
    proof (cases ok)
      case True
      with eq h show ?thesis by simp
    next
      case False
      from "1.IH"(3) [OF k [symmetric] key refl h(1) refl refl False] h(2) False show ?thesis unfolding eq by simp
    qed
  qed
qed

lemma flush_term: "flush wr t d = (t', d') \<Longrightarrow> t' = t\<lparr>outBuf := []\<rparr>"
  by (simp add: flush_def)

lemma readLine_turn_safe:
  assumes "safe t"
  shows "\<exists>r. readLine_turn wd wr p t d = Some r \<and> safe (case r of Return l err t d \<Rightarrow> t | Read p t d \<Rightarrow> t)"
proof -
  obtain r where "keyLoop wd p (remainder t) t = Some r" "safe (loop_term r)" using keyLoop_safe [OF assms] by blast
  then show ?thesis
    by (cases r) (auto simp: readLine_turn_def flush_def Let_def safe_history [of "_\<lparr>remainder := _, outBuf := _\<rparr>", simplified])
qed

lemma readLine_loop_safe: "safe t \<Longrightarrow> \<exists>r. readLine_loop wd wr rs p t d = Some r \<and> safe (result_term r)"
proof (induction rs arbitrary: p t d)
  case Nil
  obtain r where "readLine_turn wd wr p t d = Some r" "safe (case r of Return l err t d \<Rightarrow> t | Read p t d \<Rightarrow> t)"
    using readLine_turn_safe [OF Nil, of wd wr p d] by blast
  then show ?case by (cases r) simp_all
next
  case (Cons e rs)
  obtain data err where e: "e = (data, err)" by (cases e)
  obtain r where "readLine_turn wd wr p t d = Some r" "safe (case r of Return l err t d \<Rightarrow> t | Read p t d \<Rightarrow> t)"
    using readLine_turn_safe [OF Cons.prems, of wd wr p d] by blast
  then show ?case
    using Cons.IH by (cases r) (auto simp: e Let_def split: option.split)
qed

lemma readLine_start:
  assumes "term_inv t"
  shows "\<exists>t' d'. readLine wd wr rs t d = readLine_loop wd wr rs (pasteActive t) t' d' \<and> edit t' = edit t \<and> geom t' \<and>
    (cursorX t = 0 \<and> cursorY t = 0 \<longrightarrow> outBuf t' = [])"
proof (cases "cursorX t = 0 \<and> cursorY t = 0")
  case True
  obtain t1 where t1: "writeLine wd (prompt t) t = Some t1" "edit t1 = edit t" "geom t1"
    using draws_writeLine [of t wd "prompt t"] assms by (auto simp: term_inv_def runs_def)
  then show ?thesis using True edit_fields(5) [OF t1(2)] by (auto simp: readLine_def flush_def)
qed (use assms in \<open>auto simp: readLine_def term_inv_def\<close>)

lemma term_inv_edit: "edit t' = edit t \<Longrightarrow> geom t' \<Longrightarrow> term_inv t \<Longrightarrow> term_inv t'"
  using edit_fields [of t' t] by (simp add: term_inv_def)

lemma complete_ok_edit: "edit t' = edit t \<Longrightarrow> complete_ok t \<Longrightarrow> complete_ok t'"
  using edit_fields(12) [of t' t] by (simp add: complete_ok_def)

section \<open>A typed line\<close>

text \<open>The characters that are typed as themselves.\<close>

definition typable :: "rune \<Rightarrow> bool" where
  "typable r \<longleftrightarrow> valid_rune r \<and> isPrintable r \<and> r \<noteq> keyBackspace \<and> r \<noteq> RuneError"

text \<open>\<open>typed t l t'\<close>: from \<open>t\<close> to \<open>t'\<close> only the line became \<open>l\<close>, with the cursor at
  its end, and without echo nothing was drawn.\<close>

definition typed :: "terminal \<Rightarrow> rune list \<Rightarrow> terminal \<Rightarrow> bool" where
  "typed t l t' \<longleftrightarrow> geom t' \<and> edit t' = (edit t)\<lparr>line := l, pos := length l\<rparr> \<and> (\<not> echo t \<longrightarrow> outBuf t' = outBuf t)"

definition typing :: "terminal \<Rightarrow> bool" where
  "typing t \<longleftrightarrow> term_inv t \<and> \<not> pasteActive t \<and> AutoCompleteCallback t = None \<and> pos t = length (line t)"

lemma typed_fields:
  assumes "typed t l t'"
  shows "geom t'" "line t' = l" "pos t' = length l" "echo t' = echo t" "pasteActive t' = pasteActive t"
    "AutoCompleteCallback t' = AutoCompleteCallback t" "history t' = history t" "remainder t' = remainder t"
    "enterClear t' = enterClear t" "historyIndex t' = historyIndex t" "\<not> echo t \<Longrightarrow> outBuf t' = outBuf t"
proof -
  have "edit t' = edit (t\<lparr>line := l, pos := length l\<rparr>)" using assms by (simp add: typed_def)
  note f = edit_fields [OF this]
  show "geom t'" "\<not> echo t \<Longrightarrow> outBuf t' = outBuf t" using assms by (simp_all add: typed_def)
  show "line t' = l" "pos t' = length l" "echo t' = echo t" "pasteActive t' = pasteActive t"
    "AutoCompleteCallback t' = AutoCompleteCallback t" "history t' = history t" "remainder t' = remainder t"
    "enterClear t' = enterClear t" "historyIndex t' = historyIndex t"
    using f by simp_all
qed

lemma typed_trans: "typed t l t1 \<Longrightarrow> typed t1 l' t2 \<Longrightarrow> typed t l' t2"
  using typed_fields(4,11) [of t l t1] by (simp add: typed_def edit_def)

lemma typed_typing: "typed t l t' \<Longrightarrow> typing t \<Longrightarrow> typing t'"
  using typed_fields [of t l t'] by (simp add: typing_def term_inv_def)

lemma typed_refl: "typing t \<Longrightarrow> typed t (line t) t"
proof -
  assume t: "typing t"
  then have "(edit t)\<lparr>line := line t, pos := length (line t)\<rparr> = edit t"
    using edit_same(2) [of t] by (simp add: typing_def)
  with t show ?thesis by (simp add: typed_def typing_def term_inv_def)
qed

lemma typable_key:
  assumes "typable r"
  shows "32 \<le> r" "valid_rune r" "r \<noteq> RuneError" "r \<notin> edit_keys" "r \<noteq> keyEnter" "r \<noteq> keyUp" "r \<noteq> keyDown"
    "r \<noteq> keyCtrlD" "r \<noteq> keyPasteStart" "isPrintable r"
  using assms by (auto simp: typable_def isPrintable_def key_defs edit_keys_def valid_rune_def surrogate_def)

lemma handleKey_typable:
  assumes "typing t" and "typable r" and "length (line t) < maxLineLength"
  shows "\<exists>t'. handleKey wd r t = Some ([], False, t') \<and> typed t (line t @ [r]) t'"
proof -
  note k = typable_key [OF assms(2)]
  have eq: "handleKey wd r t = Option.bind (addKeyToLine wd r t) no_line"
    using k assms by (auto simp: handleKey_def typing_def edit_keys_def handleKey_default_def typeKey_def)
  have t: "geom t" "pos t \<le> length (line t)" "pos t = length (line t)" using assms(1) by (simp_all add: typing_def term_inv_def)
  obtain t' where a: "addKeyToLine wd r t = Some t'" "geom t'"
    "edit t' = (edit t)\<lparr>line := line t @ [r], pos := length (line t @ [r])\<rparr>"
    using edits_addKeyToLine [OF t(1,2), of wd r] t(3) by (auto simp: runs_def)
  have "outBuf t' = outBuf t" if "\<not> echo t"
    using a(1) that t(3) by (auto simp: addKeyToLine_def moveCursorToPos_def)
  with a eq show ?thesis by (auto simp: typed_def no_line_def)
qed

lemma keyLoop_rune:
  assumes "typing t" and "typable r" and "length (line t) < maxLineLength"
  shows "\<exists>t'. keyLoop wd p (encode_rune r @ s) t = keyLoop wd False s t' \<and> typed t (line t @ [r]) t'"
proof -
  note k = typable_key [OF assms(2)]
  obtain t' where t': "handleKey wd r t = Some ([], False, t')" "typed t (line t @ [r]) t'"
    using handleKey_typable [OF assms] by blast
  have b: "bytesToKey (encode_rune r @ s) q = (r, s)" for q
    using bytesToKey_rune [OF k(2,1)] by simp
  have "keyLoop wd p (encode_rune r @ s) t = keyLoop wd False s t'"
    using k t'(1) assms(1) by (simp add: keyLoop.simps [of wd p "encode_rune r @ s"] b typing_def)
  with t'(2) show ?thesis by blast
qed

lemma keyLoop_runes:
  "typing t \<Longrightarrow> list_all typable rs \<Longrightarrow> length (line t) + length rs \<le> maxLineLength \<Longrightarrow>
    \<exists>t' p'. keyLoop wd p (of_runes rs @ s) t = keyLoop wd p' s t' \<and> typed t (line t @ rs) t'"
proof (induction rs arbitrary: t p)
  case Nil
  then show ?case using typed_refl [of t] by (auto simp: of_runes_def)
next
  case (Cons r rs)
  obtain t1 where t1: "keyLoop wd p (encode_rune r @ of_runes rs @ s) t = keyLoop wd False (of_runes rs @ s) t1"
    "typed t (line t @ [r]) t1"
    using keyLoop_rune [OF Cons.prems(1), of r wd p] Cons.prems by auto
  obtain t' p' where t': "keyLoop wd False (of_runes rs @ s) t1 = keyLoop wd p' s t'" "typed t1 (line t1 @ rs) t'"
    using Cons.IH [OF typed_typing [OF t1(2) Cons.prems(1)], of False] Cons.prems typed_fields(2) [OF t1(2)] by auto
  have "typed t (line t @ r # rs) t'"
    using typed_trans [OF t1(2) t'(2)] typed_fields(2) [OF t1(2)] by simp
  with t1(1) t'(1) show ?case by (auto simp: of_runes_def)
qed

lemma stuck_prefix:
  assumes "valid_rune r" and "32 \<le> r" and "encode_rune r = b @ c" and "c \<noteq> []"
  shows "bytesToKey b False = (RuneError, b)"
proof (cases b)
  case (Cons a bs)
  have len: "length b < length (encode_rune r)" using assms by simp
  have "\<not> FullRune b"
  proof
    assume f: "FullRune b"
    have "DecodeRune (encode_rune r) = (r, length (encode_rune r))" 
      using DecodeRune_encode [OF assms(1), of "[]"] by simp
    then have "snd (DecodeRune b) = length (encode_rune r)" using DecodeRune_append [OF f, of c] assms(3) by simp
    then show False using DecodeRune_length [of b] len by simp
  qed
  moreover have "0x80 \<le> bv a"
  proof (rule ccontr)
    assume "\<not> 0x80 \<le> bv a"
    then have "FullRune b" by (simp add: Cons lead_def)
    with calculation show False by simp
  qed
  ultimately show ?thesis
    by (auto simp: bytesToKey_def Cons guarded_def ctrl_switch_def ESC_def)
qed (simp add: bytesToKey_def)

lemma typed_prefix:
  assumes "b @ c = of_runes rs @ [byte 13]" and "c \<noteq> []" and "list_all typable rs"
  shows "\<exists>rs1 rs2 b'. rs = rs1 @ rs2 \<and> b = of_runes rs1 @ b' \<and> bytesToKey b' False = (RuneError, b') \<and> length b' \<le> 3"
  using assms
proof (induction rs arbitrary: b)
  case Nil
  then have "b = []" by (cases b) (auto simp: of_runes_def)
  then show ?case by (intro exI [of _ "[]"]) (simp add: of_runes_def bytesToKey_def)
next
  case (Cons r rs)
  have e: "b @ c = encode_rune r @ of_runes rs @ [byte 13]" using Cons.prems by (simp add: of_runes_def)
  note k = typable_key [of r]
  show ?case
  proof (cases "length b < length (encode_rune r)")
    case True
    then have "encode_rune r = b @ drop (length b) (encode_rune r)"
      using e by (metis append_eq_append_conv_if append_take_drop_id less_imp_le_nat)
    moreover have "drop (length b) (encode_rune r) \<noteq> []" using True by simp
    ultimately have "bytesToKey b False = (RuneError, b)"
      using stuck_prefix [of r b] k Cons.prems(3) by auto
    moreover have "length b \<le> 3" using True length_encode_rune [of r] by simp
    ultimately show ?thesis
      by (intro exI [of _ "[]"] exI [of _ "r # rs"] exI [of _ b]) (simp add: of_runes_def)
  next
    case False
    then obtain b2 where b: "b = encode_rune r @ b2"
      using e by (metis append_eq_append_conv_if append_take_drop_id not_less)
    then have "b2 @ c = of_runes rs @ [byte 13]" using e by simp
    from Cons.IH [OF this Cons.prems(2)] Cons.prems(3) obtain rs1 rs2 b' where
      "rs = rs1 @ rs2" "b2 = of_runes rs1 @ b'" "bytesToKey b' False = (RuneError, b')" "length b' \<le> 3" by auto
    then show ?thesis
      by (intro exI [of _ "r # rs1"] exI [of _ rs2] exI [of _ b']) (simp add: of_runes_def b)
  qed
qed

definition enter_bytes :: "terminal \<Rightarrow> string" where
  "enter_bytes t = (if enterClear t then ESC # ''[2K'' @ ESC # ''[J'' else crlf)"

lemma of_runes_lit: "list_all (\<lambda>c. bv c < 128) s \<Longrightarrow> of_runes (lit s) = s"
  by (induction s) (simp_all add: of_runes_def lit_def encode_rune_def)

lemma of_runes_append: "of_runes (a @ b) = of_runes a @ of_runes b"
  by (simp add: of_runes_def)

lemma handleKey_enter_noecho:
  "handleKey_enter wd t = Some (l, ok, t') \<Longrightarrow> \<not> echo t \<Longrightarrow> outBuf t' = outBuf t @ enter_bytes t"
proof -
  have "of_runes ([keyEscape] @ lit ''[2K'' @ [keyEscape] @ lit ''[J'') = ESC # ''[2K'' @ ESC # ''[J''"
    unfolding of_runes_append by (subst of_runes_lit, simp add: str_eval, subst of_runes_lit, simp add: str_eval)
      (simp add: of_runes_def encode_rune_def keyEscape_def ESC_def)
  moreover have "of_runes (lit crlf) = crlf" by (rule of_runes_lit) (simp add: crlf_def)
  moreover assume "handleKey_enter wd t = Some (l, ok, t')" "\<not> echo t"
  ultimately show ?thesis
    by (auto simp: handleKey_enter_def moveCursorToPos_def queue_def enter_bytes_def split: if_splits)
qed

lemma bytesToKey_enter: "bytesToKey [byte 13] q = (keyEnter, [])"
proof -
  have "DecodeRune [byte 13] = (13, 1)" by simp
  moreover have "bv (byte 13) = 13" "bv ESC = 27" by (simp_all add: ESC_def)
  then have "byte 13 \<noteq> ESC" by (metis numeral_eq_iff num.distinct(5) num.inject(2))
  moreover have "FullRune [byte 13]" by (simp add: lead_def)
  ultimately show ?thesis
    by (simp add: bytesToKey_def guarded_def ctrl_switch_def keyEnter_def)
qed

lemma keyLoop_enter:
  assumes "typing t"
  shows "\<exists>t'. keyLoop wd p [byte 13] t = Some (GotLine (of_runes (line t)) [] False t') \<and> geom t' \<and>
    edit t' = (edit t)\<lparr>line := [], pos := 0\<rparr> \<and> (\<not> echo t \<longrightarrow> outBuf t' = outBuf t @ enter_bytes t)"
proof -
  have g: "geom t" and p: "\<not> pasteActive t" using assms by (simp_all add: typing_def term_inv_def)
  obtain t' where t': "handleKey_enter wd t = Some (of_runes (line t), True, t')" "geom t'"
    "edit t' = (edit t)\<lparr>line := [], pos := 0\<rparr>"
    using enter_result [OF g, of wd] by (auto simp: runs_def)
  have ne: "keyEnter \<noteq> RuneError" "keyEnter \<noteq> keyCtrlD" "keyEnter \<noteq> keyPasteStart"
    by (simp_all add: key_defs RuneError_def)
  have "keyLoop wd p [byte 13] t = Some (GotLine (of_runes (line t)) [] False t')"
    using p ne t'(1) by (simp add: keyLoop.simps [of wd p "[byte 13]"] bytesToKey_enter handleKey_Enter)
  with t' handleKey_enter_noecho [OF t'(1)] show ?thesis by blast
qed

lemma typing_update [simp]:
  "typing (t\<lparr>remainder := s\<rparr>) = typing t" "typing (t\<lparr>outBuf := s\<rparr>) = typing t"
  by (simp_all add: typing_def)

lemma keyLoop_stuck: "bytesToKey b (pasteActive t) = (RuneError, b) \<Longrightarrow> keyLoop wd p b t = Some (NoLine b p t)"
  by (simp add: keyLoop.simps [of wd p b])

definition got_line :: "rune list \<Rightarrow> terminal \<Rightarrow> terminal \<Rightarrow> bool" where
  "got_line l t t' \<longleftrightarrow> term_inv t' \<and> line t' = [] \<and> remainder t' = [] \<and> echo t' = echo t \<and>
    pasteActive t' = pasteActive t \<and>
    history t' = (if echo t then rb_Add (of_runes l) (history t) else history t)"

lemma readLine_turn_typed:
  assumes t: "typing t" and rem: "remainder t = of_runes rs @ [byte 13]" and rs: "list_all typable rs"
    and len: "length (line t) + length rs \<le> maxLineLength"
  shows "\<exists>t' d'. readLine_turn wd wr p t d = Some (Return (of_runes (line t @ rs)) None t' d') \<and> got_line (line t @ rs) t t' \<and>
    (\<not> echo t \<and> outBuf t = [] \<and> writes wr sent \<longrightarrow> sent d' = sent d @ enter_bytes t)"
proof -
  obtain t1 p1 where t1: "keyLoop wd p (remainder t) t = keyLoop wd p1 [byte 13] t1" "typed t (line t @ rs) t1"
    using keyLoop_runes [OF t rs len, of wd p] unfolding rem by blast
  note f1 = typed_fields [OF t1(2)]
  have ty1: "typing t1" by (rule typed_typing [OF t1(2) t])
  obtain t2 where t2: "keyLoop wd p1 [byte 13] t1 = Some (GotLine (of_runes (line t1)) [] False t2)" "geom t2"
    and e2: "edit t2 = (edit t1)\<lparr>line := [], pos := 0\<rparr>" and o2: "\<not> echo t1 \<Longrightarrow> outBuf t2 = outBuf t1 @ enter_bytes t1"
    using keyLoop_enter [OF ty1, of wd p1] by blast
  have "edit t2 = edit (t1\<lparr>line := [], pos := 0\<rparr>)" using e2 by simp
  note f2 = edit_fields [OF this]
  define t3 where "t3 = t2\<lparr>remainder := [], outBuf := []\<rparr>"
  define t4 where "t4 = (if echo t3 then t3\<lparr>historyIndex := -1, history := rb_Add (of_runes (line t1)) (history t3)\<rparr> else t3)"
  define d4 where "d4 = snd (snd (wr d (outBuf t2)))"
  have "readLine_turn wd wr p t d = Some (Return (of_runes (line t1)) None t4 d4)"
    by (simp add: readLine_turn_def t1(1) t2(1) flush_def t4_def t3_def d4_def)
  moreover have "term_inv t3" using ty1 f2 t2(2) by (simp add: t3_def typing_def term_inv_def geom_def)
  then have "term_inv t4" using safe_history by (simp add: t4_def)
  then have "got_line (line t @ rs) t t4" using f1 f2 by (simp add: got_line_def t4_def t3_def)
  moreover have "sent d4 = sent d @ enter_bytes t" if "\<not> echo t" "outBuf t = []" "writes wr sent"
  proof -
    have "outBuf t2 = enter_bytes t" using that o2 f1 by (simp add: enter_bytes_def)
    with that(3) show ?thesis unfolding writes_def d4_def by (metis snd_conv)
  qed
  ultimately show ?thesis using f1(2) by auto
qed

text \<open>A turn on a proper prefix of a typed line: what it types, and the bytes of an
  unfinished character that it keeps.\<close>

lemma readLine_turn_partial:
  assumes ty: "typing t" and bytes: "remainder t @ c = of_runes rs @ [byte 13]" and c: "c \<noteq> []" and rs: "list_all typable rs"
    and len: "length (line t) + length rs \<le> maxLineLength"
  shows "\<exists>rs1 rs2 p' t' d'. readLine_turn wd wr p t d = Some (Read p' t' d') \<and> rs = rs1 @ rs2 \<and> typing t' \<and>
    line t' = line t @ rs1 \<and> remainder t' @ c = of_runes rs2 @ [byte 13] \<and> length (remainder t') \<le> 3 \<and>
    echo t' = echo t \<and> pasteActive t' = pasteActive t \<and> history t' = history t \<and> enterClear t' = enterClear t \<and> outBuf t' = [] \<and>
    (\<not> echo t \<and> outBuf t = [] \<and> writes wr sent \<longrightarrow> sent d' = sent d)"
proof -
  obtain rs1 rs2 b where b: "rs = rs1 @ rs2" "remainder t = of_runes rs1 @ b" "bytesToKey b False = (RuneError, b)"
    "length b \<le> 3"
    using typed_prefix [OF bytes c rs] by blast
  obtain t1 p1 where t1: "keyLoop wd p (remainder t) t = keyLoop wd p1 b t1" "typed t (line t @ rs1) t1"
    using keyLoop_runes [OF ty, of rs1 wd p b] rs len b by auto
  note f1 = typed_fields [OF t1(2)]
  have ty1: "typing t1" by (rule typed_typing [OF t1(2) ty])
  then have "keyLoop wd p1 b t1 = Some (NoLine b p1 t1)" using b(3) by (simp add: keyLoop_stuck typing_def)
  moreover have "take inBuf_size b = b" using b(4) by (simp add: inBuf_size_def)
  ultimately have turn: "readLine_turn wd wr p t d =
      Some (Read p1 (t1\<lparr>remainder := b, outBuf := []\<rparr>) (snd (snd (wr d (outBuf t1)))))"
    by (simp add: readLine_turn_def t1(1) flush_def)
  moreover define t2 d2 where "t2 = t1\<lparr>remainder := b, outBuf := []\<rparr>" and "d2 = snd (snd (wr d (outBuf t1)))"
  ultimately have "readLine_turn wd wr p t d = Some (Read p1 t2 d2)" by simp
  moreover have "sent d2 = sent d" if "\<not> echo t" "outBuf t = []" "writes wr sent"
  proof -
    have "outBuf t1 = []" using f1(11) that by simp
    then show ?thesis using that(3) unfolding writes_def d2_def by (metis append_Nil2 snd_conv)
  qed
  moreover have "typing t2" "line t2 = line t @ rs1" "remainder t2 @ c = of_runes rs2 @ [byte 13]" "length (remainder t2) \<le> 3"
    "echo t2 = echo t" "pasteActive t2 = pasteActive t" "history t2 = history t" "enterClear t2 = enterClear t" "outBuf t2 = []"
    using b ty1 f1 bytes by (simp_all add: t2_def of_runes_append)
  ultimately show ?thesis using b(1) by blast
qed

lemma readLine_loop_typed:
  assumes "typing t" and "remainder t @ concat cs = of_runes rs @ [byte 13]" and "list_all typable rs"
    and "length (line t) + length rs \<le> maxLineLength" and "list_all (\<lambda>c. length c \<le> 250) cs"
  shows "\<exists>t' d' left. readLine_loop wd wr (map (\<lambda>c. (c, None)) cs) p t d =
      Some (Returned (of_runes (line t @ rs)) None t' d' left) \<and> got_line (line t @ rs) t t' \<and>
    (\<not> echo t \<and> outBuf t = [] \<and> writes wr sent \<longrightarrow> sent d' = sent d @ enter_bytes t)"
  using assms
proof (induction cs arbitrary: t rs p d)
  case Nil
  then show ?case using readLine_turn_typed [of t rs wd wr p d sent] by auto
next
  case (Cons c cs)
  show ?case
  proof (cases "concat (c # cs) = []")
    case True
    then have "remainder t = of_runes rs @ [byte 13]" using Cons.prems(2) by (metis append_Nil2)
    from readLine_turn_typed [OF Cons.prems(1) this Cons.prems(3,4), of wd wr p d sent]
    obtain t' d' where turn: "readLine_turn wd wr p t d = Some (Return (of_runes (line t @ rs)) None t' d')"
      and rest: "got_line (line t @ rs) t t'"
        "\<not> echo t \<and> outBuf t = [] \<and> writes wr sent \<longrightarrow> sent d' = sent d @ enter_bytes t" by blast
    have "readLine_loop wd wr (map (\<lambda>c. (c, None)) (c # cs)) p t d =
        Some (Returned (of_runes (line t @ rs)) None t' d' (map (\<lambda>c. (c, None)) (c # cs)))"
      by (simp add: turn)
    with rest show ?thesis by blast
  next
    case False
    from readLine_turn_partial [OF Cons.prems(1,2) False Cons.prems(3,4), of wd wr p d sent]
    obtain rs1 rs2 p1 t1 d1 where turn: "readLine_turn wd wr p t d = Some (Read p1 t1 d1)"
      and b: "rs = rs1 @ rs2" "remainder t1 @ concat (c # cs) = of_runes rs2 @ [byte 13]" "length (remainder t1) \<le> 3"
      and f1: "typing t1" "line t1 = line t @ rs1" "echo t1 = echo t" "pasteActive t1 = pasteActive t" "history t1 = history t"
        "enterClear t1 = enterClear t" "outBuf t1 = []"
      and s1: "\<not> echo t \<and> outBuf t = [] \<and> writes wr sent \<longrightarrow> sent d1 = sent d" by blast
    define t2 where "t2 = t1\<lparr>remainder := remainder t1 @ c\<rparr>"
    have "length c \<le> inBuf_size - length (remainder t1)" using Cons.prems(5) b(3) by (auto simp: inBuf_size_def)
    then have step: "readLine_loop wd wr (map (\<lambda>c. (c, None)) (c # cs)) p t d =
        readLine_loop wd wr (map (\<lambda>c. (c, None)) cs) p1 t2 d1"
      by (simp add: turn Let_def t2_def)
    have f2: "typing t2" "remainder t2 @ concat cs = of_runes rs2 @ [byte 13]" "line t2 = line t @ rs1" "echo t2 = echo t"
      "pasteActive t2 = pasteActive t" "history t2 = history t" "enterClear t2 = enterClear t" "outBuf t2 = []"
      using f1 b(2) by (simp_all add: t2_def)
    obtain t' d' left where r: "readLine_loop wd wr (map (\<lambda>c. (c, None)) cs) p1 t2 d1 =
        Some (Returned (of_runes (line t @ rs)) None t' d' left)" "got_line (line t @ rs) t2 t'"
      "\<not> echo t2 \<and> outBuf t2 = [] \<and> writes wr sent \<longrightarrow> sent d' = sent d1 @ enter_bytes t2"
      using Cons.IH [OF f2(1,2), of p1 d1] Cons.prems(3-5) b(1) f2(3) by auto
    have "got_line (line t @ rs) t t'" using r(2) f2 by (simp add: got_line_def)
    moreover have "\<not> echo t \<and> outBuf t = [] \<and> writes wr sent \<longrightarrow> sent d' = sent d @ enter_bytes t"
      using r(3) s1 f2 by (simp add: enter_bytes_def)
    ultimately show ?thesis using r(1) unfolding step by blast
  qed
qed

section \<open>Properties\<close>





text \<open>reading a line never panics. Whatever bytes and errors the device
  delivers, in whatever pieces, the loop ends with the reads it is given, in a
  result and a state that satisfies the invariant of the editor.\<close>

theorem readLine_safe:
  assumes "term_inv t" and "complete_ok t"
  shows "\<exists>r. readLine wd wr rs t d = Some r \<and> term_inv (result_term r)"
proof -
  obtain t1 d1 where t1: "readLine wd wr rs t d = readLine_loop wd wr rs (pasteActive t) t1 d1" "edit t1 = edit t" "geom t1"
    using readLine_start [OF assms(1), of wd wr rs d] by blast
  have "safe t1" using term_inv_edit [OF t1(2,3) assms(1)] complete_ok_edit [OF t1(2) assms(2)] by simp
  then show ?thesis using readLine_loop_safe [of t1 wd wr rs "pasteActive t" d1] t1(1) by auto
qed

theorem readLine_safe_witness:
  "\<exists>r. readLine (\<lambda>r. False) buffer_write [(''a'' @ [byte 255, byte 27], None), ([], Some IoEOF)] (NewTerminal ''> '') []
    = Some r \<and> term_inv (result_term r)"
  by (rule readLine_safe) simp_all

text \<open>output beside an unfinished line. On a device that does not fail,
  \<open>Write\<close> reports all its bytes written; the bytes appear in one piece with every
  line feed turned into CR LF, between what clears the line and what draws it
  again; the text, its cursor and all else of the editor are as before; and
  the drawn cursor is again at its place.\<close>

theorem Write_keeps_line:
  assumes "term_inv t" and "writes wr sent" and "cursor_at wd t \<or> cursorX t \<noteq> 0 \<or> cursorY t \<noteq> 0"
  shows "\<exists>t' d' pre post. Write wd wr buf t d = Some (length buf, None, t', d') \<and>
    sent d' = sent d @ pre @ with_crlf buf @ post \<and> edit t' = edit t \<and> term_inv t' \<and> cursor_at wd t'"
  using Write_result [OF assms(1,2), of wd buf d] assms(3) term_inv_edit [OF _ _ assms(1)] by metis

theorem Write_keeps_line_witness:
  "\<exists>t' d' pre post. Write (\<lambda>r. False) buffer_write (''a'' @ [byte 10] @ ''b'') ((NewTerminal ''> '')\<lparr>cursorX := 2\<rparr>) []
      = Some (3, None, t', d') \<and> d' = pre @ with_crlf (''a'' @ [byte 10] @ ''b'') @ post"
proof -
  have "term_inv ((NewTerminal ''> '')\<lparr>cursorX := 2\<rparr>)"
    by (simp add: term_inv_def NewTerminal_def geom_def rb_inv_def emptyRing_def)
  from Write_keeps_line [OF this writes_buffer, of "\<lambda>r. False" "''a'' @ [byte 10] @ ''b''" "[]"] show ?thesis
    by (simp add: eval_nat_numeral) blast
qed

text \<open>\<open>writeWithCRLF\<close> counts as an \<open>io.Writer\<close> must: over any device that does,
  it reports at most the bytes it was given, and all of them unless it
  reports an error; the added carriage returns are not counted.\<close>

theorem writeWithCRLF_counts:
  assumes "writer_ok wr"
  shows "case writeWithCRLF wr buf d of (n, err, d') \<Rightarrow> n \<le> length buf \<and> (err = None \<longrightarrow> n = length buf)"
  using writeWithCRLF_from_count [OF assms, of 0 buf d]
  by (cases "writeWithCRLF_from wr 0 buf d") (auto simp: writeWithCRLF_def)

theorem writeWithCRLF_counts_witness:
  "case writeWithCRLF (\<lambda>d s. (0, Some IoEOF, d)) ''abc'' () of (n, err, d') \<Rightarrow> n \<le> 3 \<and> (err = None \<longrightarrow> n = 3)"
  using writeWithCRLF_counts [of "\<lambda>d s. (0, Some IoEOF, d)" "''abc''" "()"] by (simp add: writer_ok_def eval_nat_numeral)

text \<open>a new window size never breaks the editor: every width and height is
  accepted (a width of zero counts as one), the text and its place are kept,
  the drawn cursor is inside the new width, and when a line was on the screen
  and the width changed it is drawn again with the cursor at its place.\<close>

theorem SetSize_safe:
  assumes "term_inv t"
  shows "\<exists>err t' d'. SetSize wd wr w h t d = Some (err, t', d') \<and> term_inv t' \<and> line t' = line t \<and> pos t' = pos t
    \<and> cursorX t' < termWidth t' \<and> termWidth t' = (if w = 0 then 1 else w)
    \<and> (if termWidth t' \<noteq> termWidth t \<and> line t \<noteq> [] then cursor_at wd t' else True)"
proof -
  obtain err t' d' where r: "SetSize wd wr w h t d = Some (err, t', d')" "term_inv t'" "line t' = line t" "pos t' = pos t"
    "termWidth t' = (if w = 0 then 1 else w)" "termWidth t' \<noteq> termWidth t \<and> line t \<noteq> [] \<longrightarrow> cursor_at wd t'"
    using SetSize_result [OF assms, of wd wr w h d] by blast
  moreover have "cursorX t' < termWidth t'" using r(2) by (simp add: term_inv_def geom_def)
  ultimately show ?thesis by (intro exI [of _ err] exI [of _ t'] exI [of _ d'] conjI) simp_all
qed

theorem SetSize_safe_witness:
  "\<exists>err t' d'. SetSize (\<lambda>r. False) buffer_write 0 0 (NewTerminal ''> '') [] = Some (err, t', d') \<and> termWidth t' = 1"
  using SetSize_safe [of "NewTerminal ''> ''" "\<lambda>r. False" buffer_write 0 0 "[]"] by auto

text \<open>bytes after an invalid byte wait for the next read. A byte that cannot
  begin a character ends the loop over the buffer like an incomplete sequence,
  so the keys behind it, a complete line included, stay unread until the device
  delivers more.\<close>

theorem invalid_byte_stalls:
  assumes "128 \<le> bv c" and "fst (lead (bv c)) = 1" and "remainder t = c # s" and "length s \<le> 256"
  shows "\<exists>d'. readLine_turn wd wr p t d = Some (Read p (t\<lparr>remainder := s, outBuf := []\<rparr>) d')"
proof -
  obtain lo hi where l: "lead (bv c) = (1, lo, hi)" using assms(2) by (cases "lead (bv c)") auto
  then have "FullRune (c # s)" "DecodeRune (c # s) = (RuneError, 1)"
    using assms(1) by simp_all
  moreover have "c \<noteq> ESC" using assms(1) by (auto simp: ESC_def)
  ultimately have "bytesToKey (c # s) q = (RuneError, s)" for q
    using assms(1) by (auto simp: bytesToKey_def guarded_def ctrl_switch_def)
  then have "keyLoop wd p (remainder t) t = Some (NoLine s p t)"
    using assms(3) by (simp add: keyLoop.simps [of wd p "c # s"])
  then show ?thesis using assms(4) by (simp add: readLine_turn_def flush_def inBuf_size_def)
qed

theorem invalid_byte_stalls_witness:
  "\<exists>t' d'. readLine_turn (\<lambda>r. False) buffer_write False ((NewTerminal [])\<lparr>remainder := byte 255 # ''hi'' @ [byte 13]\<rparr>) []
    = Some (Read False t' d')"
  using invalid_byte_stalls [of "byte 255" "(NewTerminal [])\<lparr>remainder := byte 255 # ''hi'' @ [byte 13]\<rparr>" "''hi'' @ [byte 13]"
      "\<lambda>r. False" buffer_write False "[]"]
  by (simp add: lead_def) blast

text \<open>C34: an escape sequence can jam the terminal. Once the 256 bytes of the input
  buffer hold a sequence without a final byte, every further \<open>Read\<close> gets an empty
  buffer: whatever arrives, the loop goes round without a line or an error, and
  the state does not change.\<close>

theorem readLine_jams:
  assumes "length (remainder t) = 256" and "bytesToKey (remainder t) (pasteActive t) = (RuneError, remainder t)"
    and "list_all (\<lambda>(s, e). e = None) rs"
  shows "\<exists>d'. readLine_loop wd wr rs p t d = Some (Waiting p (t\<lparr>outBuf := []\<rparr>) d')"
  using assms
proof (induction rs arbitrary: t d)
  case Nil
  then show ?case by (simp add: readLine_turn_def keyLoop_stuck flush_def inBuf_size_def)
next
  case (Cons e rs)
  obtain s where e: "e = (s, None)" using Cons.prems(3) by (cases e) auto
  have "readLine_turn wd wr p t d = Some (Read p (t\<lparr>outBuf := []\<rparr>) (snd (snd (wr d (outBuf t)))))"
    using Cons.prems by (simp add: readLine_turn_def keyLoop_stuck flush_def inBuf_size_def)
  moreover have "\<exists>d'. readLine_loop wd wr rs p (t\<lparr>outBuf := []\<rparr>) (snd (snd (wr d (outBuf t)))) =
      Some (Waiting p (t\<lparr>outBuf := [], outBuf := []\<rparr>) d')"
    using Cons.prems by (intro Cons.IH) simp_all
  ultimately show ?case using Cons.prems(1) by (simp add: e inBuf_size_def)
qed

theorem readLine_jams_witness:
  "\<exists>d'. readLine_loop (\<lambda>r. False) buffer_write [([byte 13], None), (''x'', None)] False
      ((NewTerminal [])\<lparr>remainder := ESC # replicate 255 CHR ''0''\<rparr>) []
    = Some (Waiting False ((NewTerminal [])\<lparr>remainder := ESC # replicate 255 CHR ''0'', outBuf := []\<rparr>) d')"
proof -
  define t where "t = (NewTerminal [])\<lparr>remainder := ESC # replicate 255 CHR ''0''\<rparr>"
  define b where "b = ESC # CHR ''0'' # replicate 254 CHR ''0''"
  have rem: "remainder t = b" using replicate_Suc [of 254 "CHR ''0''"] by (simp add: t_def b_def del: replicate.simps)
  have nf: "\<not> final_byte ESC" "\<not> final_byte CHR ''0''" by (simp_all add: final_byte_def ESC_def str_eval)
  have "dropWhile (\<lambda>c. \<not> final_byte c) b = []" by (simp add: b_def nf del: replicate.simps)
  moreover have "escape_key b False = None"
    by (simp add: escape_key_def b_def guarded_def alt_switch_def pasteStart_def del: replicate.simps)
  moreover have "bv (b ! 0) = 27" "b ! 0 = ESC" "b \<noteq> []" by (simp_all add: b_def ESC_def)
  ultimately have "bytesToKey b False = (RuneError, b)"
    by (simp add: bytesToKey_def guarded_def ctrl_switch_def del: dropWhile_eq_Nil_conv)
  moreover have "pasteActive t = False" "length (remainder t) = 256" by (simp_all add: t_def NewTerminal_def del: replicate.simps)
  ultimately show ?thesis
    using readLine_jams [of t "[([byte 13], None), (''x'', None)]" "\<lambda>r. False" buffer_write False "[]"] rem
    by (simp add: t_def NewTerminal_def del: replicate.simps)
qed

end
