(* ===== verification/Session.thy ===== *)
theory Session
  imports SshdAuth Pty TermIO
begin

text \<open>
  A session of the SSH server (\<open>sshd/terminal.go\<close>): the requests by which a client
  negotiates its terminal, the wait for a shell, closing, and the key of a connection.
  The state holds the terminal of \<open>sshd/terminal\<close> and \<open>'d\<close>, what was written to the
  channel. Closing a Go channel twice panics, which is \<open>None\<close>. The channels and the
  connection are those of \<open>golang.org/x/crypto/ssh\<close>; \<open>Unmarshal\<close> of an \<open>EnvVar\<close> and
  \<open>ParsePublicKey\<close> are parameters.
\<close>

section \<open>State\<close>

type_synonym env_vars = "(string \<times> string) list"

record 'd session =
  screen :: terminal
  channel :: 'd
  ready :: bool
  hasShell :: bool
  s_env :: env_vars
  s_term :: string
  s_done :: bool
  closeOnce :: bool

record request =
  Type :: string
  Payload :: string
  WantReply :: bool

definition close_chan :: "bool \<Rightarrow> bool option" where
  "close_chan b = (if b then None else Some True)"

section \<open>The environment and the type of the terminal\<close>

definition EnvVar_String :: "string \<times> string \<Rightarrow> string" where
  "EnvVar_String v = fst v @ ''='' @ snd v"

text \<open>The loop of \<open>Get\<close>, from index \<open>n - 1\<close> down.\<close>

fun Env_loop :: "env_vars \<Rightarrow> string \<Rightarrow> nat \<Rightarrow> string" where
  "Env_loop e key 0 = []"
| "Env_loop e key (Suc i) = (if fst (e ! i) = key then snd (e ! i) else Env_loop e key i)"

definition Env_Get :: "env_vars \<Rightarrow> string \<Rightarrow> string" where
  "Env_Get e key = Env_loop e key (length e)"

definition Env :: "'d session \<Rightarrow> env_vars" where
  "Env s = s_env s"

definition Term :: "'d session \<Rightarrow> string" where
  "Term s = (if s_term s \<noteq> [] then s_term s else Env_Get (s_env s) ''TERM'')"

section \<open>Requests\<close>

text \<open>One turn of \<open>listen\<close>: the reply, if one is wanted, and the state after it.\<close>

definition resize :: "(rune \<Rightarrow> bool) \<Rightarrow> 'd writer \<Rightarrow> int \<Rightarrow> int \<Rightarrow> 'd session \<Rightarrow> (bool \<times> 'd session) option" where
  "resize wd wr width height s = do {
     (err, t, d) \<leftarrow> SetSize wd wr (nat width) (nat height) (screen s) (channel s);
     Some (err = None, s\<lparr>screen := t, channel := d\<rparr>)
   }"

definition listen_turn :: "(rune \<Rightarrow> bool) \<Rightarrow> 'd writer \<Rightarrow> (string \<Rightarrow> go_error + string \<times> string) \<Rightarrow> request \<Rightarrow> 'd session
    \<Rightarrow> (bool option \<times> 'd session) option" where
  "listen_turn wd wr Unmarshal req s = do {
     (ok, s) \<leftarrow>
       (if Type req = ''shell'' then
          (if \<not> hasShell s then do {
             r \<leftarrow> close_chan (ready s);
             Some (True, s\<lparr>hasShell := True, ready := r\<rparr>)
           }
           else Some (False, s))
        else if Type req = ''pty-req'' then
          (case parsePtyRequest (Payload req) of
             Inl panic \<Rightarrow> None
           | Inr (trm, width, height, ok) \<Rightarrow>
               if ok then do {
                 (ok, s) \<leftarrow> resize wd wr width height s;
                 Some (ok, s\<lparr>s_term := trm\<rparr>)
               }
               else Some (False, s))
        else if Type req = ''window-change'' then
          (case parseWinchRequest (Payload req) of
             (width, height, ok) \<Rightarrow> if ok then resize wd wr width height s else Some (False, s))
        else if Type req = ''env'' then
          (case Unmarshal (Payload req) of
             Inr v \<Rightarrow> Some (True, s\<lparr>s_env := s_env s @ [v]\<rparr>)
           | Inl err \<Rightarrow> Some (False, s))
        else Some (False, s));
     Some (if WantReply req then Some ok else None, s)
   }"

fun listen :: "(rune \<Rightarrow> bool) \<Rightarrow> 'd writer \<Rightarrow> (string \<Rightarrow> go_error + string \<times> string) \<Rightarrow> request list \<Rightarrow> 'd session
    \<Rightarrow> (bool option list \<times> 'd session) option" where
  "listen wd wr Unmarshal [] s = Some ([], s)"
| "listen wd wr Unmarshal (req # reqs) s = do {
     (r, s) \<leftarrow> listen_turn wd wr Unmarshal req s;
     (rs, s) \<leftarrow> listen wd wr Unmarshal reqs s;
     Some (r # rs, s)
   }"

section \<open>Starting and closing\<close>

text \<open>\<open>Close\<close> of the terminal: \<open>conn_close\<close> is the result of closing the connection.\<close>

definition Terminal_Close :: "go_error option \<Rightarrow> 'd session \<Rightarrow> (go_error option \<times> 'd session) option" where
  "Terminal_Close conn_close s =
    (if closeOnce s then Some (None, s)
     else do { d \<leftarrow> close_chan (s_done s); Some (conn_close, s\<lparr>closeOnce := True, s_done := d\<rparr>) })"

text \<open>The goroutine of the keep-alive ticker: a tick, with the error of its request or none, or the end of the
  session. It closes the terminal when a request fails, and stops.\<close>

datatype wake = Tick "go_error option" | Done

fun keepalive :: "go_error option \<Rightarrow> wake list \<Rightarrow> 'd session \<Rightarrow> 'd session option" where
  "keepalive conn_close [] s = Some s"
| "keepalive conn_close (Tick err # ws) s =
    (case err of
       None \<Rightarrow> keepalive conn_close ws s
     | Some e \<Rightarrow> do { (_, s) \<leftarrow> Terminal_Close conn_close s; Some s })"
| "keepalive conn_close (Done # ws) s = Some s"

text \<open>\<open>NewTerminal\<close> up to the wait, for a channel that \<open>Accept\<close> gave or refused.\<close>

definition NewTerminal_start :: "string \<Rightarrow> go_error + 'd \<Rightarrow> go_error + 'd session" where
  "NewTerminal_start channelType accepted =
    (if channelType \<noteq> ''session'' then Inl (Errorf ''terminal requires session channel'')
     else case accepted of
       Inl err \<Rightarrow> Inl err
     | Inr ch \<Rightarrow> Inr \<lparr>screen = NewTerminal [], channel = ch, ready = False, hasShell = False, s_env = [], s_term = [],
         s_done = False, closeOnce = False\<rparr>)"

text \<open>The wait: a \<open>select\<close> over the shell, \<open>done\<close> and a timer. It takes any case that is
  ready.\<close>

inductive NewTerminal_wait :: "'d session \<Rightarrow> bool \<Rightarrow> go_error option \<Rightarrow> bool" where
  shell: "ready s \<Longrightarrow> NewTerminal_wait s timer None"
| aborted: "s_done s \<Longrightarrow> NewTerminal_wait s timer (Some (Errorf ''terminal aborted''))"
| timed_out: "NewTerminal_wait s True (Some (Errorf ''timed out starting terminal''))"

inductive_simps NewTerminal_wait_simps [simp]: "NewTerminal_wait s timer r"

text \<open>\<open>NewSession\<close>: the types of the channels it rejected, and the first session channel.\<close>

fun NewSession :: "(string \<times> 'c) list \<Rightarrow> string list \<times> (string \<times> 'c) option" where
  "NewSession [] = ([], None)"
| "NewSession ((t, ch) # chs) =
    (if t \<noteq> ''session'' then (case NewSession chs of (rejected, found) \<Rightarrow> (t # rejected, found))
     else ([], Some (t, ch)))"

section \<open>The key of a connection\<close>

definition conn_PublicKey :: "(string \<Rightarrow> go_error + pubkey) \<Rightarrow> permissions option \<Rightarrow> pubkey option" where
  "conn_PublicKey ParsePublicKey perms =
    (case perms of
       None \<Rightarrow> None
     | Some exts \<Rightarrow>
         (case map_of exts ''pubkey'' of
            None \<Rightarrow> None
          | Some s \<Rightarrow> (case ParsePublicKey s of Inl err \<Rightarrow> None | Inr key \<Rightarrow> Some key)))"

section \<open>Steps\<close>

text \<open>What happens to a session: a request, or \<open>Close\<close> by the host, by a failed keep-alive
  or by whoever else holds the terminal.\<close>

inductive session_step :: "(rune \<Rightarrow> bool) \<Rightarrow> 'd writer \<Rightarrow> (string \<Rightarrow> go_error + string \<times> string) \<Rightarrow> 'd session \<Rightarrow> 'd session \<Rightarrow> bool"
  for wd wr Unmarshal where
  request: "listen_turn wd wr Unmarshal req s = Some (r, s') \<Longrightarrow> session_step wd wr Unmarshal s s'"
| close: "Terminal_Close err s = Some (r, s') \<Longrightarrow> session_step wd wr Unmarshal s s'"

definition session_inv :: "'d session \<Rightarrow> bool" where
  "session_inv s \<longleftrightarrow> term_inv (screen s) \<and> ready s = hasShell s \<and> s_done s = closeOnce s"

lemma session_inv_start: "NewTerminal_start t c = Inr s \<Longrightarrow> session_inv s"
  by (auto simp: NewTerminal_start_def session_inv_def split: if_splits sum.splits)

lemma Env_loop_map: "n \<le> length e \<Longrightarrow> Env_loop e key n = (case map_of (rev (take n e)) key of None \<Rightarrow> [] | Some v \<Rightarrow> v)"
  by (induction n) (auto simp: take_Suc_conv_app_nth)

lemma resize_safe:
  assumes "session_inv s"
  shows "\<exists>ok t d. resize wd wr w h s = Some (ok, s\<lparr>screen := t, channel := d\<rparr>) \<and> term_inv t \<and> line t = line (screen s)
    \<and> termWidth t = (if nat w = 0 then 1 else nat w)"
proof -
  have "term_inv (screen s)" using assms by (simp add: session_inv_def)
  then obtain err t d where t: "SetSize wd wr (nat w) (nat h) (screen s) (channel s) = Some (err, t, d)" "term_inv t"
      "line t = line (screen s)" "termWidth t = (if nat w = 0 then 1 else nat w)"
    using SetSize_result [of "screen s" wd wr "nat w" "nat h" "channel s"] by blast
  then have "resize wd wr w h s = Some (err = None, s\<lparr>screen := t, channel := d\<rparr>)" by (simp add: resize_def)
  then show ?thesis using t by blast
qed

text \<open>A payload that stops the server.\<close>

definition panics :: "request \<Rightarrow> bool" where
  "panics req \<longleftrightarrow> Type req = ''pty-req'' \<and> (\<exists>e. parsePtyRequest (Payload req) = Inl e)"

lemma listen_turn_cases:
  assumes "session_inv s"
  shows "if panics req then listen_turn wd wr Unmarshal req s = None
    else \<exists>ok s'. listen_turn wd wr Unmarshal req s = Some (if WantReply req then Some ok else None, s') \<and> session_inv s' \<and>
      s_done s' = s_done s \<and> line (screen s') = line (screen s) \<and>
      hasShell s' = (hasShell s \<or> Type req = ''shell'') \<and>
      s_env s' = s_env s @ (case Unmarshal (Payload req) of Inr v \<Rightarrow> if Type req = ''env'' then [v] else [] | Inl err \<Rightarrow> []) \<and>
      s_term s' = (if Type req = ''pty-req'' then
          (case parsePtyRequest (Payload req) of Inr (trm, w, h, True) \<Rightarrow> trm | _ \<Rightarrow> s_term s) else s_term s)"
proof -
  have inv: "ready s = hasShell s" "term_inv (screen s)" "s_done s = closeOnce s" using assms by (simp_all add: session_inv_def)
  consider "Type req = ''shell''" | "Type req = ''pty-req''" | "Type req = ''window-change''" | "Type req = ''env''"
    | "Type req \<notin> {''shell'', ''pty-req'', ''window-change'', ''env''}" by auto
  then show ?thesis
  proof cases
    case 1
    then show ?thesis using inv by (auto simp: listen_turn_def panics_def close_chan_def session_inv_def split: sum.split)
  next
    case 2
    show ?thesis
    proof (cases "parsePtyRequest (Payload req)")
      case (Inl e)
      then show ?thesis using 2 by (simp add: listen_turn_def panics_def)
    next
      case (Inr p)
      obtain trm w h ok where p: "p = (trm, w, h, ok)" by (cases p)
      show ?thesis
      proof (cases ok)
        case True
        obtain b t d where "resize wd wr w h s = Some (b, s\<lparr>screen := t, channel := d\<rparr>)" "term_inv t" "line t = line (screen s)"
          using resize_safe [OF assms] by blast
        then show ?thesis using 2 Inr p True inv
          by (auto simp: listen_turn_def panics_def session_inv_def split: sum.split)
      next
        case False
        then show ?thesis using 2 Inr p inv by (auto simp: listen_turn_def panics_def session_inv_def split: sum.split)
      qed
    qed
  next
    case 3
    obtain w h ok where p: "parseWinchRequest (Payload req) = (w, h, ok)" by (metis prod_cases3)
    obtain b t d where "resize wd wr w h s = Some (b, s\<lparr>screen := t, channel := d\<rparr>)" "term_inv t" "line t = line (screen s)"
      using resize_safe [OF assms] by blast
    then show ?thesis using 3 p inv
      by (auto simp: listen_turn_def panics_def session_inv_def split: sum.split)
  next
    case 4
    then show ?thesis using inv by (auto simp: listen_turn_def panics_def session_inv_def split: sum.split)
  next
    case 5
    then show ?thesis using inv by (auto simp: listen_turn_def panics_def session_inv_def split: sum.split)
  qed
qed


text \<open>What a list of requests asks for: the variables, a shell, the type of the terminal.\<close>

definition asked_env :: "(string \<Rightarrow> go_error + string \<times> string) \<Rightarrow> request list \<Rightarrow> env_vars" where
  "asked_env Unmarshal reqs = concat (map (\<lambda>r. case Unmarshal (Payload r) of
     Inr v \<Rightarrow> if Type r = ''env'' then [v] else [] | Inl err \<Rightarrow> []) reqs)"

definition asked_term :: "string \<Rightarrow> request list \<Rightarrow> string" where
  "asked_term t reqs = fold (\<lambda>r t. if Type r = ''pty-req'' then
     (case parsePtyRequest (Payload r) of Inr (trm, w, h, True) \<Rightarrow> trm | _ \<Rightarrow> t) else t) reqs t"

definition asks_shell :: "request list \<Rightarrow> bool" where
  "asks_shell reqs = list_ex (\<lambda>r. Type r = ''shell'') reqs"

lemma listen_spec:
  assumes "session_inv s" and "list_all (\<lambda>r. \<not> panics r) reqs"
  shows "\<exists>rs s'. listen wd wr Unmarshal reqs s = Some (rs, s') \<and> session_inv s' \<and>
    map (\<lambda>r. r \<noteq> None) rs = map WantReply reqs \<and>
    s_env s' = s_env s @ asked_env Unmarshal reqs \<and> s_term s' = asked_term (s_term s) reqs \<and>
    ready s' = (ready s \<or> asks_shell reqs) \<and> line (screen s') = line (screen s) \<and> s_done s' = s_done s"
  using assms
proof (induction reqs arbitrary: s)
  case Nil
  then show ?case by (simp add: asked_env_def asked_term_def asks_shell_def)
next
  case (Cons req reqs)
  from Cons.prems(2) have ok: "\<not> panics req" "list_all (\<lambda>r. \<not> panics r) reqs" by simp_all
  obtain b s1 where s1: "listen_turn wd wr Unmarshal req s = Some (if WantReply req then Some b else None, s1)" "session_inv s1"
      "s_done s1 = s_done s" "line (screen s1) = line (screen s)" "hasShell s1 = (hasShell s \<or> Type req = ''shell'')"
      "s_env s1 = s_env s @ asked_env Unmarshal [req]" "s_term s1 = asked_term (s_term s) [req]"
    using listen_turn_cases [OF Cons.prems(1), of req wd wr Unmarshal] ok(1)
    by (auto simp: asked_env_def asked_term_def)
  obtain rs s' where s': "listen wd wr Unmarshal reqs s1 = Some (rs, s')" "session_inv s'"
      "map (\<lambda>r. r \<noteq> None) rs = map WantReply reqs" "s_env s' = s_env s1 @ asked_env Unmarshal reqs"
      "s_term s' = asked_term (s_term s1) reqs" "ready s' = (ready s1 \<or> asks_shell reqs)"
      "line (screen s') = line (screen s1)" "s_done s' = s_done s1"
    using Cons.IH [OF s1(2) ok(2)] by blast
  have "ready s1 = hasShell s1" "ready s = hasShell s" using s1(2) Cons.prems(1) by (simp_all add: session_inv_def)
  then show ?case
    using s1 s' by (auto simp: asked_env_def asked_term_def asks_shell_def)
qed

lemma Close_inv: "session_inv s \<Longrightarrow> \<exists>r s'. Terminal_Close err s = Some (r, s') \<and> session_inv s' \<and> s_done s'"
  by (auto simp: Terminal_Close_def session_inv_def close_chan_def)

lemma session_step_inv: "session_step wd wr Unmarshal s s' \<Longrightarrow> session_inv s \<Longrightarrow> session_inv s'"
proof (induction rule: session_step.induct)
  case (request req s r s')
  then show ?case using listen_turn_cases [OF request.prems, of req wd wr Unmarshal] by (auto split: if_splits)
next
  case (close err s r s')
  then show ?case using Close_inv [OF close.prems, of err] by simp
qed

lemma session_steps_inv: "(session_step wd wr Unmarshal)\<^sup>*\<^sup>* s s' \<Longrightarrow> session_inv s \<Longrightarrow> session_inv s'"
  by (induction rule: rtranclp_induct) (auto intro: session_step_inv)

text \<open>The ticker only takes steps of the session: it closes, or does nothing.\<close>

lemma keepalive_steps:
  "keepalive conn_close ws s = Some s' \<Longrightarrow> (session_step wd wr Unmarshal)\<^sup>*\<^sup>* s s'"
proof (induction conn_close ws s rule: keepalive.induct)
  case (2 conn_close err ws s)
  then show ?case
    by (cases err) (auto simp: bind_eq_Some_conv split: prod.splits intro: session_step.close r_into_rtranclp)
qed simp_all

lemma keepalive_returns: "session_inv s \<Longrightarrow> \<exists>s'. keepalive conn_close ws s = Some s' \<and> session_inv s'"
proof (induction conn_close ws s rule: keepalive.induct)
  case (2 conn_close err ws s)
  then show ?case using Close_inv [of s conn_close] by (cases err) auto
qed simp_all

section \<open>Properties\<close>



text \<open>C12: what a client negotiates is what the host sees. After any list of requests without a
  malformed \<open>pty-req\<close>, the environment is the decoded variables in the order of the requests, the type
  of the terminal is that of the last accepted \<open>pty-req\<close>, a reply went to exactly the requests that
  wanted one, nothing of the line being edited is lost, and the terminal is handed to the host exactly
  if the client asked for a shell; then the wait cannot block.\<close>

theorem listen_negotiates:
  assumes "NewTerminal_start t c = Inr s" and "list_all (\<lambda>r. \<not> panics r) reqs"
  shows "\<exists>rs s'. listen wd wr Unmarshal reqs s = Some (rs, s') \<and> map (\<lambda>r. r \<noteq> None) rs = map WantReply reqs \<and>
    Env s' = asked_env Unmarshal reqs \<and>
    Term s' = (if asked_term [] reqs \<noteq> [] then asked_term [] reqs else Env_Get (asked_env Unmarshal reqs) ''TERM'') \<and>
    line (screen s') = line (screen s) \<and> (NewTerminal_wait s' False None \<longleftrightarrow> asks_shell reqs) \<and>
    (\<nexists>err. NewTerminal_wait s' False (Some err))"
proof -
  have s: "s_env s = []" "s_term s = []" "ready s = False" "s_done s = False"
    using assms(1) by (auto simp: NewTerminal_start_def split: if_splits sum.splits)
  obtain rs s' where s': "listen wd wr Unmarshal reqs s = Some (rs, s')" "map (\<lambda>r. r \<noteq> None) rs = map WantReply reqs"
      "s_env s' = asked_env Unmarshal reqs" "s_term s' = asked_term [] reqs" "ready s' = asks_shell reqs"
      "line (screen s') = line (screen s)" "s_done s' = False"
    using listen_spec [OF session_inv_start [OF assms(1)] assms(2), of wd wr Unmarshal] by (auto simp: s)
  show ?thesis
    by (intro exI conjI, rule s'(1), rule s'(2)) (simp_all add: s' Env_def Term_def)
qed

theorem listen_negotiates_witness:
  "\<exists>s' :: string session. \<exists>rs s. NewTerminal_start ''session'' (Inr []) = Inr s \<and>
    listen (\<lambda>r. False) (\<lambda>d bs. (length bs, None, d @ bs)) (\<lambda>p. Inr (''TERM'', p))
      [\<lparr>Type = ''env'', Payload = ''bot'', WantReply = False\<rparr>, \<lparr>Type = ''shell'', Payload = [], WantReply = True\<rparr>] s = Some (rs, s') \<and>
    Term s' = ''bot'' \<and> NewTerminal_wait s' False None"
proof -
  obtain s :: "string session" where s: "NewTerminal_start ''session'' (Inr []) = Inr s" by (simp add: NewTerminal_start_def)
  from listen_negotiates [OF this, of "[\<lparr>Type = ''env'', Payload = ''bot'', WantReply = False\<rparr>, \<lparr>Type = ''shell'', Payload = [], WantReply = True\<rparr>]"
      "\<lambda>r. False" "\<lambda>d bs. (length bs, None, d @ bs)" "\<lambda>p. Inr (''TERM'', p)"] s
  show ?thesis
    by (auto simp: panics_def asked_env_def asked_term_def asks_shell_def Env_Get_def)
qed

text \<open>\<open>Get\<close> returns the value that was set last, as a map updated in order would.\<close>

theorem Env_Get_last: "Env_Get e key = (case map_of (rev e) key of None \<Rightarrow> [] | Some v \<Rightarrow> v)"
  by (simp add: Env_Get_def Env_loop_map)

text \<open>C36: the key a client was admitted with is the key the host sees. When the callback for public keys
  admits a key, the connection made from its permissions has that key, provided the library parses what
  it marshalled; a client admitted without one has no key.\<close>

theorem admitted_key_roundtrip:
  assumes "fst (PublicKeyCallback auth now conn key a) = Inr perms" and "ParsePublicKey key = Inr key"
  shows "conn_PublicKey ParsePublicKey (Some perms) = Some key \<and> conn_PublicKey ParsePublicKey None = None"
  using assms by (auto simp: PublicKeyCallback_def conn_PublicKey_def case_prod_unfold split: option.splits)

theorem admitted_key_roundtrip_witness:
  "\<exists>perms. fst (PublicKeyCallback (Auth_iface (sample_lib [])) 0 \<lparr>RemoteAddr = ''a'', ClientVersion = ''c''\<rparr> ''k'' (NewAuth id)) = Inr perms \<and>
    conn_PublicKey Inr (Some perms) = Some ''k''"
proof -
  obtain perms where p: "fst (PublicKeyCallback (Auth_iface (sample_lib [])) 0 \<lparr>RemoteAddr = ''a'', ClientVersion = ''c''\<rparr> ''k'' (NewAuth id)) =
      Inr perms"
    using sshd_conn.key_accepted_iff [of "sample_lib []" 0 "\<lparr>RemoteAddr = ''a'', ClientVersion = ''c''\<rparr>" "''k''" "NewAuth id"]
    by (auto simp: Auth_iface_def CheckBans_result CheckPublicKey_result AllowAnonymous_def ban_applies_def key_listed_def
        holds_def NewAuth_def New_def live_def)
  then show ?thesis using admitted_key_roundtrip [OF p, of Inr] by blast
qed

text \<open>\<open>NewSession\<close> takes the first session channel and rejects exactly the channels before it.\<close>

theorem NewSession_first:
  "NewSession chs = (map fst (takeWhile (\<lambda>(t, ch). t \<noteq> ''session'') chs), List.find (\<lambda>(t, ch). t = ''session'') chs)"
  by (induction chs rule: NewSession.induct) auto

end
