(* ===== verification/Listener.thy ===== *)
theory Listener
  imports Session
begin

text \<open>
  The listener of the SSH server (\<open>sshd/net.go\<close>): what becomes of a connection between
  \<open>Accept\<close> and the handler of the host. The handshake is the library's
  \<open>ssh.NewServerConn\<close>, a parameter that asks the callbacks of \<open>MakeAuth\<close>; what is known of
  it is \<open>handshake_law\<close>. The deadline and the limit on the rate of input act on the
  connection below it.
\<close>

section \<open>The server's configuration\<close>

record 'a server_config =
  PublicKey_cb :: "time \<Rightarrow> conn_meta \<Rightarrow> pubkey \<Rightarrow> 'a \<Rightarrow> (go_error + permissions) \<times> 'a"
  KeyboardInteractive_cb :: "time \<Rightarrow> conn_meta \<Rightarrow> go_error + string list \<Rightarrow> 'a \<Rightarrow> go_error option \<times> 'a"

definition MakeAuth :: "'a auth_iface \<Rightarrow> 'a server_config" where
  "MakeAuth auth =
    \<lparr>PublicKey_cb = PublicKeyCallback auth, KeyboardInteractive_cb = KeyboardInteractiveCallback auth\<rparr>"

section \<open>A connection\<close>

type_synonym ('a, 'd) handshake =
  "'a server_config \<Rightarrow> conn_meta \<Rightarrow> 'a \<Rightarrow> (go_error + permissions option \<times> (string \<times> (go_error + 'd)) list) \<times> 'a"

text \<open>\<open>handleConn\<close> as a relation: while it waits, the client sends the requests \<open>reqs\<close>, and of the
  ends of the wait any that is ready may happen. The result is the permissions and the terminal.\<close>

inductive handleConn :: "('a, 'd) handshake \<Rightarrow> 'a server_config \<Rightarrow> (rune \<Rightarrow> bool) \<Rightarrow> 'd writer
    \<Rightarrow> (string \<Rightarrow> go_error + string \<times> string) \<Rightarrow> conn_meta \<Rightarrow> 'a \<Rightarrow> go_error + permissions option \<times> 'd session \<Rightarrow> 'a \<Rightarrow> bool"
  for NewServerConn cfg wd wr Unmarshal conn a where
  no_handshake: "NewServerConn cfg conn a = (Inl err, a') \<Longrightarrow>
    handleConn NewServerConn cfg wd wr Unmarshal conn a (Inl err) a'"
| no_session: "NewServerConn cfg conn a = (Inr (perms, channels), a') \<Longrightarrow> NewSession channels = (rejected, None) \<Longrightarrow>
    handleConn NewServerConn cfg wd wr Unmarshal conn a (Inl (Errorf ''no session channel'')) a'"
| no_channel: "NewServerConn cfg conn a = (Inr (perms, channels), a') \<Longrightarrow>
    NewSession channels = (rejected, Some (t, ch)) \<Longrightarrow> NewTerminal_start t ch = Inl err \<Longrightarrow>
    handleConn NewServerConn cfg wd wr Unmarshal conn a (Inl err) a'"
| not_ready: "NewServerConn cfg conn a = (Inr (perms, channels), a') \<Longrightarrow>
    NewSession channels = (rejected, Some (t, ch)) \<Longrightarrow> NewTerminal_start t ch = Inr s \<Longrightarrow>
    listen wd wr Unmarshal reqs s = Some (replies, s') \<Longrightarrow> NewTerminal_wait s' timer (Some err) \<Longrightarrow>
    handleConn NewServerConn cfg wd wr Unmarshal conn a (Inl err) a'"
| ready: "NewServerConn cfg conn a = (Inr (perms, channels), a') \<Longrightarrow>
    NewSession channels = (rejected, Some (t, ch)) \<Longrightarrow> NewTerminal_start t ch = Inr s \<Longrightarrow>
    listen wd wr Unmarshal reqs s = Some (replies, s') \<Longrightarrow> NewTerminal_wait s' timer None \<Longrightarrow>
    handleConn NewServerConn cfg wd wr Unmarshal conn a (Inr (perms, s')) a'"

inductive_cases handleConn_served: "handleConn NewServerConn cfg wd wr Unmarshal conn a (Inr r) a'"

text \<open>What \<open>Serve\<close> does with the result, in the goroutine of the connection.\<close>

datatype 'd served = Closed | Handled "permissions option" "'d session"

definition Serve_result :: "go_error + permissions option \<times> 'd session \<Rightarrow> 'd served" where
  "Serve_result r = (case r of Inl err \<Rightarrow> Closed | Inr (perms, s) \<Rightarrow> Handled perms s)"

section \<open>The handshake\<close>

text \<open>A question to a callback: a key that the client has, or the answers to a challenge.\<close>

datatype attempt = Offer time pubkey | Answers time "go_error + string list"

primrec attempt_time :: "attempt \<Rightarrow> time" where
  "attempt_time (Offer t key) = t"
| "attempt_time (Answers t challenge) = t"

fun ask :: "'a server_config \<Rightarrow> conn_meta \<Rightarrow> attempt \<Rightarrow> 'a \<Rightarrow> (go_error + permissions option) \<times> 'a" where
  "ask cfg conn (Offer t key) a =
    (case PublicKey_cb cfg t conn key a of (Inl err, a) \<Rightarrow> (Inl err, a) | (Inr perms, a) \<Rightarrow> (Inr (Some perms), a))"
| "ask cfg conn (Answers t challenge) a =
    (case KeyboardInteractive_cb cfg t conn challenge a of (Some err, a) \<Rightarrow> (Inl err, a) | (None, a) \<Rightarrow> (Inr None, a))"

fun ask_all :: "'a server_config \<Rightarrow> conn_meta \<Rightarrow> attempt list \<Rightarrow> 'a \<Rightarrow> 'a" where
  "ask_all cfg conn [] a = a"
| "ask_all cfg conn (x # xs) a = ask_all cfg conn xs (snd (ask cfg conn x a))"

text \<open>What the library documents: a handshake succeeds with the permissions of the last
  question, to which the callback gave no error. The questions come in order between two
  times, and the keys of the client are among \<open>keys\<close>.\<close>

definition handshake_law :: "('a, 'd) handshake \<Rightarrow> 'a server_config \<Rightarrow> time \<Rightarrow> time \<Rightarrow> pubkey set \<Rightarrow> bool" where
  "handshake_law NewServerConn cfg t0 t1 keys \<longleftrightarrow>
    (\<forall>conn a perms channels a'. NewServerConn cfg conn a = (Inr (perms, channels), a') \<longrightarrow>
      (\<exists>xs x. ask cfg conn x (ask_all cfg conn xs a) = (Inr perms, a') \<and>
        sorted (t0 # map attempt_time (xs @ [x]) @ [t1]) \<and> (\<forall>t key. Offer t key \<in> set (xs @ [x]) \<longrightarrow> key \<in> keys)))"

section \<open>Bans during a handshake\<close>

text \<open>From \<open>t\<close> to \<open>t1\<close> the address is banned, and none of the keys is an operator's.\<close>

definition shut_out :: "golib \<Rightarrow> (rune \<Rightarrow> rune) \<Rightarrow> netaddr \<Rightarrow> pubkey set \<Rightarrow> time \<Rightarrow> time \<Rightarrow> auth \<Rightarrow> bool" where
  "shut_out lib low addr keys t t1 a \<longleftrightarrow> auth_inv low a \<and>
    holds t1 (bannedAddr a) (normalizer (bannedAddr a) (newAuthAddr (Some addr))) \<and>
    (\<forall>key\<in>keys. \<not> key_listed lib t (Some key) (ops a))"

lemma holds_earlier: "holds t' s k \<Longrightarrow> t \<le> t' \<Longrightarrow> holds t s k"
  unfolding holds_def using live_expires [of t t' s k] by (cases "live t s k") auto

lemma shut_out_later: "shut_out lib low addr keys t t1 a \<Longrightarrow> t \<le> t' \<Longrightarrow> shut_out lib low addr keys t' t1 a"
  unfolding shut_out_def key_listed_def by (auto dest: holds_earlier [where t = t and t' = t'])

lemma shut_out_refused:
  assumes "shut_out lib low addr keys t t1 a" and "t \<le> t1" and "key = None \<or> key \<in> Some ` keys"
  shows "fst (CheckBans lib t (Some addr) key client a) = Some ErrBanned"
    and "shut_out lib low addr keys t t1 (snd (CheckBans lib t (Some addr) key client a))"
proof -
  have "holds t (bannedAddr a) (normalizer (bannedAddr a) (newAuthAddr (Some addr)))"
    using assms(1,2) by (auto simp: shut_out_def intro: holds_earlier [where t' = t1])
  moreover have "\<not> key_listed lib t key (ops a)"
    using assms(1,3) no_key_unlisted by (auto simp: shut_out_def)
  ultimately show "fst (CheckBans lib t (Some addr) key client a) = Some ErrBanned"
    by (simp add: CheckBans_result ban_applies_def)
  show "shut_out lib low addr keys t t1 (snd (CheckBans lib t (Some addr) key client a))"
    using assms(1,2) CheckBans_same [of t lib "Some addr" key client a] auth_inv_CheckBans [of low a lib t "Some addr" key client]
    by (simp add: shut_out_def same_lists_def key_listed_def)
qed

lemma ask_refused:
  assumes "shut_out lib low (RemoteAddr conn) keys (attempt_time x) t1 a" and "attempt_time x \<le> t1"
    and "\<forall>t key. x = Offer t key \<longrightarrow> key \<in> keys"
  shows "\<exists>err a'. ask (MakeAuth (Auth_iface lib)) conn x a = (Inl err, a') \<and> shut_out lib low (RemoteAddr conn) keys (attempt_time x) t1 a'"
proof (cases x)
  case (Offer t key)
  then obtain b where "CheckBans lib t (Some (RemoteAddr conn)) (Some key) (Data (ClientVersion conn) 64) a = (Some ErrBanned, b)"
      "shut_out lib low (RemoteAddr conn) keys t t1 b"
    using shut_out_refused [OF assms(1,2), of "Some key" "Data (ClientVersion conn) 64"] assms(3) by (metis attempt_time.simps(1) image_eqI prod.collapse)
  then show ?thesis by (simp add: Offer MakeAuth_def PublicKeyCallback_def Auth_iface_def)
next
  case (Answers t challenge)
  then obtain b where "CheckBans lib t (Some (RemoteAddr conn)) None (Data (ClientVersion conn) 64) a = (Some ErrBanned, b)"
      "shut_out lib low (RemoteAddr conn) keys t t1 b"
    using shut_out_refused [OF assms(1,2), of None "Data (ClientVersion conn) 64"] by (metis attempt_time.simps(2) prod.collapse)
  then show ?thesis by (simp add: Answers MakeAuth_def KeyboardInteractiveCallback_def Auth_iface_def)
qed

lemma all_refused:
  assumes "shut_out lib low (RemoteAddr conn) keys t0 t1 a" and "sorted (t0 # map attempt_time (xs @ [x]) @ [t1])"
    and "\<forall>t key. Offer t key \<in> set (xs @ [x]) \<longrightarrow> key \<in> keys"
  shows "\<exists>err a'. ask (MakeAuth (Auth_iface lib)) conn x (ask_all (MakeAuth (Auth_iface lib)) conn xs a) = (Inl err, a')"
  using assms
proof (induction xs arbitrary: t0 a)
  case Nil
  then have "shut_out lib low (RemoteAddr conn) keys (attempt_time x) t1 a" using shut_out_later by auto
  then show ?case using ask_refused [of lib low conn keys x t1 a] Nil.prems(2,3) by auto
next
  case (Cons y ys)
  have "shut_out lib low (RemoteAddr conn) keys (attempt_time y) t1 a" using Cons.prems(1,2) shut_out_later by auto
  then obtain err b where b: "ask (MakeAuth (Auth_iface lib)) conn y a = (Inl err, b)"
      "shut_out lib low (RemoteAddr conn) keys (attempt_time y) t1 b"
    using ask_refused [of lib low conn keys y t1 a] Cons.prems(2,3) by auto
  have "sorted (attempt_time y # map attempt_time (ys @ [x]) @ [t1])" using Cons.prems(2) by simp
  then show ?case using Cons.IH [OF b(2)] Cons.prems(3) b(1) by simp
qed

section \<open>Properties\<close>

text \<open>A library that offers the one key of the client at time 5, and opens one session.\<close>

definition ex_handshake :: "(auth, string) handshake" where
  "ex_handshake cfg conn a =
    (case ask cfg conn (Offer 5 ''k'') a of
       (Inl err, a) \<Rightarrow> (Inl err, a)
     | (Inr perms, a) \<Rightarrow> (Inr (perms, [(''session'', Inr [])]), a))"

lemma ex_handshake_law: "handshake_law ex_handshake cfg 0 10 {''k''}"
  unfolding handshake_law_def
proof (intro allI impI)
  fix conn a perms channels a'
  assume "ex_handshake cfg conn a = (Inr (perms, channels), a')"
  then have "ask cfg conn (Offer 5 ''k'') (ask_all cfg conn [] a) = (Inr perms, a')"
    by (simp add: ex_handshake_def split: prod.splits sum.splits)
  then show "\<exists>xs x. ask cfg conn x (ask_all cfg conn xs a) = (Inr perms, a') \<and>
      sorted (0 # map attempt_time (xs @ [x]) @ [10]) \<and> (\<forall>t key. Offer t key \<in> set (xs @ [x]) \<longrightarrow> key \<in> {''k''})"
    by (intro exI [of _ "[]"] exI [of _ "Offer 5 ''k''"]) simp
qed

abbreviation ex_handle :: "auth \<Rightarrow> go_error + permissions option \<times> string session \<Rightarrow> auth \<Rightarrow> bool" where
  "ex_handle \<equiv> handleConn ex_handshake (MakeAuth (Auth_iface (sample_lib []))) (\<lambda>r. False) (\<lambda>d bs. (length bs, None, d @ bs))
    (\<lambda>p. Inr (p, p)) \<lparr>RemoteAddr = ''h'', ClientVersion = ''c''\<rparr>"

text \<open>whoever reaches the host was let in. A connection that is handed to the handler of the host
  passed one of the callbacks during its handshake, with a key of its own, which the host then sees, or
  without a key; and its client asked for a shell.\<close>

theorem handled_was_admitted:
  assumes "handleConn NewServerConn (MakeAuth auth) wd wr Unmarshal conn a r a'" and "Serve_result r = Handled perms s"
    and "handshake_law NewServerConn (MakeAuth auth) t0 t1 keys" and "\<forall>key\<in>keys. ParsePublicKey key = Inr key"
  shows "(\<exists>b t. t0 \<le> t \<and> t \<le> t1 \<and>
      ((\<exists>key\<in>keys. fst (PublicKeyCallback auth t conn key b) = Inr (the perms) \<and> conn_PublicKey ParsePublicKey perms = Some key) \<or>
       (\<exists>challenge. fst (KeyboardInteractiveCallback auth t conn challenge b) = None \<and> conn_PublicKey ParsePublicKey perms = None))) \<and>
    ready s"
proof -
  obtain channels rejected ty ch s0 reqs replies timer where h: "NewServerConn (MakeAuth auth) conn a = (Inr (perms, channels), a')"
      "NewTerminal_start ty ch = Inr s0" "listen wd wr Unmarshal reqs s0 = Some (replies, s)" "NewTerminal_wait s timer None"
    using assms(1,2) by (auto simp: Serve_result_def split: sum.splits elim!: handleConn_served)
  obtain xs x where x: "ask (MakeAuth auth) conn x (ask_all (MakeAuth auth) conn xs a) = (Inr perms, a')"
      "sorted (t0 # map attempt_time (xs @ [x]) @ [t1])" "\<forall>t key. Offer t key \<in> set (xs @ [x]) \<longrightarrow> key \<in> keys"
    using assms(3) h(1) unfolding handshake_law_def by blast
  let ?b = "ask_all (MakeAuth auth) conn xs a"
  have t: "t0 \<le> attempt_time x" "attempt_time x \<le> t1" using x(2) by (simp_all add: sorted_append)
  show ?thesis
  proof (cases x)
    case (Offer t key)
    then have "\<exists>p. perms = Some p \<and> fst (PublicKeyCallback auth t conn key ?b) = Inr p"
      using x(1) by (auto simp: MakeAuth_def split: prod.splits sum.splits)
    moreover from this have "perms = Some [(''pubkey'', key)]"
      by (auto simp: PublicKeyCallback_def split: prod.splits option.splits)
    ultimately show ?thesis
      using Offer t x(3) h(4) assms(4) by (auto simp: conn_PublicKey_def intro!: exI [of _ ?b] exI [of _ t])
  next
    case (Answers t challenge)
    then have "perms = None \<and> fst (KeyboardInteractiveCallback auth t conn challenge ?b) = None"
      using x(1) by (auto simp: MakeAuth_def split: prod.splits option.splits)
    then show ?thesis
      using Answers t h(4) by (auto simp: conn_PublicKey_def intro!: exI [of _ ?b] exI [of _ t])
  qed
qed

theorem handled_was_admitted_witness:
  "\<exists>r a' perms s. ex_handle (NewAuth id) r a' \<and> Serve_result r = Handled perms s \<and> ready s"
proof -
  have "\<exists>perms. fst (PublicKeyCallback (Auth_iface (sample_lib [])) 5 \<lparr>RemoteAddr = ''h'', ClientVersion = ''c''\<rparr> ''k'' (NewAuth id)) = Inr perms"
    unfolding sshd_conn.key_accepted_iff
    by (simp add: Auth_iface_def CheckBans_result CheckPublicKey_result AllowAnonymous_def ban_applies_def key_listed_def
        holds_def NewAuth_def New_def live_def)
  then obtain perms a' where "PublicKeyCallback (Auth_iface (sample_lib [])) 5 \<lparr>RemoteAddr = ''h'', ClientVersion = ''c''\<rparr> ''k'' (NewAuth id) = (Inr perms, a')"
    by (metis prod.collapse)
  then have p: "ex_handshake (MakeAuth (Auth_iface (sample_lib []))) \<lparr>RemoteAddr = ''h'', ClientVersion = ''c''\<rparr> (NewAuth id) =
      (Inr (Some perms, [(''session'', Inr [])]), a')"
    by (simp add: ex_handshake_def MakeAuth_def)
  let ?s = "\<lparr>screen = NewTerminal [], channel = [], ready = False, hasShell = False, s_env = [], s_term = [], s_done = False, closeOnce = False\<rparr>"
  have "ex_handle (NewAuth id) (Inr (Some perms, ?s\<lparr>hasShell := True, ready := True\<rparr>)) a'"
  proof (rule handleConn.ready)
    show "NewSession [(''session'', Inr [])] = ([], Some (''session'', Inr []))" by simp
    show "NewTerminal_start ''session'' (Inr []) = Inr ?s" by (simp add: NewTerminal_start_def)
    show "listen (\<lambda>r. False) (\<lambda>d bs. (length bs, None, d @ bs)) (\<lambda>p. Inr (p, p)) [\<lparr>Type = ''shell'', Payload = [], WantReply = False\<rparr>] ?s =
        Some ([None], ?s\<lparr>hasShell := True, ready := True\<rparr>)"
      by (simp add: listen_turn_def close_chan_def)
  qed (rule p, simp)
  from handled_was_admitted [OF this _ ex_handshake_law, of "Some perms" _ Inr] this show ?thesis
    by (auto simp: Serve_result_def)
qed

text \<open>C7: a banned address never reaches the host. While its address is banned, whatever keys that are
  no operator's, and whatever answers, a client offers in its handshake, the connection is closed.\<close>

theorem banned_never_handled:
  assumes "shut_out lib low (RemoteAddr conn) keys t0 t1 a"
    and "handshake_law NewServerConn (MakeAuth (Auth_iface lib)) t0 t1 keys"
    and "handleConn NewServerConn (MakeAuth (Auth_iface lib)) wd wr Unmarshal conn a r a'"
  shows "Serve_result r = Closed"
proof (cases r)
  case (Inr p)
  obtain perms s where p: "p = (perms, s)" by (cases p)
  obtain channels where "NewServerConn (MakeAuth (Auth_iface lib)) conn a = (Inr (perms, channels), a')"
    using assms(3) unfolding Inr p by (auto elim: handleConn_served)
  then obtain xs x where x: "ask (MakeAuth (Auth_iface lib)) conn x (ask_all (MakeAuth (Auth_iface lib)) conn xs a) = (Inr perms, a')"
      "sorted (t0 # map attempt_time (xs @ [x]) @ [t1])" "\<forall>t key. Offer t key \<in> set (xs @ [x]) \<longrightarrow> key \<in> keys"
    using assms(2) unfolding handshake_law_def by blast
  then show ?thesis using all_refused [OF assms(1) x(2,3)] by simp
qed (simp add: Serve_result_def)

theorem banned_never_handled_witness:
  "\<exists>err a'. ex_handle (BanAddr 0 (Some ''h'') 100 (NewAuth id)) (Inl err) a' \<and> Serve_result (Inl err :: go_error + permissions option \<times> string session) = Closed"
proof -
  let ?a = "BanAddr 0 (Some ''h'') 100 (NewAuth id)"
  have "auth_inv id ?a" by (rule auth_inv_Ban) (rule auth_inv_New)
  then have shut: "shut_out (sample_lib []) id (RemoteAddr \<lparr>RemoteAddr = ''h'', ClientVersion = ''c''\<rparr>) {''k''} 0 10 ?a"
    by (simp add: shut_out_def BanAddr_def holds_put_for key_listed_def) (simp add: NewAuth_def holds_def live_def New_def)
  obtain err a' where "ask (MakeAuth (Auth_iface (sample_lib []))) \<lparr>RemoteAddr = ''h'', ClientVersion = ''c''\<rparr> (Offer 5 ''k'') ?a = (Inl err, a')"
    using all_refused [OF shut, of "[]" "Offer 5 ''k''"] by auto
  then have "ex_handle ?a (Inl err) a'" by (intro handleConn.no_handshake) (simp add: ex_handshake_def)
  then show ?thesis using banned_never_handled [OF shut ex_handshake_law] by blast
qed

end
