(* ===== verification/Client.thy ===== *)
theory Client
  imports Listener
begin

text \<open>
  The client for tests and bots (\<open>sshd/client.go\<close>). \<open>golang.org/x/crypto/ssh\<close> is the parameter
  \<open>ssh_lib\<close>: its operations on a state of any type \<open>'s\<close>, with connections, sessions and pipes as numbers.
  The properties are about the order of its calls: what was opened is closed, and the handler runs
  last; and about whom the server admits with the configuration that \<open>NewClientConfig\<close> makes.
\<close>

section \<open>Configurations\<close>

text \<open>An \<open>ssh.AuthMethod\<close>: the function that answers a challenge (user, instruction, questions, echos), or a key.\<close>

datatype 'k auth_method =
    KeyboardInteractive "string \<Rightarrow> string \<Rightarrow> string list \<Rightarrow> bool list \<Rightarrow> go_error + string list"
  | PublicKeys 'k

record 'k client_config =
  User :: string
  Auth_methods :: "'k auth_method list"
  InsecureIgnoreHostKey :: bool

definition NewClientConfig :: "string \<Rightarrow> 'k client_config" where
  "NewClientConfig name =
    \<lparr>User = name,
     Auth_methods = [KeyboardInteractive (\<lambda>user instruction questions echos. Inr [])],
     InsecureIgnoreHostKey = True\<rparr>"

definition NewClientConfigWithKey :: "string \<Rightarrow> 'k \<Rightarrow> 'k client_config" where
  "NewClientConfigWithKey name key =
    \<lparr>User = name, Auth_methods = [PublicKeys key], InsecureIgnoreHostKey = True\<rparr>"

text \<open>\<open>generate\<close> is \<open>rsa.GenerateKey\<close> with the random source of the system, \<open>signer\<close> is \<open>ssh.NewSignerFromKey\<close>.\<close>

definition NewRandomSigner :: "(int \<Rightarrow> go_error + 'p) \<Rightarrow> ('p \<Rightarrow> go_error + 'k) \<Rightarrow> int \<Rightarrow> go_error + 'k" where
  "NewRandomSigner generate signer bits = (case generate bits of Inl err \<Rightarrow> Inl err | Inr key \<Rightarrow> signer key)"

section \<open>A shell\<close>

record ('k, 's) ssh_lib =
  Dial :: "string \<Rightarrow> string \<Rightarrow> 'k client_config \<Rightarrow> 's \<Rightarrow> (go_error + nat) \<times> 's"
  conn_NewSession :: "nat \<Rightarrow> 's \<Rightarrow> (go_error + nat) \<times> 's"
  StdinPipe :: "nat \<Rightarrow> 's \<Rightarrow> (go_error + nat) \<times> 's"
  StdoutPipe :: "nat \<Rightarrow> 's \<Rightarrow> (go_error + nat) \<times> 's"
  Shell :: "nat \<Rightarrow> 's \<Rightarrow> go_error option \<times> 's"
  SendRequest :: "nat \<Rightarrow> string \<Rightarrow> bool \<Rightarrow> 's \<Rightarrow> (go_error + bool) \<times> 's"
  session_Close :: "nat \<Rightarrow> 's \<Rightarrow> 's"
  conn_Close :: "nat \<Rightarrow> 's \<Rightarrow> 's"

type_synonym 's shell_handler = "nat \<Rightarrow> nat \<Rightarrow> 's \<Rightarrow> go_error option \<times> 's"

text \<open>The calls behind the session, up to the handler.\<close>

definition run_shell :: "('k, 's) ssh_lib \<Rightarrow> 's shell_handler \<Rightarrow> nat \<Rightarrow> 's \<Rightarrow> go_error option \<times> 's" where
  "run_shell lib handler session s =
    (case StdinPipe lib session s of
       (Inl err, s) \<Rightarrow> (Some err, s)
     | (Inr inp, s) \<Rightarrow>
     (case StdoutPipe lib session s of
       (Inl err, s) \<Rightarrow> (Some err, s)
     | (Inr outp, s) \<Rightarrow>
     (case Shell lib session s of
       (Some err, s) \<Rightarrow> (Some err, s)
     | (None, s) \<Rightarrow>
     (case SendRequest lib session ''ping'' True s of
       (Inl err, s) \<Rightarrow> (Some err, s)
     | (Inr ok, s) \<Rightarrow> handler outp inp s))))"

definition connectShell :: "('k, 's) ssh_lib \<Rightarrow> string \<Rightarrow> 'k client_config \<Rightarrow> 's shell_handler \<Rightarrow> 's \<Rightarrow> go_error option \<times> 's" where
  "connectShell lib host config handler s =
    (case Dial lib ''tcp'' host config s of
       (Inl err, s) \<Rightarrow> (Some err, s)
     | (Inr c, s) \<Rightarrow>
         (case (case conn_NewSession lib c s of
                  (Inl err, s) \<Rightarrow> (Some err, s)
                | (Inr session, s) \<Rightarrow>
                    (case run_shell lib handler session s of (err, s) \<Rightarrow> (err, session_Close lib session s))) of
            (err, s) \<Rightarrow> (err, conn_Close lib c s)))"

definition ConnectShell :: "('k, 's) ssh_lib \<Rightarrow> string \<Rightarrow> string \<Rightarrow> 's shell_handler \<Rightarrow> 's \<Rightarrow> go_error option \<times> 's" where
  "ConnectShell lib host name handler s = connectShell lib host (NewClientConfig name) handler s"

definition ConnectShellWithKey :: "('k, 's) ssh_lib \<Rightarrow> string \<Rightarrow> string \<Rightarrow> 'k \<Rightarrow> 's shell_handler \<Rightarrow> 's \<Rightarrow> go_error option \<times> 's" where
  "ConnectShellWithKey lib host name key handler s = connectShell lib host (NewClientConfigWithKey name key) handler s"

section \<open>Calls\<close>

text \<open>A library that writes down what it is asked and answers as \<open>ans\<close> says, \<open>None\<close> being success.\<close>

datatype call =
    Dialled string
  | Opened nat
  | Stdin nat
  | Stdout nat
  | Shelled nat
  | Requested nat string
  | Ran nat nat
  | ClosedSession nat
  | ClosedConn nat

definition noted :: "(call \<Rightarrow> go_error option) \<Rightarrow> call \<Rightarrow> 'b \<Rightarrow> call list \<Rightarrow> (go_error + 'b) \<times> call list" where
  "noted ans c x s = (case ans c of None \<Rightarrow> Inr x | Some err \<Rightarrow> Inl err, s @ [c])"

definition noting :: "(call \<Rightarrow> go_error option) \<Rightarrow> ('k, call list) ssh_lib" where
  "noting ans =
    \<lparr>Dial = (\<lambda>net host config. noted ans (Dialled host) 0),
     conn_NewSession = (\<lambda>c. noted ans (Opened c) 1),
     StdinPipe = (\<lambda>n. noted ans (Stdin n) 2),
     StdoutPipe = (\<lambda>n. noted ans (Stdout n) 3),
     Shell = (\<lambda>n s. (ans (Shelled n), s @ [Shelled n])),
     SendRequest = (\<lambda>n name want. noted ans (Requested n name) True),
     session_Close = (\<lambda>n s. s @ [ClosedSession n]),
     conn_Close = (\<lambda>c s. s @ [ClosedConn c])\<rparr>"

definition noting_handler :: "(call \<Rightarrow> go_error option) \<Rightarrow> call list shell_handler" where
  "noting_handler ans outp inp s = (ans (Ran outp inp), s @ [Ran outp inp])"

text \<open>The calls up to the first that fails.\<close>

fun until_error :: "(call \<Rightarrow> go_error option) \<Rightarrow> call list \<Rightarrow> go_error option \<times> call list" where
  "until_error ans [] = (None, [])"
| "until_error ans (c # cs) =
    (case ans c of Some err \<Rightarrow> (Some err, [c]) | None \<Rightarrow> (case until_error ans cs of (err, cs) \<Rightarrow> (err, c # cs)))"

text \<open>the calls of \<open>connectShell\<close>, whichever of them fails. They come in one order up to the first that
  fails, whose error is returned; the handler is the last of them; and what had been opened is then
  closed, the session before the connection.\<close>

theorem connectShell_calls:
  "connectShell (noting ans) host config (noting_handler ans) [] =
    (case until_error ans [Dialled host, Opened 0, Stdin 1, Stdout 1, Shelled 1, Requested 1 ''ping'', Ran 3 2] of
       (err, cs) \<Rightarrow> (err, cs @ (if ans (Dialled host) = None
         then (if ans (Opened 0) = None then [ClosedSession 1] else []) @ [ClosedConn 0] else [])))"
  by (simp add: connectShell_def run_shell_def noting_def noted_def noting_handler_def split: option.split)

text \<open>What a client answers to a challenge: what its method for challenges gives, if it has one.\<close>

definition answers_of :: "'k client_config \<Rightarrow> string \<Rightarrow> string \<Rightarrow> string list \<Rightarrow> bool list \<Rightarrow> (go_error + string list) option" where
  "answers_of config user instruction questions echos =
    (case List.map_filter (\<lambda>m. case m of KeyboardInteractive f \<Rightarrow> Some f | PublicKeys k \<Rightarrow> None) (Auth_methods config) of
       [] \<Rightarrow> None
     | f # fs \<Rightarrow> Some (f user instruction questions echos))"

text \<open>the barebones client and the server. Its configuration answers a challenge with nothing, so the server
  admits it exactly when no ban applies and neither a passphrase nor a listed key is asked for.\<close>

theorem bare_client_admitted:
  assumes "auth_reach lib low a"
    and "answers_of (NewClientConfig name) [] [] [''Passphrase required to connect: ''] [True] = Some challenge"
  shows "fst (KeyboardInteractiveCallback (Auth_iface lib) now conn challenge a) = None \<longleftrightarrow>
    \<not> ban_applies lib now (Some (RemoteAddr conn)) None (Data (ClientVersion conn) 64) a \<and>
    passphraseHash a = None \<and> \<not> allowlistMode a"
proof -
  have "challenge = Inr []" using assms(2) by (simp add: answers_of_def NewClientConfig_def map_filter_simps)
  then show ?thesis
    using no_key_unlisted [OF auth_reach_inv [OF assms(1)], of lib now]
    unfolding sshd_conn.keyboard_accepted_iff
    by (auto simp: Auth_iface_def CheckBans_result AcceptPassphrase_def AllowAnonymous_def CheckPassphrase_def
        split: option.splits)
qed

theorem bare_client_admitted_witness:
  "fst (KeyboardInteractiveCallback (Auth_iface (sample_lib [])) 3 \<lparr>RemoteAddr = ''1.2.3.4:5'', ClientVersion = ''c''\<rparr>
      (Inr []) (NewAuth (\<lambda>r. r))) = None"
proof -
  have r: "auth_reach (sample_lib []) (\<lambda>r. r) (NewAuth (\<lambda>r. r))" by (rule auth_reach.start)
  have c: "answers_of (NewClientConfig ''bot'') [] [] [''Passphrase required to connect: ''] [True] = Some (Inr [])"
    by (simp add: answers_of_def NewClientConfig_def map_filter_simps)
  show ?thesis
    unfolding bare_client_admitted [OF r c]
    by (simp add: NewAuth_def sample_lib_def ban_applies_def holds_def live_New)
qed

end
