(* ===== verification/Password.thy ===== *)
theory Password
  imports TermIO
begin

text \<open>
  Reading a password without a terminal (\<open>readPasswordLine\<close> of \<open>sshd/terminal/terminal.go\<close>):
  single bytes up to a line feed, without carriage returns. The results of the reader's
  \<open>Read\<close> are a list as in \<open>readLine\<close>, of which each call takes at most one byte.
\<close>

text \<open>\<open>None\<close>: the reads do not end the loop. The last part of the result are the reads that are left.\<close>

fun readPasswordLine :: "reads \<Rightarrow> string \<Rightarrow> (string \<times> go_error option \<times> reads) option" where
  "readPasswordLine [] ret = None"
| "readPasswordLine ((data, err) # rs) ret =
    (case data of
       c # _ \<Rightarrow>
         if c = CHR 0x0A then Some (ret, None, rs)
         else if c = CHR 0x0D then readPasswordLine rs ret
         else readPasswordLine rs (ret @ [c])
     | [] \<Rightarrow>
         (case err of
            Some e \<Rightarrow>
              if e = IoEOF \<and> ret \<noteq> [] then Some (ret, None, rs) else Some (ret, Some e, rs)
          | None \<Rightarrow> readPasswordLine rs ret))"

text \<open>Reads that deliver bytes one at a time, with empty reads between them.\<close>

definition quiet :: "reads \<Rightarrow> bool" where
  "quiet rs \<longleftrightarrow> list_all (\<lambda>(data, err). length data \<le> 1 \<and> (data = [] \<longrightarrow> err = None)) rs"

lemma readPasswordLine_quiet:
  "quiet rs \<Longrightarrow> CHR 0x0A \<notin> set (concat (map fst rs)) \<Longrightarrow>
    readPasswordLine (rs @ rest) ret = readPasswordLine rest (ret @ filter (\<lambda>c. c \<noteq> CHR 0x0D) (concat (map fst rs)))"
proof (induction rs arbitrary: ret)
  case (Cons r rs)
  obtain data err where r: "r = (data, err)" by (cases r)
  have "length data \<le> 1" "data = [] \<longrightarrow> err = None" "quiet rs" using Cons.prems(1) r by (simp_all add: quiet_def)
  moreover have "CHR 0x0A \<notin> set (concat (map fst rs))" using Cons.prems(2) by simp
  moreover have "data = [] \<or> (\<exists>c. data = [c] \<and> c \<noteq> CHR 0x0A)"
    using \<open>length data \<le> 1\<close> Cons.prems(2) r by (cases data) auto
  ultimately show ?case using Cons.IH r by auto
qed simp

text \<open>However the bytes of a password and its line feed arrive, the password is returned without
  its carriage returns, and nothing behind the line feed is read. A reader that fails or ends first
  gives what it had, without an error only at the end of a file that is not empty.\<close>

theorem readPasswordLine_typed:
  assumes "quiet rs" and "CHR 0x0A \<notin> set (concat (map fst rs))"
  shows "readPasswordLine (rs @ ([CHR 0x0A], err) # rest) [] = Some (filter (\<lambda>c. c \<noteq> CHR 0x0D) (concat (map fst rs)), None, rest) \<and>
    readPasswordLine (rs @ ([], Some e) # rest) [] =
      (let pw = filter (\<lambda>c. c \<noteq> CHR 0x0D) (concat (map fst rs)) in
       Some (pw, if e = IoEOF \<and> pw \<noteq> [] then None else Some e, rest))"
  using readPasswordLine_quiet [OF assms] by (simp add: Let_def)

theorem readPasswordLine_typed_witness:
  "readPasswordLine [(''a'', None), ([], None), ([CHR 0x0D], None), ([CHR 0x0A], None), (''b'', None)] [] = Some (''a'', None, [(''b'', None)])"
  using readPasswordLine_typed [of "[(''a'', None), ([], None), ([CHR 0x0D], None)]" None "[(''b'', None)]"]
  by (simp add: quiet_def)

end
