(* ===== verification/TermModes.thy ===== *)
theory TermModes
  imports Password "HOL-Library.Word"
begin

text \<open>
  The modes of a terminal on each platform (\<open>sshd/terminal/util*.go\<close>): raw mode, its undoing, and
  passwords read from a file descriptor.

  The system calls are parameters (\<open>unix_sys\<close>, \<open>win_sys\<close>), functions on a state of any type \<open>'s\<close>; so are the
  constants of the platform. What a property needs of them is a hypothesis: \<open>tty_law\<close> says that a
  mode that was set is the mode until another one is set, \<open>canonical\<close> how \<open>read\<close> delivers a line.
  The fields of a \<open>Termios\<close> have 32 or 64 bits, by the platform: their type is \<open>'f\<close>.
\<close>

unbundle bit_operations_syntax

section \<open>Modes\<close>

record 'f termios =
  Iflag :: 'f
  Oflag :: 'f
  Cflag :: 'f
  Lflag :: 'f
  Cc :: "8 word list"

record 'f tty_bits =
  IGNBRK :: 'f
  BRKINT :: 'f
  PARMRK :: 'f
  ISTRIP :: 'f
  INLCR :: 'f
  IGNCR :: 'f
  ICRNL :: 'f
  IXON :: 'f
  OPOST :: 'f
  ECHO :: 'f
  ECHONL :: 'f
  ICANON :: 'f
  ISIG :: 'f
  IEXTEN :: 'f
  CSIZE :: 'f
  PARENB :: 'f
  CS8 :: 'f
  VMIN :: nat
  VTIME :: nat

datatype request = TIOCGETA | TIOCSETA | TCGETS | TCSETS | TCGETA | TIOCGWINSZ

type_synonym 's read_fn = "'s \<Rightarrow> string \<times> go_error option \<times> 's"

record ('f, 's) unix_sys =
  bits :: "'f tty_bits"
  IoctlGetTermios :: "int \<Rightarrow> request \<Rightarrow> 's \<Rightarrow> go_error + 'f termios"
  IoctlGetTermio :: "int \<Rightarrow> request \<Rightarrow> 's \<Rightarrow> go_error option"
  IoctlSetTermios :: "int \<Rightarrow> request \<Rightarrow> 'f termios \<Rightarrow> 's \<Rightarrow> go_error option \<times> 's"
  IoctlGetWinsize :: "int \<Rightarrow> request \<Rightarrow> 's \<Rightarrow> go_error + nat \<times> nat"
  sys_Read :: "int \<Rightarrow> nat \<Rightarrow> 's read_fn"

text \<open>The requests of \<open>util_bsd.go\<close>, \<open>util_linux.go\<close> and \<open>util_aix.go\<close>, by which \<open>util.go\<close> differs.\<close>

definition ioctlReadTermios_bsd :: request where "ioctlReadTermios_bsd = TIOCGETA"
definition ioctlWriteTermios_bsd :: request where "ioctlWriteTermios_bsd = TIOCSETA"
definition ioctlReadTermios_linux :: request where "ioctlReadTermios_linux = TCGETS"
definition ioctlWriteTermios_linux :: request where "ioctlWriteTermios_linux = TCSETS"
definition ioctlReadTermios_aix :: request where "ioctlReadTermios_aix = TCGETS"
definition ioctlWriteTermios_aix :: request where "ioctlWriteTermios_aix = TCSETS"

definition raw_mode :: "('a::len word) tty_bits \<Rightarrow> ('a word) termios \<Rightarrow> ('a word) termios" where
  "raw_mode b t = t\<lparr>
     Iflag := Iflag t AND NOT (IGNBRK b OR BRKINT b OR PARMRK b OR ISTRIP b OR INLCR b OR IGNCR b OR ICRNL b OR IXON b),
     Oflag := Oflag t AND NOT (OPOST b),
     Lflag := Lflag t AND NOT (ECHO b OR ECHONL b OR ICANON b OR ISIG b OR IEXTEN b),
     Cflag := (Cflag t AND NOT (CSIZE b OR PARENB b)) OR CS8 b,
     Cc := (Cc t)[VMIN b := 1, VTIME b := 0]\<rparr>"

definition password_mode :: "('a::len word) tty_bits \<Rightarrow> ('a word) termios \<Rightarrow> ('a word) termios" where
  "password_mode b t = t\<lparr>
     Lflag := (Lflag t AND NOT (ECHO b)) OR (ICANON b OR ISIG b),
     Iflag := Iflag t OR ICRNL b\<rparr>"

text \<open>\<open>IoctlGetTermio\<close>, which only \<open>util_solaris.go\<close> uses, is its error: the code drops the modes it reads.\<close>

section \<open>Unix (\<open>util.go\<close>)\<close>

text \<open>\<open>rq\<close> and \<open>wq\<close> are the requests of the platform. The state is an argument of what only reads it.\<close>

definition IsTerminal :: "('a::len word, 's) unix_sys \<Rightarrow> request \<Rightarrow> int \<Rightarrow> 's \<Rightarrow> bool" where
  "IsTerminal sys rq fd s = (case IoctlGetTermios sys fd rq s of Inl err \<Rightarrow> False | Inr t \<Rightarrow> True)"

definition MakeRaw :: "('a::len word, 's) unix_sys \<Rightarrow> request \<Rightarrow> request \<Rightarrow> int \<Rightarrow> 's \<Rightarrow> (go_error + ('a word) termios) \<times> 's" where
  "MakeRaw sys rq wq fd s =
    (case IoctlGetTermios sys fd rq s of
       Inl err \<Rightarrow> (Inl err, s)
     | Inr termios \<Rightarrow>
         (case IoctlSetTermios sys fd wq (raw_mode (bits sys) termios) s of
            (Some err, s) \<Rightarrow> (Inl err, s)
          | (None, s) \<Rightarrow> (Inr termios, s)))"

definition GetState :: "('a::len word, 's) unix_sys \<Rightarrow> request \<Rightarrow> int \<Rightarrow> 's \<Rightarrow> go_error + ('a word) termios" where
  "GetState sys rq fd s = IoctlGetTermios sys fd rq s"

definition Restore :: "('a::len word, 's) unix_sys \<Rightarrow> request \<Rightarrow> int \<Rightarrow> ('a word) termios \<Rightarrow> 's \<Rightarrow> go_error option \<times> 's" where
  "Restore sys wq fd state s = IoctlSetTermios sys fd wq state s"

definition GetSize :: "('a::len word, 's) unix_sys \<Rightarrow> int \<Rightarrow> 's \<Rightarrow> int \<times> int \<times> go_error option" where
  "GetSize sys fd s =
    (case IoctlGetWinsize sys fd TIOCGWINSZ s of
       Inl err \<Rightarrow> (-1, -1, Some err)
     | Inr (col, row) \<Rightarrow> (int col, int row, None))"

definition passwordReader_Read :: "('a::len word, 's) unix_sys \<Rightarrow> int \<Rightarrow> nat \<Rightarrow> 's read_fn" where
  "passwordReader_Read sys fd n s = sys_Read sys fd n s"

text \<open>\<open>readPasswordLine\<close> on a reader that is a state; \<open>None\<close>: it does not return.\<close>

partial_function (option) read_password :: "'s read_fn \<Rightarrow> string \<Rightarrow> 's \<Rightarrow> (string \<times> go_error option \<times> 's) option" where
  "read_password rd ret s =
    (case rd s of
       (c # _, err, s) \<Rightarrow>
         if c = CHR 0x0A then Some (ret, None, s)
         else if c = CHR 0x0D then read_password rd ret s
         else read_password rd (ret @ [c]) s
     | ([], Some e, s) \<Rightarrow> if e = IoEOF \<and> ret \<noteq> [] then Some (ret, None, s) else Some (ret, Some e, s)
     | ([], None, s) \<Rightarrow> read_password rd ret s)"

definition ReadPassword_unix :: "('a::len word, 's) unix_sys \<Rightarrow> request \<Rightarrow> request \<Rightarrow> int \<Rightarrow> 's
    \<Rightarrow> (string \<times> go_error option \<times> 's) option" where
  "ReadPassword_unix sys rq wq fd s =
    (case IoctlGetTermios sys fd rq s of
       Inl err \<Rightarrow> Some ([], Some err, s)
     | Inr termios \<Rightarrow>
         (case IoctlSetTermios sys fd wq (password_mode (bits sys) termios) s of
            (Some err, s) \<Rightarrow> Some ([], Some err, s)
          | (None, s) \<Rightarrow> do {
              (ret, err, s) \<leftarrow> read_password (passwordReader_Read sys fd 1) [] s;
              Some (ret, err, snd (IoctlSetTermios sys fd wq termios s))
            }))"

section \<open>Solaris (\<open>util_solaris.go\<close>)\<close>

text \<open>The modes, \<open>GetState\<close> and \<open>Restore\<close> are those of \<open>util.go\<close> with \<open>TCGETS\<close> and \<open>TCSETS\<close>. The test asks with
  \<open>TCGETA\<close>, an error of \<open>GetSize\<close> comes with zeros, and \<open>ReadPassword\<close> reads sixteen bytes at a
  time. The lines that \<open>read\<close> delivers have at most as many bytes as it was asked for.\<close>

definition IsTerminal_solaris :: "('a::len word, 's) unix_sys \<Rightarrow> int \<Rightarrow> 's \<Rightarrow> bool" where
  "IsTerminal_solaris sys fd s = (IoctlGetTermio sys fd TCGETA s = None)"

definition MakeRaw_solaris :: "('a::len word, 's) unix_sys \<Rightarrow> int \<Rightarrow> 's \<Rightarrow> (go_error + ('a word) termios) \<times> 's" where
  "MakeRaw_solaris sys fd s =
    (case IoctlGetTermios sys fd TCGETS s of
       Inl err \<Rightarrow> (Inl err, s)
     | Inr termios \<Rightarrow>
         (case IoctlSetTermios sys fd TCSETS (raw_mode (bits sys) termios) s of
            (Some err, s) \<Rightarrow> (Inl err, s)
          | (None, s) \<Rightarrow> (Inr termios, s)))"

definition Restore_solaris :: "('a::len word, 's) unix_sys \<Rightarrow> int \<Rightarrow> ('a word) termios \<Rightarrow> 's \<Rightarrow> go_error option \<times> 's" where
  "Restore_solaris sys fd oldState s = IoctlSetTermios sys fd TCSETS oldState s"

definition GetState_solaris :: "('a::len word, 's) unix_sys \<Rightarrow> int \<Rightarrow> 's \<Rightarrow> go_error + ('a word) termios" where
  "GetState_solaris sys fd s = IoctlGetTermios sys fd TCGETS s"

definition GetSize_solaris :: "('a::len word, 's) unix_sys \<Rightarrow> int \<Rightarrow> 's \<Rightarrow> int \<times> int \<times> go_error option" where
  "GetSize_solaris sys fd s =
    (case IoctlGetWinsize sys fd TIOCGWINSZ s of
       Inl err \<Rightarrow> (0, 0, Some err)
     | Inr (col, row) \<Rightarrow> (int col, int row, None))"

partial_function (option) read_sixteen :: "'s read_fn \<Rightarrow> string \<Rightarrow> 's \<Rightarrow> (string \<times> go_error option \<times> 's) option" where
  "read_sixteen rd ret s =
    (case rd s of
       (data, Some e, s) \<Rightarrow> Some ([], Some e, s)
     | ([], None, s) \<Rightarrow> if ret = [] then Some ([], Some IoEOF, s) else Some (ret, None, s)
     | (data, None, s) \<Rightarrow>
         let n = (if last data = CHR 0x0A then length data - 1 else length data);
             ret = ret @ take n data in
         if n < 16 then Some (ret, None, s) else read_sixteen rd ret s)"

definition ReadPassword_solaris :: "('a::len word, 's) unix_sys \<Rightarrow> int \<Rightarrow> 's \<Rightarrow> (string \<times> go_error option \<times> 's) option" where
  "ReadPassword_solaris sys fd s =
    (case IoctlGetTermios sys fd TCGETS s of
       Inl err \<Rightarrow> Some ([], Some err, s)
     | Inr oldState \<Rightarrow>
         (case IoctlSetTermios sys fd TCSETS (password_mode (bits sys) oldState) s of
            (Some err, s) \<Rightarrow> Some ([], Some err, s)
          | (None, s) \<Rightarrow> do {
              (ret, err, s) \<leftarrow> read_sixteen (sys_Read sys fd 16) [] s;
              Some (ret, err, snd (IoctlSetTermios sys fd TCSETS oldState s))
            }))"

section \<open>Windows (\<open>util_windows.go\<close>)\<close>

text \<open>\<open>NewFile_Read\<close> is \<open>Read\<close> of the \<open>os.File\<close> of a handle, \<open>File_Close\<close> its \<open>Close\<close>.\<close>

record 's win_sys =
  ENABLE_ECHO_INPUT :: "32 word"
  ENABLE_PROCESSED_INPUT :: "32 word"
  ENABLE_LINE_INPUT :: "32 word"
  ENABLE_PROCESSED_OUTPUT :: "32 word"
  GetConsoleMode :: "int \<Rightarrow> 's \<Rightarrow> go_error + 32 word"
  SetConsoleMode :: "int \<Rightarrow> 32 word \<Rightarrow> 's \<Rightarrow> go_error option \<times> 's"
  GetConsoleScreenBufferInfo :: "int \<Rightarrow> 's \<Rightarrow> go_error + int \<times> int"
  GetCurrentProcess :: "'s \<Rightarrow> int"
  DuplicateHandle :: "int \<Rightarrow> int \<Rightarrow> int \<Rightarrow> 's \<Rightarrow> (go_error + int) \<times> 's"
  NewFile_Read :: "int \<Rightarrow> nat \<Rightarrow> 's read_fn"
  File_Close :: "int \<Rightarrow> 's \<Rightarrow> 's"

definition IsTerminal_windows :: "'s win_sys \<Rightarrow> int \<Rightarrow> 's \<Rightarrow> bool" where
  "IsTerminal_windows sys fd s = (case GetConsoleMode sys fd s of Inl err \<Rightarrow> False | Inr st \<Rightarrow> True)"

definition MakeRaw_windows :: "'s win_sys \<Rightarrow> int \<Rightarrow> 's \<Rightarrow> (go_error + 32 word) \<times> 's" where
  "MakeRaw_windows sys fd s =
    (case GetConsoleMode sys fd s of
       Inl err \<Rightarrow> (Inl err, s)
     | Inr st \<Rightarrow>
         let raw = st AND NOT (ENABLE_ECHO_INPUT sys OR ENABLE_PROCESSED_INPUT sys OR ENABLE_LINE_INPUT sys OR ENABLE_PROCESSED_OUTPUT sys) in
         (case SetConsoleMode sys fd raw s of
            (Some err, s) \<Rightarrow> (Inl err, s)
          | (None, s) \<Rightarrow> (Inr st, s)))"

definition GetState_windows :: "'s win_sys \<Rightarrow> int \<Rightarrow> 's \<Rightarrow> go_error + 32 word" where
  "GetState_windows sys fd s = GetConsoleMode sys fd s"

definition Restore_windows :: "'s win_sys \<Rightarrow> int \<Rightarrow> 32 word \<Rightarrow> 's \<Rightarrow> go_error option \<times> 's" where
  "Restore_windows sys fd state s = SetConsoleMode sys fd state s"

definition GetSize_windows :: "'s win_sys \<Rightarrow> int \<Rightarrow> 's \<Rightarrow> int \<times> int \<times> go_error option" where
  "GetSize_windows sys fd s =
    (case GetConsoleScreenBufferInfo sys fd s of
       Inl err \<Rightarrow> (0, 0, Some err)
     | Inr (x, y) \<Rightarrow> (x, y, None))"

text \<open>The two deferred calls run in the opposite order: the file is closed, then the mode is set back.\<close>

definition ReadPassword_windows :: "'s win_sys \<Rightarrow> int \<Rightarrow> 's \<Rightarrow> (string \<times> go_error option \<times> 's) option" where
  "ReadPassword_windows sys fd s =
    (case GetConsoleMode sys fd s of
       Inl err \<Rightarrow> Some ([], Some err, s)
     | Inr old \<Rightarrow>
         let st = (old AND NOT (ENABLE_ECHO_INPUT sys)) OR
           (ENABLE_PROCESSED_INPUT sys OR ENABLE_LINE_INPUT sys OR ENABLE_PROCESSED_OUTPUT sys) in
         (case SetConsoleMode sys fd st s of
            (Some err, s) \<Rightarrow> Some ([], Some err, s)
          | (None, s) \<Rightarrow>
              let p = GetCurrentProcess sys s in
              (case DuplicateHandle sys p fd p s of
                 (Inl err, s) \<Rightarrow> Some ([], Some err, snd (SetConsoleMode sys fd old s))
               | (Inr h, s) \<Rightarrow> do {
                   (ret, err, s) \<leftarrow> read_password (NewFile_Read sys h 1) [] s;
                   Some (ret, err, snd (SetConsoleMode sys fd old (File_Close sys h s)))
                 })))"

section \<open>Plan 9 (\<open>util_plan9.go\<close>)\<close>

definition IsTerminal_plan9 :: "int \<Rightarrow> bool" where
  "IsTerminal_plan9 fd = False"

definition not_implemented :: "string \<Rightarrow> string \<Rightarrow> string \<Rightarrow> go_error" where
  "not_implemented f goos goarch = Errorf (''terminal: '' @ f @ '' not implemented on '' @ goos @ ''/'' @ goarch)"

definition MakeRaw_plan9 :: "string \<Rightarrow> string \<Rightarrow> int \<Rightarrow> go_error + unit" where
  "MakeRaw_plan9 goos goarch fd = Inl (not_implemented ''MakeRaw'' goos goarch)"

definition GetState_plan9 :: "string \<Rightarrow> string \<Rightarrow> int \<Rightarrow> go_error + unit" where
  "GetState_plan9 goos goarch fd = Inl (not_implemented ''GetState'' goos goarch)"

definition Restore_plan9 :: "string \<Rightarrow> string \<Rightarrow> int \<Rightarrow> unit \<Rightarrow> go_error option" where
  "Restore_plan9 goos goarch fd state = Some (not_implemented ''Restore'' goos goarch)"

definition GetSize_plan9 :: "string \<Rightarrow> string \<Rightarrow> int \<Rightarrow> int \<times> int \<times> go_error option" where
  "GetSize_plan9 goos goarch fd = (0, 0, Some (not_implemented ''GetSize'' goos goarch))"

definition ReadPassword_plan9 :: "string \<Rightarrow> string \<Rightarrow> int \<Rightarrow> string \<times> go_error option" where
  "ReadPassword_plan9 goos goarch fd = ([], Some (not_implemented ''ReadPassword'' goos goarch))"

section \<open>Reading\<close>

text \<open>A loop keeps what every \<open>Read\<close> keeps.\<close>

definition reader_keeps :: "'s read_fn \<Rightarrow> ('s \<Rightarrow> bool) \<Rightarrow> bool" where
  "reader_keeps rd I \<longleftrightarrow> (\<forall>s. I s \<longrightarrow> I (snd (snd (rd s))))"

lemma reader_keeps_step: "reader_keeps rd I \<Longrightarrow> rd s = (data, err, s') \<Longrightarrow> I s \<Longrightarrow> I s'"
  unfolding reader_keeps_def by (metis snd_conv)

lemma read_password_keeps:
  assumes "read_password rd ret s = Some r" and "reader_keeps rd I" and "I s"
  shows "I (snd (snd r))"
proof -
  have "reader_keeps rd I \<longrightarrow> I s \<longrightarrow> I (snd (snd r))"
    using assms(1)
  proof (rule read_password.raw_induct [where P = "\<lambda>rd ret s r. reader_keeps rd I \<longrightarrow> I s \<longrightarrow> I (snd (snd r))", rotated])
    fix f and rd :: "'a read_fn" and ret s r
    assume ih: "\<And>rd ret s r. f rd ret s = Some r \<Longrightarrow> reader_keeps rd I \<longrightarrow> I s \<longrightarrow> I (snd (snd r))"
      and body: "(case rd s of
       (c # xs, err, s) \<Rightarrow>
         if c = CHR 0x0A then Some (ret, None, s) else if c = CHR 0x0D then f rd ret s else f rd (ret @ [c]) s
     | ([], Some e, s) \<Rightarrow> if e = IoEOF \<and> ret \<noteq> [] then Some (ret, None, s) else Some (ret, Some e, s)
     | ([], None, s) \<Rightarrow> f rd ret s) = Some r"
    obtain data err s1 where rd: "rd s = (data, err, s1)" by (cases "rd s")
    show "reader_keeps rd I \<longrightarrow> I s \<longrightarrow> I (snd (snd r))"
      using body ih [of rd _ s1 r] reader_keeps_step [of rd I s data err s1] rd
      by (cases data; cases err) (auto split: if_splits)
  qed
  then show ?thesis using assms(2,3) by blast
qed

text \<open>At the end of the file \<open>read\<close> of the system returns no bytes and no error, and the loop goes on.\<close>

lemma read_password_stuck:
  assumes "\<And>s. fst (rd s) = [] \<and> fst (snd (rd s)) = None"
  shows "read_password rd ret s = None"
proof (rule ccontr)
  assume "read_password rd ret s \<noteq> None"
  then obtain r where "read_password rd ret s = Some r" by blast
  then have "rd \<noteq> rd"
  proof (rule read_password.raw_induct [where P = "\<lambda>rd' ret s r. rd' \<noteq> rd", rotated])
    fix f rd' ret s r
    assume ih: "\<And>rd' ret s r. f rd' ret s = Some r \<Longrightarrow> rd' \<noteq> rd"
      and body: "(case rd' s of
       (c # xs, err, s) \<Rightarrow>
         if c = CHR 0x0A then Some (ret, None, s) else if c = CHR 0x0D then f rd' ret s else f rd' (ret @ [c]) s
     | ([], Some e, s) \<Rightarrow> if e = IoEOF \<and> ret \<noteq> [] then Some (ret, None, s) else Some (ret, Some e, s)
     | ([], None, s) \<Rightarrow> f rd' ret s) = Some r"
    show "rd' \<noteq> rd"
    proof
      assume "rd' = rd"
      moreover obtain data err s1 where rd: "rd s = (data, err, s1)" by (cases "rd s")
      moreover have "data = []" "err = None" using assms [of s] rd by simp_all
      ultimately show False using body ih [of rd ret s1 r] by simp
    qed
  qed
  then show False by simp
qed

text \<open>A terminal that edits lines: \<open>read\<close> delivers of the line typed first what fits.\<close>

definition canonical :: "(nat \<Rightarrow> 's read_fn) \<Rightarrow> ('s \<Rightarrow> string) \<Rightarrow> bool" where
  "canonical rd pending \<longleftrightarrow> (\<forall>n s l rest. 0 < n \<longrightarrow> CHR 0x0A \<notin> set l \<longrightarrow> pending s = l @ CHR 0x0A # rest \<longrightarrow>
    (\<exists>s'. rd n s = (take n (l @ [CHR 0x0A]), None, s') \<and> pending s' = drop n (l @ [CHR 0x0A]) @ rest))"

lemma canonical_read:
  assumes "canonical rd pending" and "0 < n" and "CHR 0x0A \<notin> set l" and "pending s = l @ CHR 0x0A # rest"
  obtains s' where "rd n s = (take n (l @ [CHR 0x0A]), None, s')" "pending s' = drop n (l @ [CHR 0x0A]) @ rest"
  using assms unfolding canonical_def by blast

lemma read_password_line:
  assumes "canonical rd pending" and "CHR 0x0A \<notin> set l" and "pending s = l @ CHR 0x0A # rest"
  shows "\<exists>s'. read_password (rd 1) ret s = Some (ret @ filter (\<lambda>c. c \<noteq> CHR 0x0D) l, None, s') \<and> pending s' = rest"
  using assms(2,3)
proof (induction l arbitrary: s ret)
  case Nil
  from canonical_read [OF assms(1) _ Nil, of 1]
  obtain s' where "rd 1 s = ([CHR 0x0A], None, s')" "pending s' = rest" by auto
  then show ?case by (simp add: read_password.simps)
next
  case (Cons c l)
  from canonical_read [OF assms(1) _ Cons.prems, of 1]
  obtain s' where s': "rd 1 s = ([c], None, s')" "pending s' = l @ CHR 0x0A # rest" by auto
  have "CHR 0x0A \<notin> set l" "c \<noteq> CHR 0x0A" using Cons.prems(1) by auto
  then show ?case
    using Cons.IH [OF _ s'(2), of ret] Cons.IH [OF _ s'(2), of "ret @ [c]"] s'(1) by (simp add: read_password.simps [of "rd (Suc 0)" ret s])
qed

lemma read_sixteen_line:
  assumes "canonical rd pending"
  shows "CHR 0x0A \<notin> set l \<Longrightarrow> pending s = l @ CHR 0x0A # rest \<Longrightarrow>
    \<exists>s'. read_sixteen (rd 16) ret s = Some (ret @ l, None, s') \<and> pending s' = rest"
proof (induction "length l" arbitrary: l s ret rule: less_induct)
  case less
  from canonical_read [OF assms _ less.prems, of 16]
  obtain s' where s': "rd 16 s = (take 16 (l @ [CHR 0x0A]), None, s')" "pending s' = drop 16 (l @ [CHR 0x0A]) @ rest" by auto
  show ?case
  proof (cases "length l < 16")
    case True
    then have "rd 16 s = (l @ [CHR 0x0A], None, s')" "pending s' = rest" using s' by simp_all
    then show ?thesis using True
      by (subst read_sixteen.simps) (cases l, simp_all add: Let_def)
  next
    case False
    then have d: "take 16 (l @ [CHR 0x0A]) = take 16 l" "drop 16 (l @ [CHR 0x0A]) = drop 16 l @ [CHR 0x0A]" by simp_all
    obtain c cs where t: "take 16 l = c # cs" using False by (cases "take 16 l") auto
    have l: "c # cs @ drop 16 l = l" using t append_take_drop_id [of 16 l] by simp
    have "last (take 16 l) \<in> set l" using t by (metis in_set_takeD last_in_set list.distinct(1))
    then have "last (take 16 l) \<noteq> CHR 0x0A" using less.prems(1) by metis
    moreover have "length (take 16 l) = 16" using False by simp
    moreover have "length (drop 16 l) < length l" "CHR 0x0A \<notin> set (drop 16 l)" "pending s' = drop 16 l @ CHR 0x0A # rest"
      using False less.prems(1) s'(2) d by (auto dest: in_set_dropD)
    then obtain s2 where "read_sixteen (rd 16) (ret @ take 16 l) s' = Some ((ret @ take 16 l) @ drop 16 l, None, s2)" "pending s2 = rest"
      using less.hyps by blast
    ultimately show ?thesis
      using s'(1) d t l by (subst read_sixteen.simps) (simp add: Let_def)
  qed
qed

section \<open>What is asked of the platform\<close>

text \<open>A mode that was set is the mode, and reading does not change it.\<close>

definition tty_law :: "('f, 's) unix_sys \<Rightarrow> request \<Rightarrow> request \<Rightarrow> int \<Rightarrow> bool" where
  "tty_law sys rq wq fd \<longleftrightarrow>
    (\<forall>t s s'. IoctlSetTermios sys fd wq t s = (None, s') \<longrightarrow> IoctlGetTermios sys fd rq s' = Inr t) \<and>
    (\<forall>n t. reader_keeps (sys_Read sys fd n) (\<lambda>s. IoctlGetTermios sys fd rq s = Inr t))"

text \<open>The flags of one field are different bits; the mask of the character size holds that of eight bits.\<close>

definition bits_ok :: "('a::len word) tty_bits \<Rightarrow> bool" where
  "bits_ok b \<longleftrightarrow> ECHO b AND (ICANON b OR ISIG b) = 0 \<and> CSIZE b AND CS8 b = CS8 b \<and> CS8 b AND PARENB b = 0 \<and> VMIN b \<noteq> VTIME b"

lemma raw_mode_bits:
  assumes "bits_ok b" and "VMIN b < length (Cc t)" and "VTIME b < length (Cc t)"
  shows "Lflag (raw_mode b t) AND (ECHO b OR ECHONL b OR ICANON b OR ISIG b OR IEXTEN b) = 0"
    and "Oflag (raw_mode b t) AND OPOST b = 0"
    and "Iflag (raw_mode b t) AND (ICRNL b OR IXON b) = 0"
    and "Cflag (raw_mode b t) AND CSIZE b = CS8 b"
    and "Cc (raw_mode b t) ! VMIN b = 1 \<and> Cc (raw_mode b t) ! VTIME b = 0"
proof -
  show "Lflag (raw_mode b t) AND (ECHO b OR ECHONL b OR ICANON b OR ISIG b OR IEXTEN b) = 0"
    "Oflag (raw_mode b t) AND OPOST b = 0" "Iflag (raw_mode b t) AND (ICRNL b OR IXON b) = 0"
    by (auto simp: raw_mode_def bit_eq_iff bit_simps)
  have "bit (CSIZE b) n \<and> bit (CS8 b) n \<longleftrightarrow> bit (CS8 b) n" for n
    using assms(1) by (metis bits_ok_def bit_and_iff)
  then show "Cflag (raw_mode b t) AND CSIZE b = CS8 b"
    by (auto simp: raw_mode_def bit_eq_iff bit_simps)
  show "Cc (raw_mode b t) ! VMIN b = 1 \<and> Cc (raw_mode b t) ! VTIME b = 0"
    using assms by (simp add: raw_mode_def bits_ok_def)
qed

lemma password_mode_bits:
  assumes "bits_ok b"
  shows "Lflag (password_mode b t) AND ECHO b = 0"
proof -
  have "\<not> (bit (ECHO b) n \<and> (bit (ICANON b) n \<or> bit (ISIG b) n))" for n
    using assms by (metis bits_ok_def bit_and_iff bit_or_iff bit_0_eq bot_apply bot_bool_def)
  then show ?thesis by (auto simp: password_mode_def bit_eq_iff bit_simps)
qed

section \<open>A terminal for the examples\<close>

definition ex_bits :: "(32 word) tty_bits" where
  "ex_bits = \<lparr>IGNBRK = 1, BRKINT = 2, PARMRK = 8, ISTRIP = 0x20, INLCR = 0x40, IGNCR = 0x80, ICRNL = 0x100, IXON = 0x400,
     OPOST = 1, ECHO = 8, ECHONL = 0x40, ICANON = 2, ISIG = 1, IEXTEN = 0x8000, CSIZE = 0x30, PARENB = 0x100, CS8 = 0x30,
     VMIN = 6, VTIME = 5\<rparr>"

definition ex_mode :: "(32 word) termios" where
  "ex_mode = \<lparr>Iflag = 0x500, Oflag = 5, Cflag = 0xbf, Lflag = 0x8a3b, Cc = replicate 19 0\<rparr>"

text \<open>Its state is the mode and what was typed.\<close>

definition ex_tty :: "(32 word, (32 word) termios \<times> string) unix_sys" where
  "ex_tty = \<lparr>bits = ex_bits, IoctlGetTermios = (\<lambda>fd rq s. Inr (fst s)), IoctlGetTermio = (\<lambda>fd rq s. None),
     IoctlSetTermios = (\<lambda>fd wq t s. (None, (t, snd s))),
     IoctlGetWinsize = (\<lambda>fd rq s. Inr (80, 24)),
     sys_Read = (\<lambda>fd n s. let m = min n (length (takeWhile (\<lambda>c. c \<noteq> CHR 0x0A) (snd s)) + 1) in
       (take m (snd s), None, (fst s, drop m (snd s))))\<rparr>"

lemma ex_tty_simps [simp]:
  "bits ex_tty = ex_bits" "IoctlGetTermios ex_tty fd rq s = Inr (fst s)" "IoctlSetTermios ex_tty fd wq t s = (None, (t, snd s))"
  "sys_Read ex_tty fd n s = (let m = min n (length (takeWhile (\<lambda>c. c \<noteq> CHR 0x0A) (snd s)) + 1) in
     (take m (snd s), None, (fst s, drop m (snd s))))"
  by (simp_all add: ex_tty_def)

lemma ex_tty_law: "tty_law ex_tty rq wq fd"
  by (auto simp: tty_law_def ex_tty_def reader_keeps_def Let_def)

lemma ex_bits_ok: "bits_ok ex_bits"
  by (simp add: bits_ok_def ex_bits_def)

lemma ex_canonical: "canonical (sys_Read ex_tty fd) snd"
  unfolding canonical_def
proof (intro allI impI)
  fix n :: nat and s :: "(32 word) termios \<times> string" and l rest
  assume "0 < n" and l: "CHR 0x0A \<notin> set l" and s: "snd s = l @ CHR 0x0A # rest"
  have "takeWhile (\<lambda>c. c \<noteq> CHR 0x0A) (l @ CHR 0x0A # rest) = l" using l by (induction l) auto
  then show "\<exists>s'. sys_Read ex_tty fd n s = (take n (l @ [CHR 0x0A]), None, s') \<and> snd s' = drop n (l @ [CHR 0x0A]) @ rest"
    by (cases "n \<le> length l") (auto simp: s Let_def min_def Suc_diff_le le_Suc_eq)
qed

section \<open>Properties\<close>

text \<open>\<open>MakeRaw\<close> and \<open>Restore\<close>. The state that \<open>MakeRaw\<close> returns is the one from before, the terminal is
  then raw (no echo, no lines, no signals, no output processing, eight bits, single bytes), and
  \<open>Restore\<close>, whatever was done in between, brings exactly the old mode back.\<close>

theorem MakeRaw_Restore:
  assumes "tty_law sys rq wq fd" and "bits_ok (bits sys)"
    and "MakeRaw sys rq wq fd s = (Inr st, s1)" and "Restore sys wq fd st s2 = (None, s3)"
    and "VMIN (bits sys) < length (Cc st)" and "VTIME (bits sys) < length (Cc st)"
  shows "GetState sys rq fd s = Inr st \<and> GetState sys rq fd s3 = Inr st \<and>
    (\<exists>t. GetState sys rq fd s1 = Inr t \<and>
      Lflag t AND (ECHO (bits sys) OR ECHONL (bits sys) OR ICANON (bits sys) OR ISIG (bits sys) OR IEXTEN (bits sys)) = 0 \<and>
      Oflag t AND OPOST (bits sys) = 0 \<and> Cflag t AND CSIZE (bits sys) = CS8 (bits sys) \<and> Cc t ! VMIN (bits sys) = 1)"
proof -
  have "IoctlGetTermios sys fd rq s = Inr st" "IoctlSetTermios sys fd wq (raw_mode (bits sys) st) s = (None, s1)"
    using assms(3) by (auto simp: MakeRaw_def split: sum.splits prod.splits option.splits)
  then show ?thesis
    using assms(1,4) raw_mode_bits [OF assms(2,5,6)] by (auto simp: tty_law_def GetState_def Restore_def)
qed

theorem MakeRaw_Restore_witness:
  "GetState ex_tty TCGETS 0 (ex_mode, ''x'') = Inr ex_mode \<and>
    (\<exists>t. GetState ex_tty TCGETS 0 (raw_mode ex_bits ex_mode, ''x'') = Inr t \<and> Oflag t AND 1 = 0 \<and> Cflag t AND 0x30 = 0x30)"
proof -
  have b: "bits ex_tty = ex_bits" by (simp add: ex_tty_def)
  have "MakeRaw ex_tty TCGETS TCSETS 0 (ex_mode, ''x'') = (Inr ex_mode, (raw_mode ex_bits ex_mode, ''x''))"
    "Restore ex_tty TCSETS 0 ex_mode (ex_mode, []) = (None, (ex_mode, []))"
    "VMIN ex_bits < length (Cc ex_mode)" "VTIME ex_bits < length (Cc ex_mode)"
    by (simp_all add: MakeRaw_def Restore_def ex_tty_def ex_bits_def ex_mode_def)
  from MakeRaw_Restore [OF ex_tty_law, unfolded b, OF ex_bits_ok this]
  show ?thesis by (auto simp: ex_bits_def)
qed



text \<open>the two ways to read agree. However long the line typed on a terminal in the canonical mode, the
  loop over single bytes of \<open>util.go\<close> and the one over sixteen bytes of \<open>util_solaris.go\<close> both return it,
  without its line feed, and leave what was typed behind it; and both put the mode back.\<close>

theorem passwords_agree:
  assumes "canonical (sys_Read sys fd) pending" and "\<And>wq t s. pending (snd (IoctlSetTermios sys fd wq t s)) = pending s"
    and "\<And>wq t s. fst (IoctlSetTermios sys fd wq t s) = None" and "\<And>rq. GetState sys rq fd s = Inr t"
    and "pending s = pw @ CHR 0x0A # rest" and "CHR 0x0A \<notin> set pw" and "CHR 0x0D \<notin> set pw"
  shows "(\<exists>s1. ReadPassword_unix sys rq wq fd s = Some (pw, None, s1) \<and> pending s1 = rest) \<and>
    (\<exists>s2. ReadPassword_solaris sys fd s = Some (pw, None, s2) \<and> pending s2 = rest)"
proof
  have rd: "passwordReader_Read sys fd = sys_Read sys fd" by (simp add: fun_eq_iff passwordReader_Read_def)
  have set: "\<exists>s1. IoctlSetTermios sys fd wq q s = (None, s1) \<and> pending s1 = pw @ CHR 0x0A # rest" for wq q
    using assms(2) [of wq q s] assms(3) [of wq q s] assms(5) by (metis prod.collapse)
  have no_cr: "filter (\<lambda>c. c \<noteq> CHR 0x0D) pw = pw" using assms(7) by (auto simp: filter_id_conv)
  obtain s1 where s1: "IoctlSetTermios sys fd wq (password_mode (bits sys) t) s = (None, s1)" "pending s1 = pw @ CHR 0x0A # rest"
    using set by blast
  then show "\<exists>s1. ReadPassword_unix sys rq wq fd s = Some (pw, None, s1) \<and> pending s1 = rest"
    using read_password_line [OF assms(1,6) s1(2), of "[]"] assms(2,4) no_cr
    by (auto simp: ReadPassword_unix_def GetState_def rd)
  obtain s2 where s2: "IoctlSetTermios sys fd TCSETS (password_mode (bits sys) t) s = (None, s2)" "pending s2 = pw @ CHR 0x0A # rest"
    using set by blast
  then show "\<exists>s2. ReadPassword_solaris sys fd s = Some (pw, None, s2) \<and> pending s2 = rest"
    using read_sixteen_line [OF assms(1,6) s2(2), of "[]"] assms(2,4)
    by (auto simp: ReadPassword_solaris_def GetState_def)
qed

theorem passwords_agree_witness:
  "\<exists>s1 s2. ReadPassword_unix ex_tty TCGETS TCSETS 0 (ex_mode, ''a long pass phrase'' @ CHR 0x0A # ''x'') = Some (''a long pass phrase'', None, s1) \<and>
    ReadPassword_solaris ex_tty 0 (ex_mode, ''a long pass phrase'' @ CHR 0x0A # ''x'') = Some (''a long pass phrase'', None, s2) \<and>
    snd s1 = ''x'' \<and> snd s2 = ''x''"
  using passwords_agree [OF ex_canonical, of 0 "(ex_mode, ''a long pass phrase'' @ CHR 0x0A # ''x'')" ex_mode
      "''a long pass phrase''" "''x''" TCGETS TCSETS]
  by (auto simp: GetState_def simp del: ex_tty_simps(4))

text \<open>At the end of the file the two differ: the loop of \<open>util.go\<close> takes a read of no bytes and no error, which is
  how \<open>read\<close> of the system tells the end, for one to be repeated, and never returns.\<close>

theorem ReadPassword_hangs_at_EOF:
  assumes "\<And>n s. sys_Read sys fd n s = ([], None, s)" and "\<And>rq s. GetState sys rq fd s = Inr t"
    and "\<And>wq t s. fst (IoctlSetTermios sys fd wq t s) = None"
  shows "ReadPassword_unix sys rq wq fd s = None \<and> (\<exists>s'. ReadPassword_solaris sys fd s = Some ([], Some IoEOF, s'))"
proof -
  have set: "\<exists>s1. IoctlSetTermios sys fd wq q s = (None, s1)" for wq q s using assms(3) [of wq q s] by (metis prod.collapse)
  have "read_password (passwordReader_Read sys fd 1) [] s1 = None" for s1
    by (rule read_password_stuck) (simp add: assms(1) passwordReader_Read_def)
  moreover have "read_sixteen (sys_Read sys fd 16) [] s1 = Some ([], Some IoEOF, s1)" for s1
    by (simp add: read_sixteen.simps assms(1))
  ultimately show ?thesis
    using set [of wq "password_mode (bits sys) t" s] set [of TCSETS "password_mode (bits sys) t" s] assms(2)
    by (auto simp: ReadPassword_unix_def ReadPassword_solaris_def GetState_def)
qed

text \<open>On Windows, too, the mode is set back after a password was read, and after the handle could not be
  duplicated; on Plan 9 everything is refused.\<close>

lemma ReadPassword_windows_mode:
  assumes "\<And>m s s'. SetConsoleMode sys fd m s = (None, s') \<Longrightarrow> GetConsoleMode sys fd s' = Inr m"
    and "\<And>m s. fst (SetConsoleMode sys fd m s) = None"
    and "GetConsoleMode sys fd s = Inr old" and "ReadPassword_windows sys fd s = Some (pw, err, s')"
  shows "GetConsoleMode sys fd s' = Inr old"
proof -
  have restored: "GetConsoleMode sys fd (snd (SetConsoleMode sys fd old s2)) = Inr old" for s2
    using assms(1) [of old s2 "snd (SetConsoleMode sys fd old s2)"] assms(2) [of old s2] by (metis prod.collapse)
  show ?thesis
    using assms(2-4) restored
    by (auto simp: ReadPassword_windows_def Let_def bind_eq_Some_conv split: prod.splits sum.splits option.splits)
      (metis fst_conv option.distinct(1))+
qed

end
