(* ===== verification/TermRun.thy ===== *)
theory TermRun
  imports TermIO
begin

text \<open>
  The terminal shared by goroutines (\<open>sshd/terminal/terminal.go\<close>). \<open>readLine\<close> releases the
  lock around \<open>Read\<close>; while it waits, the writer of the user's messages, the session that
  changes the size and the host that changes the prompt may call the terminal. An
  \<open>event\<close> is the end of the waiting \<open>Read\<close> or such a call, which holds the lock from
  beginning to end.
\<close>

section \<open>Calls beside a waiting reader\<close>

datatype call =
    WriteCall string
  | SetPromptCall string
  | SetSizeCall nat nat
  | SetEnterClearCall bool
  | SetBracketedPasteModeCall bool

fun do_call :: "(rune \<Rightarrow> bool) \<Rightarrow> 'd writer \<Rightarrow> call \<Rightarrow> terminal \<Rightarrow> 'd \<Rightarrow> (terminal \<times> 'd) option" where
  "do_call wd wr (WriteCall buf) t d = do { (n, err, t, d) \<leftarrow> Write wd wr buf t d; Some (t, d) }"
| "do_call wd wr (SetPromptCall p) t d = Some (SetPrompt p t, d)"
| "do_call wd wr (SetSizeCall w h) t d = do { (err, t, d) \<leftarrow> SetSize wd wr w h t d; Some (t, d) }"
| "do_call wd wr (SetEnterClearCall on) t d = Some (SetEnterClear on t, d)"
| "do_call wd wr (SetBracketedPasteModeCall on) t d = Some (t, SetBracketedPasteMode wr on d)"

datatype event =
    Got string "go_error option"
  | Called call

datatype 'd shared =
    Line string "go_error option" terminal 'd "event list"
  | Blocked bool terminal 'd

section \<open>Reading with the lock free\<close>

text \<open>From the unlocking before \<open>Read\<close> on. The place in the buffer for new bytes is behind the
  remainder, which no call changes.\<close>

fun shared_wait :: "(rune \<Rightarrow> bool) \<Rightarrow> 'd writer \<Rightarrow> event list \<Rightarrow> bool \<Rightarrow> terminal \<Rightarrow> 'd \<Rightarrow> 'd shared option" where
  "shared_wait wd wr [] lineIsPasted t d = Some (Blocked lineIsPasted t d)"
| "shared_wait wd wr (Called c # es) lineIsPasted t d = do {
     (t, d) \<leftarrow> do_call wd wr c t d;
     shared_wait wd wr es lineIsPasted t d
   }"
| "shared_wait wd wr (Got data rerr # es) lineIsPasted t d =
    (case rerr of
       Some e \<Rightarrow> Some (Line [] (Some e) t d es)
     | None \<Rightarrow>
         let got = take (inBuf_size - length (remainder t)) data in
         (case readLine_turn wd wr lineIsPasted (t\<lparr>remainder := remainder t @ got\<rparr>) d of
            None \<Rightarrow> None
          | Some (Return l err t d) \<Rightarrow> Some (Line l err t d es)
          | Some (Read lineIsPasted t d) \<Rightarrow> shared_wait wd wr es lineIsPasted t d))"

definition shared_loop :: "(rune \<Rightarrow> bool) \<Rightarrow> 'd writer \<Rightarrow> event list \<Rightarrow> bool \<Rightarrow> terminal \<Rightarrow> 'd \<Rightarrow> 'd shared option" where
  "shared_loop wd wr es lineIsPasted t d =
    (case readLine_turn wd wr lineIsPasted t d of
       None \<Rightarrow> None
     | Some (Return l err t d) \<Rightarrow> Some (Line l err t d es)
     | Some (Read lineIsPasted t d) \<Rightarrow> shared_wait wd wr es lineIsPasted t d)"

definition shared_readLine :: "(rune \<Rightarrow> bool) \<Rightarrow> 'd writer \<Rightarrow> event list \<Rightarrow> terminal \<Rightarrow> 'd \<Rightarrow> 'd shared option" where
  "shared_readLine wd wr es t d =
    (if cursorX t = 0 \<and> cursorY t = 0 then do {
       t \<leftarrow> writeLine wd (prompt t) t;
       (case flush wr t d of (t, d) \<Rightarrow> shared_loop wd wr es (pasteActive t) t d)
     } else shared_loop wd wr es (pasteActive t) t d)"

definition shared_ReadPassword :: "(rune \<Rightarrow> bool) \<Rightarrow> 'd writer \<Rightarrow> event list \<Rightarrow> string \<Rightarrow> terminal \<Rightarrow> 'd \<Rightarrow> 'd shared option" where
  "shared_ReadPassword wd wr es p t d =
    (case shared_readLine wd wr es (t\<lparr>prompt := to_runes p, echo := False\<rparr>) d of
       None \<Rightarrow> None
     | Some (Line l err t' d es) \<Rightarrow> Some (Line l err (t'\<lparr>prompt := prompt t, echo := True\<rparr>) d es)
     | Some (Blocked lineIsPasted t d) \<Rightarrow> Some (Blocked lineIsPasted t d))"

section \<open>What a call leaves alone\<close>

definition same_input :: "terminal \<Rightarrow> terminal \<Rightarrow> bool" where
  "same_input t t' \<longleftrightarrow> line t' = line t \<and> pos t' = pos t \<and> remainder t' = remainder t \<and> echo t' = echo t \<and>
    pasteActive t' = pasteActive t \<and> history t' = history t \<and> historyIndex t' = historyIndex t \<and>
    historyPending t' = historyPending t \<and> AutoCompleteCallback t' = AutoCompleteCallback t"

lemma same_input_refl [simp]: "same_input t t"
  by (simp add: same_input_def)

lemma same_input_edit: "edit t' = edit t \<Longrightarrow> same_input t t'"
  using edit_fields [of t' t] by (simp add: same_input_def)

lemma same_input_trans: "same_input t t1 \<Longrightarrow> same_input t1 t2 \<Longrightarrow> same_input t t2"
  by (simp add: same_input_def)

text \<open>\<open>Write\<close> on any device, one that fails included.\<close>

lemma Write_any:
  assumes inv: "term_inv t"
  shows "\<exists>n err t' d'. Write wd wr buf t d = Some (n, err, t', d') \<and> edit t' = edit t \<and> geom t'"
proof (cases "cursorX t = 0 \<and> cursorY t = 0")
  case True
  then show ?thesis using inv by (cases "writeWithCRLF wr buf d") (simp add: Write_def term_inv_def)
next
  case False
  define t1 where "t1 = clearLineToRight ((move 0 0 (cursorX t) 0 t)\<lparr>cursorX := 0\<rparr>)"
  define t2 where "t2 = erase_rows (cursorY t1) t1"
  have g: "0 < termWidth t" using inv by (auto simp: term_inv_def geom_def)
  have e2: "edit t2 = edit t" by (simp add: t2_def t1_def clearLineToRight_def)
  have "cursorX t2 = 0" using erase_rows_cursor [of "cursorY t1" t1]
    by (simp add: t2_def) (simp add: t1_def clearLineToRight_def queue_def)
  then have g2: "geom t2" using g edit_fields(6) [OF e2] by (simp add: geom_def)
  define t3 where "t3 = t2\<lparr>outBuf := []\<rparr>"
  have e3: "edit t3 = edit t" "geom t3" using e2 g2 by (simp_all add: t3_def)
  obtain t4 where t4: "writeLine wd (prompt t3) t3 = Some t4" "edit t4 = edit t" "geom t4"
    using draws_writeLine [OF e3(2)] e3(1) by (auto simp: runs_def)
  obtain t5 where t5: "(if echo t4 then writeLine wd (line t4) t4 else Some t4) = Some t5" "edit t5 = edit t" "geom t5"
    using draws_writeLine [OF t4(3)] t4 by (cases "echo t4") (auto simp: runs_def)
  obtain t6 where t6: "moveCursorToPos wd (pos t5) t5 = Some t6" "edit t6 = edit t" "geom t6"
    using draws_moveCursorToPos [OF t5(3), of wd "pos t5"] t5(2) by (auto simp: runs_def)
  show ?thesis
    using e2 g2 e3 t4(1) t5(1) t6
    by (auto simp: Write_def if_not_P [OF False] Let_def t1_def [symmetric] t2_def [symmetric] t3_def [symmetric]
        split: prod.split option.split)
qed

lemma do_call_result:
  assumes "term_inv t"
  shows "\<exists>t' d'. do_call wd wr c t d = Some (t', d') \<and> term_inv t' \<and> same_input t t'"
proof (cases c)
  case (WriteCall buf)
  then show ?thesis
    using Write_any [OF assms, of wd wr buf d] term_inv_edit [OF _ _ assms] same_input_edit by fastforce
next
  case (SetPromptCall p)
  then show ?thesis using assms by (simp add: SetPrompt_def same_input_def)
next
  case (SetSizeCall w h)
  obtain err t' d' where s: "SetSize wd wr w h t d = Some (err, t', d')" "term_inv t'"
      "edit t' = edit (t\<lparr>termWidth := (if w = 0 then 1 else w), termHeight := h\<rparr>)"
    using SetSize_result [OF assms, of wd wr w h d] by blast
  have "same_input t t'" using edit_fields [OF s(3)] by (simp add: same_input_def)
  then show ?thesis using s SetSizeCall by simp
next
  case (SetEnterClearCall on)
  then show ?thesis using assms by (simp add: SetEnterClear_def same_input_def term_inv_def geom_def)
next
  case (SetBracketedPasteModeCall on)
  then show ?thesis using assms by simp
qed

lemma safe_same_input: "term_inv t' \<Longrightarrow> same_input t t' \<Longrightarrow> complete_ok t \<Longrightarrow> safe t'"
  by (simp add: same_input_def complete_ok_def)

lemma typing_same_input: "term_inv t' \<Longrightarrow> same_input t t' \<Longrightarrow> typing t \<Longrightarrow> typing t'"
  by (simp add: same_input_def typing_def)

section \<open>Runs\<close>

fun shared_term :: "'d shared \<Rightarrow> terminal" where
  "shared_term (Line l err t d es) = t"
| "shared_term (Blocked p t d) = t"

lemma shared_wait_safe: "safe t \<Longrightarrow> \<exists>r. shared_wait wd wr es p t d = Some r \<and> safe (shared_term r)"
proof (induction es arbitrary: p t d)
  case (Cons e es)
  show ?case
  proof (cases e)
    case (Called c)
    obtain t' d' where c: "do_call wd wr c t d = Some (t', d')" "term_inv t'" "same_input t t'"
      using do_call_result [of t wd wr c d] Cons.prems by blast
    have "safe t'" using safe_same_input [OF c(2,3)] Cons.prems by blast
    then show ?thesis using Cons.IH c(1) Called by auto
  next
    case (Got data err)
    let ?t = "t\<lparr>remainder := remainder t @ take (inBuf_size - length (remainder t)) data\<rparr>"
    have "safe ?t" using Cons.prems by simp
    then obtain r where "readLine_turn wd wr p ?t d = Some r" "safe (case r of Return l err t d \<Rightarrow> t | Read p t d \<Rightarrow> t)"
      using readLine_turn_safe [of ?t wd wr p d] by blast
    then show ?thesis
      using Cons.prems Cons.IH Got by (cases r; cases err) (auto simp: Let_def)
  qed
qed simp

text \<open>The bytes that arrive, and runs without errors of the device.\<close>

fun arrived :: "event list \<Rightarrow> string" where
  "arrived [] = []"
| "arrived (Got data err # es) = data @ arrived es"
| "arrived (Called c # es) = arrived es"

fun calm :: "event list \<Rightarrow> bool" where
  "calm [] = True"
| "calm (Got data err # es) \<longleftrightarrow> err = None \<and> length data \<le> 250 \<and> calm es"
| "calm (Called c # es) = calm es"

lemma got_line_same_input: "same_input t t1 \<Longrightarrow> got_line l t1 t' = got_line l t t'"
  by (simp add: same_input_def got_line_def)

lemma shared_wait_typed:
  assumes "typing t" and "remainder t @ arrived es = of_runes rs @ [byte 13]" and "arrived es \<noteq> []"
    and "length (remainder t) \<le> 3" and "list_all typable rs" and "length (line t) + length rs \<le> maxLineLength" and "calm es"
  shows "\<exists>t' d' left. shared_wait wd wr es p t d = Some (Line (of_runes (line t @ rs)) None t' d' left) \<and>
    got_line (line t @ rs) t t'"
  using assms
proof (induction es arbitrary: t d p rs)
  case (Cons e es)
  show ?case
  proof (cases e)
    case (Called c)
    have "term_inv t" using Cons.prems(1) by (simp add: typing_def)
    then obtain t1 d1 where c: "do_call wd wr c t d = Some (t1, d1)" "term_inv t1" "same_input t t1"
      using do_call_result [of t wd wr c d] by blast
    have "typing t1" by (rule typing_same_input [OF c(2,3) Cons.prems(1)])
    moreover have "line t1 = line t" "remainder t1 = remainder t" using c(3) by (simp_all add: same_input_def)
    ultimately obtain t' d' left where "shared_wait wd wr es p t1 d1 = Some (Line (of_runes (line t @ rs)) None t' d' left)"
        "got_line (line t @ rs) t1 t'"
      using Cons.IH [of t1 rs p d1] Cons.prems(2-7) Called by (simp only: arrived.simps calm.simps) blast
    then show ?thesis using Called c(1) got_line_same_input [OF c(3)] by simp
  next
    case (Got data err)
    define t1 where "t1 = t\<lparr>remainder := remainder t @ data\<rparr>"
    have "length data \<le> inBuf_size - length (remainder t)" using Cons.prems(4,7) Got by (auto simp: inBuf_size_def)
    then have eq: "shared_wait wd wr (e # es) p t d = (case readLine_turn wd wr p t1 d of
        None \<Rightarrow> None | Some (Return l err t d) \<Rightarrow> Some (Line l err t d es) | Some (Read p t d) \<Rightarrow> shared_wait wd wr es p t d)"
      using Cons.prems(7) Got by (simp add: t1_def Let_def)
    have f: "typing t1" "remainder t1 @ arrived es = of_runes rs @ [byte 13]" "line t1 = line t" "echo t1 = echo t"
      "pasteActive t1 = pasteActive t" "history t1 = history t"
      using Cons.prems(1,2) Got by (simp_all add: t1_def)
    have g: "got_line l t1 t' = got_line l t t'" for l t' using f by (simp add: got_line_def)
    have len: "length (line t1) + length rs \<le> maxLineLength" using Cons.prems(6) f(3) by simp
    show ?thesis
    proof (cases "arrived es = []")
      case True
      then have "remainder t1 = of_runes rs @ [byte 13]" using f(2) by simp
      then obtain t' d' where "readLine_turn wd wr p t1 d = Some (Return (of_runes (line t1 @ rs)) None t' d')" "got_line (line t1 @ rs) t1 t'"
        using readLine_turn_typed [OF f(1) _ Cons.prems(5) len, of wd wr p d] by blast
      then show ?thesis using f(3) g by (simp add: eq)
    next
      case False
      from readLine_turn_partial [OF f(1,2) False Cons.prems(5) len, of wd wr p d]
      obtain rs1 rs2 p2 t2 d2 where turn: "readLine_turn wd wr p t1 d = Some (Read p2 t2 d2)" and rs: "rs = rs1 @ rs2"
        and t2: "typing t2" "line t2 = line t1 @ rs1" "remainder t2 @ arrived es = of_runes rs2 @ [byte 13]" "length (remainder t2) \<le> 3"
        and s2: "echo t2 = echo t1" "pasteActive t2 = pasteActive t1" "history t2 = history t1" by blast
      have "list_all typable rs2" "calm es" using Cons.prems(5,7) rs Got by simp_all
      then obtain t' d' left where "shared_wait wd wr es p2 t2 d2 = Some (Line (of_runes (line t2 @ rs2)) None t' d' left)"
          "got_line (line t2 @ rs2) t2 t'"
        using Cons.IH [OF t2(1,3) False t2(4), of p2 d2] len rs t2(2) by (simp del: append_assoc) blast
      then show ?thesis using turn rs t2(2) s2 f by (simp add: eq got_line_def)
    qed
  qed
qed simp

text \<open>With no calls this is the reader of \<open>TermIO\<close>.\<close>

fun as_shared :: "'d line_result \<Rightarrow> 'd shared" where
  "as_shared (Returned l err t d rs) = Line l err t d (map (\<lambda>(data, rerr). Got data rerr) rs)"
| "as_shared (Waiting p t d) = Blocked p t d"

lemma shared_loop_alone:
  "shared_loop wd wr (map (\<lambda>(data, rerr). Got data rerr) rs) p t d = map_option as_shared (readLine_loop wd wr rs p t d)"
proof (induction rs arbitrary: p t d)
  case (Cons r rs)
  obtain data err where "r = (data, err)" by (cases r)
  then show ?case
    using Cons.IH [unfolded shared_loop_def]
    by (auto simp: shared_loop_def Let_def split: option.split turn.split)
qed (auto simp: shared_loop_def split: option.split turn.split)

lemma shared_alone:
  "shared_readLine wd wr (map (\<lambda>(data, rerr). Got data rerr) rs) t d = map_option as_shared (readLine wd wr rs t d)"
  by (auto simp: shared_readLine_def readLine_def shared_loop_alone [unfolded case_prod_unfold] map_option_bind case_prod_unfold comp_def)

lemma shared_start:
  assumes "term_inv t"
  shows "\<exists>t' d'. shared_readLine wd wr es t d = shared_loop wd wr es (pasteActive t) t' d' \<and> edit t' = edit t \<and> geom t'"
proof (cases "cursorX t = 0 \<and> cursorY t = 0")
  case True
  obtain t1 where t1: "writeLine wd (prompt t) t = Some t1" "edit t1 = edit t" "geom t1"
    using draws_writeLine [of t wd "prompt t"] assms by (auto simp: term_inv_def runs_def)
  then show ?thesis using True edit_fields(5) [OF t1(2)] by (auto simp: shared_readLine_def flush_def)
qed (use assms in \<open>auto simp: shared_readLine_def term_inv_def\<close>)

lemma shared_loop_safe: "safe t \<Longrightarrow> \<exists>r. shared_loop wd wr es p t d = Some r \<and> safe (shared_term r)"
proof -
  assume t: "safe t"
  then obtain r where "readLine_turn wd wr p t d = Some r" "safe (case r of Return l err t d \<Rightarrow> t | Read p t d \<Rightarrow> t)"
    using readLine_turn_safe [of t wd wr p d] by blast
  then show ?thesis by (cases r) (simp_all add: shared_loop_def shared_wait_safe)
qed

lemma shared_loop_typed:
  assumes "typing t" and "remainder t @ arrived es = of_runes rs @ [byte 13]" and "list_all typable rs"
    and "length (line t) + length rs \<le> maxLineLength" and "calm es"
  shows "\<exists>t' d' left. shared_loop wd wr es p t d = Some (Line (of_runes (line t @ rs)) None t' d' left) \<and> got_line (line t @ rs) t t'"
proof (cases "arrived es = []")
  case True
  then have "remainder t = of_runes rs @ [byte 13]" using assms(2) by simp
  then obtain t' d' where "readLine_turn wd wr p t d = Some (Return (of_runes (line t @ rs)) None t' d')" "got_line (line t @ rs) t t'"
    using readLine_turn_typed [OF assms(1) _ assms(3,4), of wd wr p d] by blast
  then show ?thesis by (simp add: shared_loop_def)
next
  case False
  from readLine_turn_partial [OF assms(1,2) False assms(3,4), of wd wr p d]
  obtain rs1 rs2 p2 t2 d2 where turn: "readLine_turn wd wr p t d = Some (Read p2 t2 d2)" and rs: "rs = rs1 @ rs2"
    and t2: "typing t2" "line t2 = line t @ rs1" "remainder t2 @ arrived es = of_runes rs2 @ [byte 13]" "length (remainder t2) \<le> 3"
    and s2: "echo t2 = echo t" "pasteActive t2 = pasteActive t" "history t2 = history t" by blast
  have "list_all typable rs2" "length (line t2) + length rs2 \<le> maxLineLength" using assms(3,4) rs t2(2) by simp_all
  from shared_wait_typed [OF t2(1,3) False t2(4) this assms(5), of wd wr p2 d2]
  show ?thesis using turn rs t2(2) s2 by (auto simp: shared_loop_def got_line_def)
qed

lemma shared_readLine_typed:
  assumes "typing t" and "line t = []" and "remainder t = []" and "echo t"
    and "list_all typable rs" and "length rs \<le> 4096" and "arrived es = of_runes rs @ [byte 13]" and "calm es"
  shows "\<exists>t' d' left. shared_readLine wd wr es t d = Some (Line (of_runes rs) None t' d' left) \<and>
    history t' = rb_Add (of_runes rs) (history t) \<and> line t' = [] \<and> remainder t' = [] \<and> term_inv t'"
proof -
  have "term_inv t" using assms(1) by (simp add: typing_def)
  then obtain t1 d1 where t1: "shared_readLine wd wr es t d = shared_loop wd wr es (pasteActive t) t1 d1" "edit t1 = edit t" "geom t1"
    using shared_start [of t wd wr es d] by blast
  note f = edit_fields [OF t1(2)]
  have "typing t1" using assms(1) t1(3) f by (simp add: typing_def term_inv_def)
  moreover have "remainder t1 @ arrived es = of_runes rs @ [byte 13]" using assms(3,7) f by simp
  ultimately show ?thesis
    using shared_loop_typed [of t1 es rs wd wr "pasteActive t" d1] assms(2,4-6,8) f t1(1)
    by (auto simp: got_line_def maxLineLength_def)
qed

section \<open>Properties\<close>





text \<open>A resize shows what is typed without echo: \<open>SetSize\<close> draws the line again without
  asking for the echo, so a window that changes its width while \<open>ReadPassword\<close> waits gets the password.\<close>

lemma writeLine_fits:
  assumes "geom t" and "l \<noteq> []" and "length l \<le> termWidth t - cursorX t"
  shows "\<exists>t' post. writeLine wd l t = Some t' \<and> outBuf t' = outBuf t @ of_runes l @ post \<and> echo t' = echo t"
  using assms
  by (subst writeLine.simps) (auto simp: geom_def advanceCursor_def queue_def Let_def writeLine.simps [of wd "[]"])

theorem resize_shows_password:
  assumes "term_inv t" and "writes wr sent" and "\<not> echo t" and "line t \<noteq> []" and "w \<noteq> 0" and "termWidth t < w"
    and "visualLength wd (prompt t) mod w + length (line t) \<le> w"
  shows "\<exists>t' d' pre post. do_call wd wr (SetSizeCall w h) t d = Some (t', d') \<and> sent d' = sent d @ pre @ of_runes (line t) @ post"
proof -
  define t1 where "t1 = t\<lparr>termWidth := w, termHeight := h\<rparr>"
  define t2 where "t2 = clear_rows (maxLine t1) (clearLineToRight ((move (cursorY t1) 0 (cursorX t1) 0 t1)\<lparr>cursorX := 0, cursorY := 0\<rparr>))"
  define t3 where "t3 = queue (prompt (move (cursorY t2) 0 0 0 t2)) ((move (cursorY t2) 0 0 0 t2)\<lparr>cursorX := 0, cursorY := 0\<rparr>)"
  have e: "edit t3 = edit t1" by (simp add: t3_def t2_def clearLineToRight_def)
  note f = edit_fields [OF e]
  have x: "cursorX t3 = 0" by (simp add: t3_def queue_def)
  obtain t4 where t4: "advanceCursor (visualLength wd (prompt t3)) t3 = Some t4"
      "cursorX t4 = visualLength wd (prompt t) mod w" "edit t4 = edit t3"
    using assms(5) x f by (auto simp: advanceCursor_def Let_def t1_def)
  have f4: "line t4 = line t" "echo t4 = echo t" "termWidth t4 = w"
    using edit_fields [OF t4(3)] f by (simp_all add: t1_def)
  have "geom t4" "length (line t) \<le> termWidth t4 - cursorX t4" using assms(5,7) t4(2) f4 by (simp_all add: geom_def)
  then obtain t5 post where t5: "writeLine wd (line t4) t4 = Some t5" "outBuf t5 = outBuf t4 @ of_runes (line t) @ post" "echo t5 = echo t4"
    using writeLine_fits [of t4 "line t" wd] assms(4) f4(1) by auto
  have m: "moveCursorToPos wd (pos t5) t5 = Some t5" using t5(3) f4(2) assms(3) by (simp add: moveCursorToPos_def)
  have rep: "clearAndRepaintLinePlusNPrevious wd (maxLine t1) t1 = Some t5"
    by (simp add: clearAndRepaintLinePlusNPrevious_def Let_def t2_def [symmetric] t3_def [symmetric] t4(1) t5(1) m)
  obtain d1 where d1: "wr d (outBuf t5) = (length (outBuf t5), None, d1)" "sent d1 = sent d @ outBuf t5"
    using assms(2) unfolding writes_def by metis
  have "SetSize wd wr w h t d = Some (None, t5\<lparr>outBuf := []\<rparr>, d1)"
    using assms(4-6) rep d1(1) by (simp add: SetSize_def Let_def t1_def)
  then show ?thesis using d1(2) t5(2) by (intro exI [of _ "outBuf t4"] exI) (auto intro!: exI)
qed

theorem resize_shows_password_witness:
  "\<exists>t' d' pre post. do_call (\<lambda>r. False) buffer_write (SetSizeCall 100 30) ((NewTerminal [])\<lparr>echo := False, line := [112, 119], pos := 2\<rparr>) []
    = Some (t', d') \<and> d' = pre @ ''pw'' @ post"
proof -
  let ?t = "(NewTerminal [])\<lparr>echo := False, line := [112, 119], pos := 2\<rparr>"
  have "term_inv ?t" "\<not> echo ?t" "line ?t \<noteq> []" "termWidth ?t < 100" "visualLength (\<lambda>r. False) (prompt ?t) mod 100 + length (line ?t) \<le> 100"
    "line ?t = [112, 119]"
    by (simp_all add: term_inv_def geom_def rb_inv_def emptyRing_def NewTerminal_def visualLength_def to_runes_def)
  moreover have "of_runes [112, 119] = ''pw''" by (simp add: of_runes_def encode_rune_def str_eval)
  ultimately show ?thesis using resize_shows_password [OF _ writes_buffer, of ?t 100 "\<lambda>r. False" 30 "[]"] by auto
qed

end
