(* ===== verification/Theme.thy ===== *)
theory Theme
  imports GoStrings RingLog "HOL-Library.Word"
begin

text \<open>
  Identifiers, styles, palettes and themes (\<open>chat/message/identity.go\<close>,
  \<open>chat/message/theme.go\<close>, and the \<open>Identity\<close> of \<open>identity.go\<close> as far as it
  names a user). A function that can panic returns an option.
\<close>

section \<open>Identifiers\<close>

text \<open>The two implementations of \<open>Identifier\<close>: \<open>SimpleID\<close>, whose \<open>SetID\<close> does
  nothing, and \<open>*Identity\<close> with its name and symbol.\<close>

datatype Identifier =
    SimpleID string
  | Identity string string

fun ID :: "Identifier \<Rightarrow> string" where
  "ID (SimpleID s) = s"
| "ID (Identity i symbol) = i"

fun SetID :: "string \<Rightarrow> Identifier \<Rightarrow> Identifier" where
  "SetID s (SimpleID i) = SimpleID i"
| "SetID s (Identity i symbol) = Identity s symbol"

fun SetSymbol :: "string \<Rightarrow> Identifier \<Rightarrow> Identifier" where
  "SetSymbol symbol (SimpleID i) = SimpleID i"
| "SetSymbol symbol (Identity i s) = Identity i symbol"

fun DisplayName :: "Identifier \<Rightarrow> string" where
  "DisplayName (SimpleID s) = ID (SimpleID s)"
| "DisplayName (Identity i symbol) = (if symbol \<noteq> [] then symbol @ '' '' @ i else i)"

text \<open>What rendering needs of a user.\<close>

record ident =
  ident_of :: Identifier
  colorIdx :: int

section \<open>Styles\<close>

definition Reset :: string where "Reset = byte 27 # ''[0m''"
definition Bold :: string where "Bold = byte 27 # ''[1m''"
definition Newline :: string where "Newline = [byte 13, byte 10]"
definition Bel :: string where "Bel = [byte 7]"

datatype Style =
    style string
  | Color256 "8 word"
  | Color0

fun Style_String :: "Style \<Rightarrow> string" where
  "Style_String (style c) = c"
| "Style_String (Color256 c) = ''38;05;'' @ Itoa (unat c)"
| "Style_String Color0 = []"

fun Style_Format :: "Style \<Rightarrow> string \<Rightarrow> string" where
  "Style_Format (style c) s = Style_String (style c) @ s @ Reset"
| "Style_Format (Color256 c) s = byte 27 # ''['' @ Style_String (Color256 c) @ ''m'' @ s @ Reset"
| "Style_Format Color0 s = s"

section \<open>Palettes\<close>

record Palette =
  colors :: "Style list"
  psize :: nat

definition Color256Palette :: "8 word list \<Rightarrow> Palette" where
  "Color256Palette cs = \<lparr>colors = map Color256 cs, psize = length cs\<rparr>"

definition nth_int :: "'a list \<Rightarrow> int \<Rightarrow> 'a option" where
  "nth_int xs i = (if 0 \<le> i \<and> i < int (length xs) then Some (xs ! nat i) else None)"

definition Palette_Get :: "Palette \<Rightarrow> int \<Rightarrow> Style option" where
  "Palette_Get p i =
    (if psize p = 1 then nth_int (colors p) 0
     else nth_int (colors p) (go_rem i (int (psize p) - 1)))"

definition Palette_Len :: "Palette \<Rightarrow> nat" where
  "Palette_Len p = psize p"

definition Palette_String :: "Palette \<Rightarrow> string" where
  "Palette_String p = foldl (\<lambda>r c. r @ Style_Format c ''X'') [] (colors p)"

definition allColors256 :: Palette where
  "allColors256 = Color256Palette (map word_of_nat [0..<255])"

definition readableColors256 :: Palette where
  "readableColors256 = Color256Palette (map word_of_nat
    (filter (\<lambda>i. \<not> (i = 0 \<or> i = 7 \<or> i = 8 \<or> i = 15 \<or> i = 16 \<or> i = 17 \<or> i > 230)) [0..<255]))"

section \<open>Themes\<close>

record Theme =
  theme_id :: string
  sys :: "Style option"
  pm :: "Style option"
  highlight :: "Style option"
  names :: "Palette option"
  useID :: bool

definition ColorName :: "Theme \<Rightarrow> 'a ident_scheme \<Rightarrow> string option" where
  "ColorName theme u =
    (let name = (if useID theme then ID (ident_of u) else DisplayName (ident_of u)) in
     case names theme of
       None \<Rightarrow> Some name
     | Some p \<Rightarrow> map_option (\<lambda>c. Style_Format c name) (Palette_Get p (colorIdx u)))"

definition styled :: "Style option \<Rightarrow> string \<Rightarrow> string" where
  "styled c s = (case c of None \<Rightarrow> s | Some c \<Rightarrow> Style_Format c s)"

definition ColorPM :: "Theme \<Rightarrow> string \<Rightarrow> string" where
  "ColorPM theme s = styled (pm theme) s"

definition ColorSys :: "Theme \<Rightarrow> string \<Rightarrow> string" where
  "ColorSys theme s = styled (sys theme) s"

definition Theme_Highlight :: "Theme \<Rightarrow> string \<Rightarrow> string" where
  "Theme_Highlight theme s = styled (highlight theme) s"

definition Theme_Timestamp :: "Theme \<Rightarrow> string \<Rightarrow> string" where
  "Theme_Timestamp theme s = styled (sys theme) s"

definition colorsTheme :: Theme where
  "colorsTheme = \<lparr>theme_id = ''colors'', sys = Some (Color256 245), pm = Some (Color256 7),
     highlight = Some (style (Bold @ byte 27 # ''[48;5;11m'' @ byte 27 # ''[38;5;16m'')),
     names = Some readableColors256, useID = False\<rparr>"

definition solarizedTheme :: Theme where
  "solarizedTheme = \<lparr>theme_id = ''solarized'', sys = Some (Color256 11), pm = Some (Color256 15),
     highlight = Some (style (Bold @ byte 27 # ''[48;5;3m'' @ byte 27 # ''[38;5;94m'')),
     names = Some (Color256Palette [1, 2, 3, 4, 5, 6, 7, 9, 13]), useID = False\<rparr>"

definition hackerTheme :: Theme where
  "hackerTheme = \<lparr>theme_id = ''hacker'', sys = Some (Color256 22), pm = Some (Color256 28),
     highlight = Some (style (Bold @ byte 27 # ''[48;5;22m'' @ byte 27 # ''[38;5;46m'')),
     names = Some (Color256Palette [82]), useID = False\<rparr>"

definition MonoTheme :: Theme where
  "MonoTheme = \<lparr>theme_id = ''mono'', sys = None, pm = None, highlight = None, names = None, useID = True\<rparr>"

definition Themes :: "Theme list" where
  "Themes = [colorsTheme, solarizedTheme, hackerTheme, MonoTheme]"

definition DefaultTheme :: Theme where
  "DefaultTheme = colorsTheme"

section \<open>Lemmas\<close>

lemma go_rem_nonneg: "0 \<le> i \<Longrightarrow> 0 < n \<Longrightarrow> go_rem i n = i mod n"
  by (cases "i = 0") (simp_all add: go_rem_def sgn_if)

lemma Palette_Get_Color256:
  assumes "2 \<le> length cs" and "0 \<le> i"
  shows "Palette_Get (Color256Palette cs) i = Some (Color256 (cs ! (nat i mod (length cs - 1))))"
proof -
  have n: "0 < int (length cs) - 1" using assms(1) by simp
  have m: "i mod (int (length cs) - 1) < int (length cs) - 1" "0 \<le> i mod (int (length cs) - 1)"
    using n by simp_all
  have e: "nat (i mod (int (length cs) - 1)) = nat i mod (length cs - 1)"
  proof -
    obtain k where k: "i = int k" using assms(2) zero_le_imp_eq_int by blast
    have "int (length cs) - 1 = int (length cs - 1)" using assms(1) by simp
    then show ?thesis by (simp only: k zmod_int [symmetric] nat_int)
  qed
  have "length cs \<noteq> 1" using assms(1) by simp
  then have "Palette_Get (Color256Palette cs) i = nth_int (map Color256 cs) (i mod (int (length cs) - 1))"
    using go_rem_nonneg [OF assms(2) n] by (simp add: Palette_Get_def Color256Palette_def)
  also have "\<dots> = Some (Color256 (cs ! nat (i mod (int (length cs) - 1))))"
    using m by (simp add: nth_int_def)
  finally show ?thesis by (simp only: e)
qed

lemma Palette_Get_total:
  assumes "cs \<noteq> []" and "0 \<le> i"
  shows "\<exists>c\<in>set cs. Palette_Get (Color256Palette cs) i = Some (Color256 c)"
proof (cases "length cs = 1")
  case True
  then show ?thesis by (cases cs) (auto simp: Palette_Get_def Color256Palette_def nth_int_def)
next
  case False
  with assms(1) have "2 \<le> length cs" by (cases cs) (auto simp: Suc_le_eq)
  moreover from this have "nat i mod (length cs - 1) < length cs"
    by (simp add: order_less_le_trans [OF mod_less_divisor])
  ultimately show ?thesis using Palette_Get_Color256 [OF _ assms(2), of cs] by auto
qed


lemma readable_palette: "\<exists>cs. cs \<noteq> [] \<and> readableColors256 = Color256Palette cs"
proof -
  define ok :: "nat \<Rightarrow> bool" where "ok i \<longleftrightarrow> \<not> (i = 0 \<or> i = 7 \<or> i = 8 \<or> i = 15 \<or> i = 16 \<or> i = 17 \<or> i > 230)" for i
  have "1 \<in> set (filter ok [0..<255])" by (simp add: ok_def)
  then have "map word_of_nat (filter ok [0..<255]) \<noteq> ([] :: 8 word list)" by force
  then show ?thesis unfolding readableColors256_def ok_def by blast
qed

lemma names_total:
  assumes "th \<in> set Themes"
  shows "names th = None \<or> (\<exists>cs. cs \<noteq> [] \<and> names th = Some (Color256Palette cs))"
proof -
  consider "th = colorsTheme" | "th = solarizedTheme" | "th = hackerTheme" | "th = MonoTheme"
    using assms by (auto simp: Themes_def)
  then show ?thesis
    using readable_palette by cases (auto simp: colorsTheme_def solarizedTheme_def hackerTheme_def MonoTheme_def)
qed

lemma ColorName_total:
  assumes "th \<in> set Themes" and "0 \<le> colorIdx u"
  shows "ColorName th u \<noteq> None"
  using names_total [OF assms(1)] Palette_Get_total [OF _ assms(2)]
  by (auto simp: ColorName_def Let_def split: option.split) (metis option.distinct(1))

section \<open>Properties\<close>

text \<open>\<open>Palette.Get\<close> on a palette of at least two colours picks the colour at the
  index modulo one less than their number, so the last colour of a palette is
  never used, although indices are said to be looped around; it never panics for
  an index that is not negative.\<close>

theorem Palette_last_unused:
  assumes "2 \<le> length cs" and "0 \<le> i"
  shows "\<exists>j<length cs - 1. Palette_Get (Color256Palette cs) i = Some (Color256 (cs ! j)) \<and> j = nat i mod (length cs - 1)"
  using Palette_Get_Color256 [OF assms] assms(1) by simp

theorem Palette_last_unused_witness:
  "\<exists>j<2. Palette_Get (Color256Palette [1, 2, 3]) 2 = Some (Color256 ([1, 2, 3] ! j)) \<and> j = 0"
  using Palette_last_unused [of "[1, 2, 3]" 2] by (simp add: numeral_2_eq_2)

text \<open>every theme that is built in colours every user's name without a panic,
  whatever colour index the random generator gave the user.\<close>

theorem Themes_color_names:
  assumes "0 \<le> colorIdx u"
  shows "list_all (\<lambda>th. ColorName th u \<noteq> None) Themes"
  using ColorName_total [OF _ assms] by (auto simp: list_all_iff)

theorem Themes_color_names_witness:
  "list_all (\<lambda>th. ColorName th \<lparr>ident_of = SimpleID ''bob'', colorIdx = 12345\<rparr> \<noteq> None) Themes"
  by (rule Themes_color_names) simp

end
