(* ===== verification/Messages.thy ===== *)
theory Messages
  imports Theme "HOL-Library.Monad_Syntax"
begin

text \<open>
  Messages, how input becomes a message, and how each kind of message is
  rendered (\<open>chat/message/message.go\<close>, and \<open>UserConfig\<close> of
  \<open>chat/message/user.go\<close>). A user is referred to by an address; \<open>who\<close> gives the
  user at an address. A function that dereferences a user returns an option,
  \<open>None\<close> for the panic on a \<open>nil\<close> pointer.
\<close>

type_synonym uid = nat

section \<open>Messages\<close>

text \<open>One constructor per dynamic type behind the interface; \<open>PrivateMsg\<close> exists
  as a value and as a pointer, and the program's type switches tell them apart.
  The others have the one form in which the program makes them: \<open>PublicMsg\<close> a
  value, the rest pointers.\<close>

datatype Message =
    Msg string time
  | PublicMsg string time "uid option"
  | EmoteMsg string time "uid option"
  | PrivateMsg string time "uid option" "uid option"
  | PrivateMsg_ptr string time "uid option" "uid option"
  | SystemMsg string time "uid option"
  | AnnounceMsg string time
  | CommandMsg string time "uid option" string "string list"

definition NewMsg :: "time \<Rightarrow> string \<Rightarrow> Message" where
  "NewMsg now body = Msg body now"

definition NewPublicMsg :: "time \<Rightarrow> string \<Rightarrow> uid option \<Rightarrow> Message" where
  "NewPublicMsg now body from_user = PublicMsg body now from_user"

definition NewEmoteMsg :: "time \<Rightarrow> string \<Rightarrow> uid option \<Rightarrow> Message" where
  "NewEmoteMsg now body from_user = EmoteMsg body now from_user"

definition NewPrivateMsg :: "time \<Rightarrow> string \<Rightarrow> uid option \<Rightarrow> uid option \<Rightarrow> Message" where
  "NewPrivateMsg now body from_user to = PrivateMsg body now from_user to"

definition NewSystemMsg :: "time \<Rightarrow> string \<Rightarrow> uid option \<Rightarrow> Message" where
  "NewSystemMsg now body to = SystemMsg body now to"

definition NewAnnounceMsg :: "time \<Rightarrow> string \<Rightarrow> Message" where
  "NewAnnounceMsg now body = AnnounceMsg body now"

text \<open>\<open>From m = None\<close> when \<open>m\<close> has no method \<open>From\<close>; likewise \<open>To\<close>.\<close>

fun From :: "Message \<Rightarrow> uid option option" where
  "From (PublicMsg b t f) = Some f"
| "From (EmoteMsg b t f) = Some f"
| "From (PrivateMsg b t f u) = Some f"
| "From (PrivateMsg_ptr b t f u) = Some f"
| "From (CommandMsg b t f c as) = Some f"
| "From _ = None"

fun To :: "Message \<Rightarrow> uid option option" where
  "To (PrivateMsg b t f u) = Some u"
| "To (PrivateMsg_ptr b t f u) = Some u"
| "To (SystemMsg b t u) = Some u"
| "To _ = None"

fun Timestamp :: "Message \<Rightarrow> time" where
  "Timestamp (Msg b t) = t"
| "Timestamp (PublicMsg b t f) = t"
| "Timestamp (EmoteMsg b t f) = t"
| "Timestamp (PrivateMsg b t f u) = t"
| "Timestamp (PrivateMsg_ptr b t f u) = t"
| "Timestamp (SystemMsg b t u) = t"
| "Timestamp (AnnounceMsg b t) = t"
| "Timestamp (CommandMsg b t f c as) = t"

fun Command :: "Message \<Rightarrow> string" where
  "Command (CommandMsg b t f c as) = c"
| "Command _ = []"

fun Args :: "Message \<Rightarrow> string list" where
  "Args (CommandMsg b t f c as) = as"
| "Args _ = []"

fun Body :: "Message \<Rightarrow> string" where
  "Body (CommandMsg b t f c as) = b"
| "Body _ = []"

section \<open>Input\<close>

text \<open>\<open>ParseCommand\<close> on the parts of a public message: \<open>Some None\<close> when it is no
  command, \<open>None\<close> for the panic on an empty list of fields.\<close>

definition ParseCommand :: "string \<Rightarrow> time \<Rightarrow> uid option \<Rightarrow> Message option option" where
  "ParseCommand body t from_user =
    (if \<not> HasPrefix body ''/'' then Some None
     else case Fields body of
       [] \<Rightarrow> None
     | command # args \<Rightarrow> Some (Some (CommandMsg body t from_user command args)))"

definition ParseInput :: "time \<Rightarrow> string \<Rightarrow> uid option \<Rightarrow> Message option" where
  "ParseInput now body from_user = do {
     cmd \<leftarrow> ParseCommand body now from_user;
     Some (case cmd of Some m \<Rightarrow> m | None \<Rightarrow> NewPublicMsg now body from_user)
   }"

section \<open>Rendering\<close>

text \<open>A compiled regular expression is its two methods that are used, \<open>MatchString\<close>
  and \<open>ReplaceAllString\<close>. A time zone is its offset.\<close>

record regexp =
  MatchString :: "string \<Rightarrow> bool"
  ReplaceAllString :: "string \<Rightarrow> string \<Rightarrow> string"

record UserConfig =
  Highlight :: "regexp option"
  Bell :: bool
  Quiet :: bool
  Echo :: bool
  Timeformat :: "string option"
  Timezone :: "int option"
  cfg_Theme :: "Theme option"

definition DefaultUserConfig :: UserConfig where
  "DefaultUserConfig = \<lparr>Highlight = None, Bell = True, Quiet = False, Echo = True,
     Timeformat = None, Timezone = None, cfg_Theme = None\<rparr>"

definition deref :: "(uid \<Rightarrow> 'a ident_scheme) \<Rightarrow> uid option \<Rightarrow> 'a ident_scheme option" where
  "deref who p = map_option who p"

definition from_Name :: "(uid \<Rightarrow> 'a ident_scheme) \<Rightarrow> uid option \<Rightarrow> string option" where
  "from_Name who p = map_option (\<lambda>u. DisplayName (ident_of u)) (deref who p)"

definition from_ID :: "(uid \<Rightarrow> 'a ident_scheme) \<Rightarrow> uid option \<Rightarrow> string option" where
  "from_ID who p = map_option (\<lambda>u. ID (ident_of u)) (deref who p)"

definition PublicMsg_String :: "(uid \<Rightarrow> 'a ident_scheme) \<Rightarrow> string \<Rightarrow> uid option \<Rightarrow> string option" where
  "PublicMsg_String who body f = do { n \<leftarrow> from_Name who f; Some (n @ '': '' @ body) }"

definition PublicMsg_Render ::
  "(uid \<Rightarrow> 'a ident_scheme) \<Rightarrow> Theme option \<Rightarrow> string \<Rightarrow> uid option \<Rightarrow> string option" where
  "PublicMsg_Render who t body f =
    (case t of
       None \<Rightarrow> PublicMsg_String who body f
     | Some theme \<Rightarrow> do { u \<leftarrow> deref who f; n \<leftarrow> ColorName theme u; Some (n @ '': '' @ body) })"

definition RenderFor ::
  "(uid \<Rightarrow> 'a ident_scheme) \<Rightarrow> UserConfig \<Rightarrow> string \<Rightarrow> uid option \<Rightarrow> string option" where
  "RenderFor who cfg body f =
    (case (Highlight cfg, cfg_Theme cfg) of
       (Some re, Some theme) \<Rightarrow>
         if \<not> MatchString re body then PublicMsg_Render who (cfg_Theme cfg) body f
         else do {
           let body = ReplaceAllString re body (Theme_Highlight theme ''${1}'');
           let body = (if Bell cfg then body @ Bel else body);
           u \<leftarrow> deref who f;
           n \<leftarrow> ColorName theme u;
           Some (n @ '': '' @ body)
         }
     | _ \<Rightarrow> PublicMsg_Render who (cfg_Theme cfg) body f)"

definition RenderSelf ::
  "(uid \<Rightarrow> 'a ident_scheme) \<Rightarrow> UserConfig \<Rightarrow> string \<Rightarrow> uid option \<Rightarrow> string option" where
  "RenderSelf who cfg body f =
    (case cfg_Theme cfg of
       None \<Rightarrow> do { n \<leftarrow> from_Name who f; Some (''['' @ n @ ''] '' @ body) }
     | Some theme \<Rightarrow> do { u \<leftarrow> deref who f; n \<leftarrow> ColorName theme u; Some (''['' @ n @ ''] '' @ body) })"

definition EmoteMsg_Render :: "(uid \<Rightarrow> 'a ident_scheme) \<Rightarrow> string \<Rightarrow> uid option \<Rightarrow> string option" where
  "EmoteMsg_Render who body f = do { n \<leftarrow> from_Name who f; Some (''** '' @ n @ '' '' @ body) }"

definition PrivateMsg_Render ::
  "(uid \<Rightarrow> 'a ident_scheme) \<Rightarrow> Theme option \<Rightarrow> string \<Rightarrow> uid option \<Rightarrow> string option" where
  "PrivateMsg_Render who t body f =
    (case t of
       None \<Rightarrow> do { i \<leftarrow> from_ID who f; Some (''[PM from '' @ i @ ''] '' @ body) }
     | Some theme \<Rightarrow> do { n \<leftarrow> from_Name who f; Some (ColorPM theme (''[PM from '' @ n @ ''] '' @ body)) })"

definition SystemMsg_String :: "string \<Rightarrow> string" where
  "SystemMsg_String body = ''-> '' @ body"

definition AnnounceMsg_String :: "string \<Rightarrow> string" where
  "AnnounceMsg_String body = '' * '' @ body"

definition sys_Render :: "Theme option \<Rightarrow> string \<Rightarrow> string" where
  "sys_Render t s = (case t of None \<Rightarrow> s | Some theme \<Rightarrow> ColorSys theme s)"

fun Render :: "(uid \<Rightarrow> 'a ident_scheme) \<Rightarrow> Theme option \<Rightarrow> Message \<Rightarrow> string option" where
  "Render who t (Msg b ts) = Some b"
| "Render who t (PublicMsg b ts f) = PublicMsg_Render who t b f"
| "Render who t (EmoteMsg b ts f) = EmoteMsg_Render who b f"
| "Render who t (PrivateMsg b ts f u) = PrivateMsg_Render who t b f"
| "Render who t (PrivateMsg_ptr b ts f u) = PrivateMsg_Render who t b f"
| "Render who t (SystemMsg b ts u) = Some (sys_Render t (SystemMsg_String b))"
| "Render who t (AnnounceMsg b ts) = Some (sys_Render t (AnnounceMsg_String b))"
| "Render who t (CommandMsg b ts f c as) = PublicMsg_Render who t b f"

fun String :: "(uid \<Rightarrow> 'a ident_scheme) \<Rightarrow> Message \<Rightarrow> string option" where
  "String who (Msg b ts) = Some b"
| "String who (PublicMsg b ts f) = PublicMsg_String who b f"
| "String who (EmoteMsg b ts f) = EmoteMsg_Render who b f"
| "String who (PrivateMsg b ts f u) = PrivateMsg_Render who None b f"
| "String who (PrivateMsg_ptr b ts f u) = PrivateMsg_Render who None b f"
| "String who (SystemMsg b ts u) = Some (SystemMsg_String b)"
| "String who (AnnounceMsg b ts) = Some (AnnounceMsg_String b)"
| "String who (CommandMsg b ts f c as) = PublicMsg_String who b f"

section \<open>Lemmas\<close>

lemma ParseCommand_slash:
  assumes "HasPrefix body ''/''"
  shows "\<exists>f fs. Fields body = (CHR ''/'' # f) # fs \<and>
    ParseCommand body t from_user = Some (Some (CommandMsg body t from_user (CHR ''/'' # f) fs))"
proof -
  obtain cs where body: "body = CHR ''/'' # cs" using assms by (cases body) (auto simp: HasPrefix_def)
  obtain f fs where "Fields body = (CHR ''/'' # f) # fs"
    using Fields_first [of "CHR ''/''" cs] by (auto simp: body str_eval)
  then show ?thesis using assms by (simp add: ParseCommand_def)
qed

text \<open>A message whose users are all there.\<close>

definition no_nil :: "Message \<Rightarrow> bool" where
  "no_nil m \<longleftrightarrow> From m \<noteq> Some None \<and> To m \<noteq> Some None"

lemma deref_Some [simp]: "deref who (Some u) = Some (who u)"
  by (simp add: deref_def)

lemma from_Some [simp]:
  "from_Name who (Some u) = Some (DisplayName (ident_of (who u)))"
  "from_ID who (Some u) = Some (ID (ident_of (who u)))"
  by (simp_all add: from_Name_def from_ID_def)

text \<open>A theme that a user can have: none, or one that is built in.\<close>

definition builtin :: "Theme option \<Rightarrow> bool" where
  "builtin t \<longleftrightarrow> (case t of None \<Rightarrow> True | Some th \<Rightarrow> th \<in> set Themes)"

lemma builtin_ColorName:
  "builtin (Some th) \<Longrightarrow> 0 \<le> colorIdx u \<Longrightarrow> ColorName th u \<noteq> None"
  using ColorName_total [of th u] by (simp add: builtin_def del: not_None_eq)

lemmas bind_total = bind_eq_None_conv builtin_ColorName

lemma PublicMsg_Render_total:
  "builtin t \<Longrightarrow> \<forall>u. 0 \<le> colorIdx (who u) \<Longrightarrow> PublicMsg_Render who t body (Some u) \<noteq> None"
  by (cases t) (simp_all add: PublicMsg_Render_def PublicMsg_String_def bind_total del: not_None_eq)

lemma RenderFor_total:
  "builtin (cfg_Theme cfg) \<Longrightarrow> \<forall>u. 0 \<le> colorIdx (who u) \<Longrightarrow> RenderFor who cfg body (Some u) \<noteq> None"
  using PublicMsg_Render_total [of "cfg_Theme cfg" who body u]
  by (cases "Highlight cfg"; cases "cfg_Theme cfg")
     (simp_all add: RenderFor_def Let_def bind_total del: not_None_eq)

lemma RenderSelf_total:
  "builtin (cfg_Theme cfg) \<Longrightarrow> \<forall>u. 0 \<le> colorIdx (who u) \<Longrightarrow> RenderSelf who cfg body (Some u) \<noteq> None"
  by (cases "cfg_Theme cfg") (simp_all add: RenderSelf_def bind_total del: not_None_eq)

lemma Render_total:
  assumes "no_nil m" and "builtin t" and "\<forall>u. 0 \<le> colorIdx (who u)"
  shows "Render who t m \<noteq> None"
  using assms(1) PublicMsg_Render_total [OF assms(2,3)]
  by (cases m) (auto simp: no_nil_def EmoteMsg_Render_def PrivateMsg_Render_def split: option.split)

section \<open>Properties\<close>

text \<open>every line of input becomes a message. A line that begins with a slash
  becomes a command whose name is its first field, which exists and begins with
  the slash, and whose arguments are the other fields; any other line is a public
  message with the line as its body. Taking the first field never panics.\<close>

theorem ParseInput_total:
  "if HasPrefix body ''/''
   then \<exists>name args. Fields body = (CHR ''/'' # name) # args \<and>
     ParseInput now body from_user = Some (CommandMsg body now from_user (CHR ''/'' # name) args)
   else ParseInput now body from_user = Some (PublicMsg body now from_user)"
proof (cases "HasPrefix body ''/''")
  case True
  with ParseCommand_slash [OF True, of now from_user] show ?thesis by (auto simp: ParseInput_def)
qed (simp add: ParseInput_def ParseCommand_def NewPublicMsg_def)

text \<open>rendering never panics for the users of the server: a message without
  \<open>nil\<close> users is rendered under no theme and under every theme that is built in,
  to others, to oneself and with highlighting.\<close>

theorem Render_safe:
  assumes "no_nil m" and "builtin (cfg_Theme cfg)" and "\<forall>u. 0 \<le> colorIdx (who u)"
  shows "Render who (cfg_Theme cfg) m \<noteq> None \<and> String who m \<noteq> None \<and>
    RenderFor who cfg body (Some u) \<noteq> None \<and> RenderSelf who cfg body (Some u) \<noteq> None"
proof -
  have "String who m \<noteq> None"
    using assms(1) by (cases m) (auto simp: no_nil_def PublicMsg_String_def EmoteMsg_Render_def PrivateMsg_Render_def)
  then show ?thesis
    using Render_total [OF assms] RenderFor_total [OF assms(2,3)] RenderSelf_total [OF assms(2,3)] by blast
qed

theorem Render_safe_witness:
  "Render (\<lambda>u. \<lparr>ident_of = SimpleID ''bob'', colorIdx = 7\<rparr>) (Some DefaultTheme) (PublicMsg ''hi'' 0 (Some 1)) \<noteq> None"
  using Render_safe [of "PublicMsg ''hi'' 0 (Some 1)" "DefaultUserConfig\<lparr>cfg_Theme := Some DefaultTheme\<rparr>"
      "\<lambda>u. \<lparr>ident_of = SimpleID ''bob'', colorIdx = 7\<rparr>"]
  by (simp add: no_nil_def builtin_def Themes_def DefaultTheme_def)

end
