(* ===== verification/Users.thy ===== *)
theory Users
  imports Messages GoSet
begin

text \<open>
  Users: their state, the delivery of messages to them, what they see of a
  message, and their order by activity (\<open>chat/message/user.go\<close>).

  A channel is the list of the values in its buffer. A \<open>select\<close> of which more than
  one case is ready takes one at random, which the model reads from a boolean
  argument \<open>pick\<close>. A \<open>Send\<close> that waits on a full buffer either sees it drained in
  time, which is a \<open>Send\<close> after the draining step, or times out; so \<open>Send\<close> on a
  full buffer is the timeout. The screen's \<open>Write\<close> is a parameter as for the
  terminal, its \<open>Close\<close> is counted. The mutex makes each accessor one step.
\<close>

text \<open>What the sets of the chat hold: a \<open>*Member\<close>, or \<open>set.ZeroValue\<close>.\<close>

type_synonym mid = nat

datatype set_value = ZeroValue | MemberPtr mid

type_synonym 'd screen_writer = "'d \<Rightarrow> string \<Rightarrow> nat \<times> go_error option \<times> 'd"

definition messageBuffer :: nat where
  "messageBuffer = 5"

record user = ident +
  OnChange :: bool
  Ignored :: "set_value goset"
  Focused :: "set_value goset"
  joined :: time
  msg :: "Message list"
  done_closed :: bool
  has_screen :: bool
  screen_closed :: nat
  config :: UserConfig
  replyTo :: "uid option"
  lastMsg :: time
  awayReason :: string
  awaySince :: time

section \<open>Operations\<close>

definition NewUser :: "(rune \<Rightarrow> rune) \<Rightarrow> time \<Rightarrow> int \<Rightarrow> Identifier \<Rightarrow> user" where
  "NewUser low now rnd i =
    \<lparr>ident_of = i, colorIdx = rnd, OnChange = False, Ignored = New low, Focused = New low,
     joined = now, msg = [], done_closed = False, has_screen = False, screen_closed = 0,
     config = DefaultUserConfig, replyTo = None, lastMsg = 0, awayReason = [], awaySince = 0\<rparr>"

definition NewUserScreen :: "(rune \<Rightarrow> rune) \<Rightarrow> time \<Rightarrow> int \<Rightarrow> Identifier \<Rightarrow> user" where
  "NewUserScreen low now rnd i = (NewUser low now rnd i)\<lparr>has_screen := True\<rparr>"

definition SetAway :: "time \<Rightarrow> string \<Rightarrow> user \<Rightarrow> user" where
  "SetAway now m u = u\<lparr>awayReason := m, awaySince := (if m = [] then 0 else now)\<rparr>"

definition GetAway :: "user \<Rightarrow> bool \<times> time \<times> string" where
  "GetAway u = (awayReason u \<noteq> [], awaySince u, awayReason u)"

text \<open>\<open>SetConfig\<close> and \<open>SetID\<close> also say whether they called \<open>OnChange\<close>.\<close>

definition SetConfig :: "UserConfig \<Rightarrow> user \<Rightarrow> user \<times> bool" where
  "SetConfig cfg u = (u\<lparr>config := cfg\<rparr>, OnChange u)"

definition setColorIdx :: "int \<Rightarrow> user \<Rightarrow> user" where
  "setColorIdx idx u = u\<lparr>colorIdx := idx\<rparr>"

definition User_SetID :: "int \<Rightarrow> string \<Rightarrow> user \<Rightarrow> user \<times> bool" where
  "User_SetID rnd s u = (setColorIdx rnd (u\<lparr>ident_of := SetID s (ident_of u)\<rparr>), OnChange u)"

definition SetReplyTo :: "uid option \<Rightarrow> user \<Rightarrow> user" where
  "SetReplyTo p u = u\<lparr>replyTo := p\<rparr>"

text \<open>The body of \<open>closeOnce\<close> runs at most once; afterwards \<open>done\<close> is closed.\<close>

definition Close :: "user \<Rightarrow> user" where
  "Close u =
    (if done_closed u then u
     else u\<lparr>screen_closed := (if has_screen u then screen_closed u + 1 else screen_closed u),
            done_closed := True\<rparr>)"

definition Send :: "bool \<Rightarrow> Message \<Rightarrow> user \<Rightarrow> go_error option \<times> user" where
  "Send pick m u =
    (let ready = length (msg u) < messageBuffer in
     if done_closed u \<and> (pick \<or> \<not> ready) then (Some ErrUserClosed, u)
     else if ready then (None, u\<lparr>msg := msg u @ [m]\<rparr>)
     else (Some ErrUserClosed, Close u))"

definition HasMessages :: "user \<Rightarrow> bool \<times> user" where
  "HasMessages u = (case msg u of [] \<Rightarrow> (False, u) | m # ms \<Rightarrow> (True, u\<lparr>msg := ms @ [m]\<rparr>))"

definition ConsumeOne :: "user \<Rightarrow> (Message \<times> user) option" where
  "ConsumeOne u = (case msg u of [] \<Rightarrow> None | m # ms \<Rightarrow> Some (m, u\<lparr>msg := ms\<rparr>))"

definition SetHighlight :: "(string \<Rightarrow> go_error + regexp) \<Rightarrow> string \<Rightarrow> user \<Rightarrow> go_error option \<times> user" where
  "SetHighlight compile s u =
    (case compile (CHR 0x5C # ''b('' @ s @ '')'' @ CHR 0x5C # ''b'') of
       Inl err \<Rightarrow> (Some err, u)
     | Inr re \<Rightarrow> (None, u\<lparr>config := (config u)\<lparr>Highlight := Some re\<rparr>\<rparr>))"

section \<open>What a user sees\<close>

text \<open>\<open>tf layout offset t\<close> is the time \<open>t\<close> in the zone of that offset, formatted.
  The first switch of \<open>render\<close> gives the text of the message, or \<open>None\<close> where the
  code returns the empty string; \<open>me\<close> is the address of the user.\<close>

definition shown :: "time \<Rightarrow> (uid \<Rightarrow> 'a ident_scheme) \<Rightarrow> uid \<Rightarrow> Message \<Rightarrow> user
    \<Rightarrow> (string option \<times> user) option" where
  "shown now who me m u =
    (let cfg = config u in
     case m of
       PublicMsg b ts f \<Rightarrow>
         if f = Some me then
           let u = u\<lparr>lastMsg := ts\<rparr> in
           if \<not> Echo cfg then Some (None, u)
           else do { s \<leftarrow> RenderSelf who cfg b f; Some (Some s, u) }
         else if 0 < Len (Focused u) then do {
           i \<leftarrow> from_ID who f;
           (case In now i (Focused u) of
              (found, foc) \<Rightarrow>
                let u = u\<lparr>Focused := foc\<rparr> in
                if \<not> found then Some (None, u)
                else do { s \<leftarrow> RenderFor who cfg b f; Some (Some s, u) })
         }
         else do { s \<leftarrow> RenderFor who cfg b f; Some (Some s, u) }
     | PrivateMsg_ptr b ts f t \<Rightarrow> do {
         s \<leftarrow> Render who (cfg_Theme cfg) m;
         Some (Some (s @ (if Bell cfg then Bel else [])), u)
       }
     | CommandMsg b ts f c args \<Rightarrow> do { s \<leftarrow> RenderSelf who cfg b f; Some (Some s, u) }
     | _ \<Rightarrow> do { s \<leftarrow> Render who (cfg_Theme cfg) m; Some (Some s, u) })"

definition render :: "(string \<Rightarrow> int \<Rightarrow> time \<Rightarrow> string) \<Rightarrow> time \<Rightarrow> (uid \<Rightarrow> 'a ident_scheme) \<Rightarrow> uid \<Rightarrow> Message \<Rightarrow> user
    \<Rightarrow> (string \<times> user) option" where
  "render tf now who me m u = do {
     r \<leftarrow> shown now who me m u;
     (case r of
        (None, u) \<Rightarrow> Some ([], u)
      | (Some s, u) \<Rightarrow>
          (case Timeformat (config u) of
             None \<Rightarrow> Some (s @ Newline, u)
           | Some layout \<Rightarrow>
               (case cfg_Theme (config u) of
                  None \<Rightarrow> None
                | Some theme \<Rightarrow>
                    let off = (case Timezone (config u) of Some z \<Rightarrow> z | None \<Rightarrow> 0) in
                    Some (Theme_Timestamp theme (tf layout off (Timestamp m)) @ ''  '' @ s @ Newline, u))))
   }"

definition writeMsg :: "(string \<Rightarrow> int \<Rightarrow> time \<Rightarrow> string) \<Rightarrow> 'd screen_writer \<Rightarrow> time \<Rightarrow> (uid \<Rightarrow> 'a ident_scheme)
    \<Rightarrow> uid \<Rightarrow> Message \<Rightarrow> user \<Rightarrow> 'd \<Rightarrow> (go_error option \<times> user \<times> 'd) option" where
  "writeMsg tf wr now who me m u d = do {
     (r, u) \<leftarrow> render tf now who me m u;
     if \<not> has_screen u then None
     else (case wr d r of
       (_, Some err, d) \<Rightarrow> Some (Some err, Close u, d)
     | (_, None, d) \<Rightarrow> Some (None, u, d))
   }"

definition User_HandleMsg :: "(string \<Rightarrow> int \<Rightarrow> time \<Rightarrow> string) \<Rightarrow> 'd screen_writer \<Rightarrow> time \<Rightarrow> (uid \<Rightarrow> 'a ident_scheme)
    \<Rightarrow> uid \<Rightarrow> Message \<Rightarrow> user \<Rightarrow> 'd \<Rightarrow> (go_error option \<times> user \<times> 'd) option" where
  "User_HandleMsg tf wr now who me m u d = writeMsg tf wr now who me m u d"

text \<open>One turn of \<open>Consume\<close>: it returns when \<open>done\<close> is closed, waits on an empty
  buffer, or handles the first message.\<close>

datatype 'd consume = Stopped | Idle | Handled user 'd

definition Consume_turn :: "bool \<Rightarrow> (string \<Rightarrow> int \<Rightarrow> time \<Rightarrow> string) \<Rightarrow> 'd screen_writer \<Rightarrow> time
    \<Rightarrow> (uid \<Rightarrow> 'a ident_scheme) \<Rightarrow> uid \<Rightarrow> user \<Rightarrow> 'd \<Rightarrow> 'd consume option" where
  "Consume_turn pick tf wr now who me u d =
    (if done_closed u \<and> (pick \<or> msg u = []) then Some Stopped
     else case msg u of
       [] \<Rightarrow> Some Idle
     | m # ms \<Rightarrow> do {
         (_, u, d) \<leftarrow> User_HandleMsg tf wr now who me m (u\<lparr>msg := ms\<rparr>) d;
         Some (Handled u d)
       })"

section \<open>Order by activity\<close>

definition last_active :: "user \<Rightarrow> time" where
  "last_active u = (if lastMsg u = 0 then joined u else lastMsg u)"

definition RecentActive_Less :: "user \<Rightarrow> user \<Rightarrow> bool" where
  "RecentActive_Less a b \<longleftrightarrow> last_active a > last_active b"

section \<open>Lemmas\<close>

lemma Close_idem [simp]: "Close (Close u) = Close u"
  by (simp add: Close_def)

lemma Close_keeps [simp]:
  "msg (Close u) = msg u" "done_closed (Close u)" "Ignored (Close u) = Ignored u" "ident_of (Close u) = ident_of u"
  "config (Close u) = config u" "Focused (Close u) = Focused u" "colorIdx (Close u) = colorIdx u"
  by (simp_all add: Close_def)

lemma Send_cases:
  "Send pick m u =
    (if done_closed u \<and> (pick \<or> \<not> length (msg u) < messageBuffer) then (Some ErrUserClosed, u)
     else if length (msg u) < messageBuffer then (None, u\<lparr>msg := msg u @ [m]\<rparr>)
     else (Some ErrUserClosed, Close u))"
  by (simp add: Send_def Let_def)

lemma Send_keeps [simp]:
  "ident_of (snd (Send pick m u)) = ident_of u" "Ignored (snd (Send pick m u)) = Ignored u"
  "config (snd (Send pick m u)) = config u" "colorIdx (snd (Send pick m u)) = colorIdx u"
  by (simp_all add: Send_cases)

lemma last_active_order:
  "RecentActive_Less a b \<longleftrightarrow> last_active b < last_active a"
  by (simp add: RecentActive_Less_def)

text \<open>Who is allowed through by the focus of a user.\<close>

definition in_focus :: "time \<Rightarrow> string \<Rightarrow> user \<Rightarrow> bool" where
  "in_focus now i u \<longleftrightarrow> Len (Focused u) = 0 \<or> live now (Focused u) (normalizer (Focused u) i) \<noteq> None"

lemma config_update [simp]: "config (u\<lparr>Focused := f\<rparr>) = config u" "config (u\<lparr>lastMsg := t\<rparr>) = config u"
  by simp_all

text \<open>A public message from somebody else.\<close>

lemma shown_public:
  assumes "s \<noteq> me" and "builtin (cfg_Theme (config u))" and "\<forall>v. 0 \<le> colorIdx (who v)"
  shows "\<exists>u'. shown now who me (PublicMsg b ts (Some s)) u =
      Some (if in_focus now (ID (ident_of (who s))) u then RenderFor who (config u) b (Some s) else None, u')
    \<and> config u' = config u"
proof -
  obtain r where r: "RenderFor who (config u) b (Some s) = Some r"
    using RenderFor_total [OF assms(2,3), of b s] by auto
  obtain found foc where i: "In now (ID (ident_of (who s))) (Focused u) = (found, foc)" by fastforce
  have "found \<longleftrightarrow> live now (Focused u) (normalizer (Focused u) (ID (ident_of (who s)))) \<noteq> None"
    using In_live [of now "ID (ident_of (who s))" "Focused u"] i by simp
  then show ?thesis
    using assms(1) r i by (auto simp: shown_def Let_def in_focus_def)
qed

section \<open>Properties\<close>

text \<open>\<open>Send\<close> never loses a message silently and never reorders them. A message
  is appended to the buffer, which holds five at most, or the sender is told
  that the user is closed, and the user then is closed and its buffer as it was.
  An open user with room in the buffer always gets the message.\<close>

theorem Send_delivers:
  assumes "length (msg u) \<le> 5"
  shows "case Send pick m u of
      (None, u') \<Rightarrow> u' = u\<lparr>msg := msg u @ [m]\<rparr> \<and> length (msg u') \<le> 5
    | (Some e, u') \<Rightarrow> e = ErrUserClosed \<and> done_closed u' \<and> msg u' = msg u \<and>
        \<not> (\<not> done_closed u \<and> length (msg u) < 5)"
  using assms by (auto simp: Send_cases messageBuffer_def)

theorem Send_delivers_witness:
  "case Send False (AnnounceMsg ''x'' 0) (NewUser id 1 0 (SimpleID ''bob'')) of
      (None, u') \<Rightarrow> msg u' = [AnnounceMsg ''x'' 0]
    | (Some e, u') \<Rightarrow> False"
  using Send_delivers [where u = "NewUser id 1 0 (SimpleID ''bob'')" and pick = False and m = "AnnounceMsg ''x'' 0"]
  by (simp add: NewUser_def split: prod.splits option.splits)

text \<open>focus decides what a user sees of the others: a public message from
  another user is written, rendered with the user's own settings and ended by a
  new line, exactly when the user has no focus or the sender is in it;
  otherwise nothing is written.\<close>

theorem render_focus:
  assumes "s \<noteq> me" and "builtin (cfg_Theme (config u))" and "\<forall>v. 0 \<le> colorIdx (who v)"
    and "Timeformat (config u) = None"
  shows "\<exists>r u'. render tf now who me (PublicMsg b ts (Some s)) u = Some (r, u') \<and>
    RenderFor who (config u) b (Some s) \<noteq> None \<and>
    r = (if in_focus now (ID (ident_of (who s))) u then the (RenderFor who (config u) b (Some s)) @ Newline else [])"
proof -
  obtain r where r: "RenderFor who (config u) b (Some s) = Some r"
    using RenderFor_total [OF assms(2,3), of b s] by auto
  obtain u' where "shown now who me (PublicMsg b ts (Some s)) u =
      Some (if in_focus now (ID (ident_of (who s))) u then RenderFor who (config u) b (Some s) else None, u')"
    "config u' = config u"
    using shown_public [OF assms(1-3), of now b ts] by blast
  with r assms(4) show ?thesis by (simp add: render_def)
qed

theorem render_focus_witness:
  "\<exists>r u'. render (\<lambda>l z t. []) 0 (\<lambda>v. NewUser id 1 0 (SimpleID ''bob'')) 1 (PublicMsg ''hi'' 0 (Some 2))
      (NewUser id 1 0 (SimpleID ''al'')) = Some (r, u') \<and> r = ''bob: hi'' @ Newline"
proof -
  let ?who = "\<lambda>v :: nat. NewUser id 1 0 (SimpleID ''bob'')" and ?u = "NewUser id 1 0 (SimpleID ''al'')"
  have "in_focus 0 (ID (ident_of (?who 2))) ?u"
    by (simp add: in_focus_def NewUser_def New_def Len_def)
  moreover have "RenderFor ?who (config ?u) ''hi'' (Some 2) = Some ''bob: hi''"
    by (simp add: RenderFor_def NewUser_def DefaultUserConfig_def PublicMsg_Render_def PublicMsg_String_def)
  moreover have "\<exists>r u'. render (\<lambda>l z t. []) 0 ?who 1 (PublicMsg ''hi'' 0 (Some 2)) ?u = Some (r, u') \<and>
    RenderFor ?who (config ?u) ''hi'' (Some 2) \<noteq> None \<and>
    r = (if in_focus 0 (ID (ident_of (?who 2))) ?u then the (RenderFor ?who (config ?u) ''hi'' (Some 2)) @ Newline else [])"
    by (rule render_focus) (simp_all add: NewUser_def DefaultUserConfig_def builtin_def)
  ultimately show ?thesis by simp
qed

text \<open>a user who has a time format but no theme cannot be written to: rendering
  any message that is not withheld from the user panics, since the time is
  coloured by a theme that is \<open>nil\<close>.\<close>

theorem render_needs_theme:
  assumes "Timeformat (config u) = Some layout" and "cfg_Theme (config u) = None"
  shows "render tf now who me (SystemMsg b ts t) u = None \<and> render tf now who me (AnnounceMsg b ts) u = None"
  using assms by (simp add: render_def shown_def)

theorem render_needs_theme_witness:
  "render (\<lambda>l z t. l) 0 (\<lambda>v. NewUser id 1 0 (SimpleID ''bob'')) 1 (SystemMsg ''hi'' 0 (Some 1))
      ((NewUser id 1 0 (SimpleID ''bob''))\<lparr>config := DefaultUserConfig\<lparr>Timeformat := Some ''15:04''\<rparr>\<rparr>) = None"
  using render_needs_theme [of "(NewUser id 1 0 (SimpleID ''bob''))\<lparr>config := DefaultUserConfig\<lparr>Timeformat := Some ''15:04''\<rparr>\<rparr>"
      "''15:04''" "\<lambda>l z t. l" 0 "\<lambda>v. NewUser id 1 0 (SimpleID ''bob'')" 1 "''hi''" 0 "Some 1"]
  by (simp add: DefaultUserConfig_def)

end
