(* ===== verification/Room.thy ===== *)
theory Room
  imports Users
begin

text \<open>
  The room (\<open>chat/room.go\<close>): its members, who gets which message, joining,
  leaving and renaming.

  \<open>*User\<close> and \<open>*Member\<close> are addresses into two heaps, since the same user is
  reached from the room, from messages and from the sets of other users. The
  broadcast channel is the list of messages in it; a \<open>Send\<close> on a full channel
  waits until \<open>Serve\<close> has taken one, so it is the completed \<open>Send\<close>; a \<open>Send\<close> on the
  closed channel panics (\<open>None\<close>). \<open>Serve\<close> starts a goroutine per message:
  \<open>spawned\<close> holds the messages that goroutines have yet to handle.
\<close>

section \<open>State\<close>

record member =
  m_user :: uid
  is_op :: bool
  isMuted :: bool

record room =
  topic :: string
  r_history :: "Message history"
  broadcast :: "Message list"
  closed :: bool
  Members :: "set_value goset"

record world =
  users :: "uid \<Rightarrow> user"
  members :: "mid \<Rightarrow> member"
  next_mid :: mid
  the_room :: room
  spawned :: "Message list"

definition historyLen :: nat where
  "historyLen = 20"

definition NewRoom :: "(rune \<Rightarrow> rune) \<Rightarrow> room" where
  "NewRoom low = \<lparr>topic = [], r_history = NewHistory historyLen, broadcast = [], closed = False,
     Members = New low\<rparr>"

text \<open>Updates of one object of a heap.\<close>

definition upd_user :: "uid \<Rightarrow> (user \<Rightarrow> user) \<Rightarrow> 'w world_scheme \<Rightarrow> 'w world_scheme" where
  "upd_user p f w = w\<lparr>users := (users w)(p := f (users w p))\<rparr>"

definition upd_member :: "mid \<Rightarrow> (member \<Rightarrow> member) \<Rightarrow> 'w world_scheme \<Rightarrow> 'w world_scheme" where
  "upd_member k f w = w\<lparr>members := (members w)(k := f (members w k))\<rparr>"

definition upd_room :: "(room \<Rightarrow> room) \<Rightarrow> 'w world_scheme \<Rightarrow> 'w world_scheme" where
  "upd_room f w = w\<lparr>the_room := f (the_room w)\<rparr>"

definition set_Members :: "set_value goset \<Rightarrow> 'w world_scheme \<Rightarrow> 'w world_scheme" where
  "set_Members s w = upd_room (\<lambda>r. r\<lparr>Members := s\<rparr>) w"

definition uID :: "'w world_scheme \<Rightarrow> uid \<Rightarrow> string" where
  "uID w p = ID (ident_of (users w p))"

definition uName :: "'w world_scheme \<Rightarrow> uid \<Rightarrow> string" where
  "uName w p = DisplayName (ident_of (users w p))"

text \<open>The type assertion \<open>item.Value().(*Member)\<close>, which panics on anything else.\<close>

fun as_member :: "set_value iface option \<Rightarrow> mid option" where
  "as_member (Some (IVal (MemberPtr k))) = Some k"
| "as_member _ = None"

section \<open>Sending\<close>

definition IsMuted :: "'w world_scheme \<Rightarrow> mid \<Rightarrow> bool" where
  "IsMuted w k = isMuted (members w k)"

definition SetMute :: "mid \<Rightarrow> bool \<Rightarrow> 'w world_scheme \<Rightarrow> 'w world_scheme" where
  "SetMute k muted w = upd_member k (\<lambda>m. m\<lparr>isMuted := muted\<rparr>) w"

definition Room_Send :: "Message \<Rightarrow> 'w world_scheme \<Rightarrow> 'w world_scheme option" where
  "Room_Send m w =
    (if closed (the_room w) then None else Some (upd_room (\<lambda>r. r\<lparr>broadcast := broadcast r @ [m]\<rparr>) w))"

definition send_user :: "(uid \<Rightarrow> bool) \<Rightarrow> uid \<Rightarrow> Message \<Rightarrow> 'w world_scheme \<Rightarrow> 'w world_scheme" where
  "send_user pick p m w = upd_user p (\<lambda>u. snd (Send (pick p) m u)) w"

definition ignores :: "time \<Rightarrow> uid \<Rightarrow> string \<Rightarrow> 'w world_scheme \<Rightarrow> bool \<times> 'w world_scheme" where
  "ignores now p i w =
    (case In now i (Ignored (users w p)) of
       (found, s) \<Rightarrow> (found, upd_user p (\<lambda>u. u\<lparr>Ignored := s\<rparr>) w))"

text \<open>One turn of the loop over the members; a panic of the type assertion is kept
  as \<open>None\<close>.\<close>

definition offer :: "time \<Rightarrow> (uid \<Rightarrow> bool) \<Rightarrow> string \<Rightarrow> Message \<Rightarrow> uid \<Rightarrow> 'w world_scheme \<Rightarrow> 'w world_scheme" where
  "offer now pick fromID m p w =
    (case ignores now p fromID w of
       (True, w) \<Rightarrow> w
     | (False, w) \<Rightarrow>
         if (case m of AnnounceMsg b t \<Rightarrow> True | _ \<Rightarrow> False) \<and> Quiet (config (users w p)) then w
         else send_user pick p m w)"

definition broadcast_fn :: "time \<Rightarrow> (uid \<Rightarrow> bool) \<Rightarrow> string \<Rightarrow> Message \<Rightarrow> string \<Rightarrow> set_value item \<Rightarrow> 'w world_scheme option
    \<Rightarrow> 'w world_scheme option" where
  "broadcast_fn now pick fromID m key it st = do {
     w \<leftarrow> st;
     k \<leftarrow> as_member (Value now it);
     Some (offer now pick fromID m (m_user (members w k)) w)
   }"

section \<open>Handling a message\<close>

text \<open>\<open>run\<close> is \<open>Commands.Run\<close>, \<open>line\<close> the log line of the history, \<open>err_text\<close> the text
  of an error, \<open>ord\<close> the order of the members.\<close>

definition deliver :: "(Message \<Rightarrow> 'w world_scheme \<Rightarrow> (go_error option \<times> 'w world_scheme) option) \<Rightarrow> (go_error \<Rightarrow> string)
    \<Rightarrow> (Message \<Rightarrow> string) \<Rightarrow> sched \<Rightarrow> (uid \<Rightarrow> bool) \<Rightarrow> time \<Rightarrow> string \<Rightarrow> Message \<Rightarrow> 'w world_scheme \<Rightarrow> 'w world_scheme option" where
  "deliver run err_text line ord pick now fromID m w =
    (case m of
       CommandMsg b t f c args \<Rightarrow> do {
         (err, w) \<leftarrow> run m w;
         (case err of
            None \<Rightarrow> Some w
          | Some e \<Rightarrow> Some (w\<lparr>spawned := spawned w @ [NewSystemMsg now (''Err: '' @ err_text e) f]\<rparr>))
       }
     | _ \<Rightarrow>
       (case To m of
          Some to \<Rightarrow> do {
            p \<leftarrow> to;
            (case ignores now p fromID w of
               (True, w) \<Rightarrow> Some w
             | (False, w) \<Rightarrow> Some (send_user pick p m w))
          }
        | None \<Rightarrow>
            (case History_Add line m (r_history (the_room w)) of
               Inl _ \<Rightarrow> None
             | Inr h \<Rightarrow>
                 let w = upd_room (\<lambda>r. r\<lparr>r_history := h\<rparr>) w in
                 (case Each ord now (\<lambda>key it st. (None, broadcast_fn now pick fromID m key it st))
                         (Members (the_room w)) (Some w) of
                    (_, st, s) \<Rightarrow> map_option (set_Members s) st))))"

definition HandleMsg :: "(Message \<Rightarrow> 'w world_scheme \<Rightarrow> (go_error option \<times> 'w world_scheme) option) \<Rightarrow> (go_error \<Rightarrow> string)
    \<Rightarrow> (Message \<Rightarrow> string) \<Rightarrow> sched \<Rightarrow> (uid \<Rightarrow> bool) \<Rightarrow> time \<Rightarrow> Message \<Rightarrow> 'w world_scheme \<Rightarrow> 'w world_scheme option" where
  "HandleMsg run err_text line ord pick now m w = do {
     fromID \<leftarrow> (case From m of None \<Rightarrow> Some [] | Some f \<Rightarrow> from_ID (users w) f);
     if fromID \<noteq> [] then
       (case Get now fromID (Members (the_room w)) of
          (Inl err, s) \<Rightarrow> Some (set_Members s w)
        | (Inr item, s) \<Rightarrow>
            let w = set_Members s w in
            (case as_member (Value now item) of
               Some k \<Rightarrow>
                 if IsMuted w k then
                   (case m of
                      CommandMsg b t f c args \<Rightarrow> Some w
                    | _ \<Rightarrow> Some (send_user pick (m_user (members w k)) m w))
                 else deliver run err_text line ord pick now fromID m w
             | None \<Rightarrow> deliver run err_text line ord pick now fromID m w))
     else deliver run err_text line ord pick now fromID m w
   }"

text \<open>One turn of \<open>Serve\<close>: it takes a message from the channel and starts a goroutine
  for it.\<close>

definition Serve_turn :: "'w world_scheme \<Rightarrow> 'w world_scheme option" where
  "Serve_turn w =
    (case broadcast (the_room w) of
       [] \<Rightarrow> None
     | m # ms \<Rightarrow> Some ((upd_room (\<lambda>r. r\<lparr>broadcast := ms\<rparr>) w)\<lparr>spawned := spawned w @ [m]\<rparr>))"

section \<open>Members\<close>

text \<open>\<open>Close\<close> runs its body once.\<close>

definition Room_Close :: "sched \<Rightarrow> time \<Rightarrow> 'w world_scheme \<Rightarrow> 'w world_scheme option" where
  "Room_Close ord now w =
    (if closed (the_room w) then Some w
     else
       let w = upd_room (\<lambda>r. r\<lparr>closed := True\<rparr>) w in
       (case Each ord now (\<lambda>key it st. (None, do { w \<leftarrow> st; k \<leftarrow> as_member (Value now it);
                Some (upd_user (m_user (members w k)) Close w) }))
              (Members (the_room w)) (Some w) of
          (_, st, s) \<Rightarrow> map_option (set_Members (snd (Clear s))) st))"

definition SetLogging :: "string list \<Rightarrow> 'w world_scheme \<Rightarrow> 'w world_scheme" where
  "SetLogging f w = upd_room (\<lambda>r. r\<lparr>r_history := History_SetOutput f (r_history r)\<rparr>) w"

definition Room_History :: "(uid \<Rightarrow> bool) \<Rightarrow> uid \<Rightarrow> 'w world_scheme \<Rightarrow> 'w world_scheme option" where
  "Room_History pick p w =
    (case History_Get (r_history (the_room w)) (int historyLen) of
       Inl _ \<Rightarrow> None
     | Inr ms \<Rightarrow> fold (\<lambda>e st. do { w \<leftarrow> st; m \<leftarrow> e; Some (send_user pick p m w) }) ms (Some w))"

definition Join :: "(uid \<Rightarrow> bool) \<Rightarrow> time \<Rightarrow> uid \<Rightarrow> 'w world_scheme \<Rightarrow> ((go_error + mid) \<times> 'w world_scheme) option" where
  "Join pick now p w =
    (if uID w p = [] then Some (Inl ErrInvalidName, w)
     else
       let k = next_mid w;
           w = w\<lparr>members := (members w)(k := \<lparr>m_user = p, is_op = False, isMuted = False\<rparr>),
                 next_mid := k + 1\<rparr> in
       (case Add now (Itemize (uID w p) (Some (MemberPtr k))) (Members (the_room w)) of
          (Some err, s) \<Rightarrow> Some (Inl err, set_Members s w)
        | (None, s) \<Rightarrow> do {
            w \<leftarrow> Room_History pick p (set_Members s w);
            let txt = uName w p @ '' joined. (Connected: '' @ Itoa (Len (Members (the_room w))) @ '')'';
            w \<leftarrow> Room_Send (NewAnnounceMsg now txt) w;
            Some (Inr k, w)
          }))"

text \<open>\<open>human\<close> is the text of the time since a moment.\<close>

definition Leave :: "(time \<Rightarrow> string) \<Rightarrow> time \<Rightarrow> uid \<Rightarrow> 'w world_scheme \<Rightarrow> (go_error option \<times> 'w world_scheme) option" where
  "Leave human now p w =
    (case Remove (uID w p) (Members (the_room w)) of
       (Some err, s) \<Rightarrow> Some (Some err, set_Members s w)
     | (None, s) \<Rightarrow> do {
         let txt = uName w p @ '' left. (After '' @ human (joined (users w p)) @ '')'';
         w \<leftarrow> Room_Send (NewAnnounceMsg now txt) (set_Members s w);
         Some (None, w)
       })"

text \<open>Every caller passes a \<open>*Member\<close> as the identifier.\<close>

definition Rename :: "time \<Rightarrow> string \<Rightarrow> mid \<Rightarrow> 'w world_scheme \<Rightarrow> (go_error option \<times> 'w world_scheme) option" where
  "Rename now oldID k w =
    (let newID = uID w (m_user (members w k)) in
     if newID = [] then Some (Some ErrInvalidName, w)
     else case Replace oldID (Itemize newID (Some (MemberPtr k))) (Members (the_room w)) of
       (Some err, s) \<Rightarrow> Some (Some err, set_Members s w)
     | (None, s) \<Rightarrow> do {
         w \<leftarrow> Room_Send (NewAnnounceMsg now (oldID @ '' is now known as '' @ newID @ ''.'')) (set_Members s w);
         Some (None, w)
       })"

text \<open>\<open>Some None\<close> is \<open>(nil, false)\<close>; the type assertion can panic.\<close>

definition MemberByID :: "time \<Rightarrow> string \<Rightarrow> 'w world_scheme \<Rightarrow> (mid option \<times> 'w world_scheme) option" where
  "MemberByID now i w =
    (case Get now i (Members (the_room w)) of
       (Inl err, s) \<Rightarrow> Some (None, set_Members s w)
     | (Inr item, s) \<Rightarrow> do { k \<leftarrow> as_member (Value now item); Some (Some k, set_Members s w) })"

definition Room_Member :: "time \<Rightarrow> uid \<Rightarrow> 'w world_scheme \<Rightarrow> (mid option \<times> 'w world_scheme) option" where
  "Room_Member now p w = do {
     (r, w) \<leftarrow> MemberByID now (uID w p) w;
     Some (case r of None \<Rightarrow> (None, w) | Some k \<Rightarrow> if m_user (members w k) \<noteq> p then (None, w) else (Some k, w))
   }"

definition Room_IsOp :: "time \<Rightarrow> uid \<Rightarrow> 'w world_scheme \<Rightarrow> (bool \<times> 'w world_scheme) option" where
  "Room_IsOp now p w = do {
     (r, w) \<leftarrow> Room_Member now p w;
     Some (case r of None \<Rightarrow> (False, w) | Some k \<Rightarrow> (is_op (members w k), w))
   }"

definition SetTopic :: "string \<Rightarrow> 'w world_scheme \<Rightarrow> 'w world_scheme" where
  "SetTopic s w = upd_room (\<lambda>r. r\<lparr>topic := s\<rparr>) w"

text \<open>\<open>srt\<close> is \<open>sort.Sort\<close> on users.\<close>

definition NamesPrefix :: "((user \<Rightarrow> user \<Rightarrow> bool) \<Rightarrow> user list \<Rightarrow> user list) \<Rightarrow> sched \<Rightarrow> time \<Rightarrow> string \<Rightarrow> 'w world_scheme
    \<Rightarrow> (string list \<times> 'w world_scheme) option" where
  "NamesPrefix srt ord now pre w =
    (case ListPrefix ord now pre (Members (the_room w)) of
       (items, s) \<Rightarrow> do {
         us \<leftarrow> those (map (\<lambda>it. map_option (\<lambda>k. users w (m_user (members w k))) (as_member (Value now it))) items);
         Some (map (\<lambda>u. ID (ident_of u)) (srt RecentActive_Less us), set_Members s w)
       })"

section \<open>The invariant\<close>

text \<open>The entry that a member has in the set: its own address under its user's name.\<close>

definition entry_of :: "'w world_scheme \<Rightarrow> mid \<Rightarrow> set_value item" where
  "entry_of w k = Itemize (uID w (m_user (members w k))) (Some (MemberPtr k))"

definition room_inv :: "(rune \<Rightarrow> rune) \<Rightarrow> 'w world_scheme \<Rightarrow> bool" where
  "room_inv low w \<longleftrightarrow>
    set_inv (Members (the_room w)) \<and> normalizer (Members (the_room w)) = normalize low \<and>
    history_inv (r_history (the_room w)) \<and>
    length (history.entries (r_history (the_room w))) = historyLen \<and>
    (\<forall>key it. map_of (lookup (Members (the_room w))) key = Some it \<longrightarrow>
      (\<exists>k<next_mid w. it = entry_of w k))"

text \<open>\<open>member_at w i\<close> is the member with the name \<open>i\<close>, up to case.\<close>

definition member_at :: "'w world_scheme \<Rightarrow> string \<Rightarrow> mid option" where
  "member_at w i =
    Option.bind (map_of (lookup (Members (the_room w))) (normalizer (Members (the_room w)) i))
      (\<lambda>it. as_member (Value 0 it))"

definition room_users :: "'w world_scheme \<Rightarrow> uid set" where
  "room_users w = {m_user (members w k) | k key. map_of (lookup (Members (the_room w))) key = Some (entry_of w k)}"

lemma entry_Value [simp]: "as_member (Value now (entry_of w k)) = Some k"
  by (simp add: entry_of_def)

lemma entry_Value_some [simp]: "Value now (entry_of w k) = Some (IVal (MemberPtr k))"
  by (simp add: entry_of_def)

lemma Key_entry [simp]: "Key (entry_of w k) = uID w (m_user (members w k))"
  by (simp add: entry_of_def)

lemma room_inv_entry:
  "room_inv low w \<Longrightarrow> map_of (lookup (Members (the_room w))) key = Some it \<Longrightarrow> \<exists>k<next_mid w. it = entry_of w k"
  by (simp add: room_inv_def)

lemma member_at_Some:
  assumes "room_inv low w"
  shows "member_at w i = Some k \<longleftrightarrow> map_of (lookup (Members (the_room w))) (normalize low i) = Some (entry_of w k)"
proof -
  have n: "normalizer (Members (the_room w)) = normalize low" using assms by (simp add: room_inv_def)
  show ?thesis
    using room_inv_entry [OF assms, of "normalize low i"]
    by (auto simp: member_at_def n bind_eq_Some_conv)
qed

lemma member_at_None:
  assumes "room_inv low w"
  shows "member_at w i = None \<longleftrightarrow> map_of (lookup (Members (the_room w))) (normalize low i) = None"
proof -
  have n: "normalizer (Members (the_room w)) = normalize low" using assms by (simp add: room_inv_def)
  show ?thesis
    using room_inv_entry [OF assms, of "normalize low i"]
    by (cases "map_of (lookup (Members (the_room w))) (normalize low i)") (auto simp: member_at_def n)
qed

text \<open>A lookup in the room's set changes nothing: its entries do not expire.\<close>

lemma Get_member:
  assumes "room_inv low w"
  shows "Get now i (Members (the_room w)) =
    (case member_at w i of None \<Rightarrow> Inl ErrMissing | Some k \<Rightarrow> Inr (entry_of w k), Members (the_room w))"
proof -
  have n: "normalizer (Members (the_room w)) = normalize low" using assms by (simp add: room_inv_def)
  show ?thesis
  proof (cases "member_at w i")
    case None
    then show ?thesis using member_at_None [OF assms, of i] by (simp add: Get_def Let_def n)
  next
    case (Some k)
    then show ?thesis using member_at_Some [OF assms, of i k] by (simp add: Get_def Let_def n)
  qed
qed

lemma set_Members_same [simp]: "set_Members (Members (the_room w)) w = w"
  by (simp add: set_Members_def upd_room_def)

lemma MemberByID_eq: "room_inv low w \<Longrightarrow> MemberByID now i w = Some (member_at w i, w)"
  by (simp add: MemberByID_def Get_member split: option.split)

lemma room_key:
  assumes "room_inv low w" and "map_of (lookup (Members (the_room w))) key = Some (entry_of w k)"
  shows "normalize low (uID w (m_user (members w k))) = key"
proof -
  have "set_inv (Members (the_room w))" "normalizer (Members (the_room w)) = normalize low"
    using assms(1) unfolding room_inv_def by blast+
  then show ?thesis using set_inv_key [OF _ assms(2)] by simp
qed

lemma room_users_eq:
  assumes "room_inv low w"
  shows "room_users w = {m_user (members w k) | k i. member_at w i = Some k}"
  unfolding room_users_def member_at_Some [OF assms] using room_key [OF assms] by blast

text \<open>Nobody is in the room twice.\<close>

lemma room_user_unique:
  assumes "room_inv low w" and "map_of (lookup (Members (the_room w))) key = Some (entry_of w k)"
    and "map_of (lookup (Members (the_room w))) key' = Some (entry_of w k')"
    and "m_user (members w k) = m_user (members w k')"
  shows "key = key' \<and> k = k'"
proof -
  have "key = key'" using room_key [OF assms(1,2)] room_key [OF assms(1,3)] assms(4) by simp
  with assms(2,3) show ?thesis by (simp add: entry_of_def)
qed

section \<open>The loop over the members\<close>

text \<open>What one turn does to the user it is for.\<close>

definition offered :: "time \<Rightarrow> bool \<Rightarrow> string \<Rightarrow> Message \<Rightarrow> user \<Rightarrow> user" where
  "offered now pick fromID m u =
    (let (ign, s) = In now fromID (Ignored u); u = u\<lparr>Ignored := s\<rparr> in
     if ign \<or> ((case m of AnnounceMsg b t \<Rightarrow> True | _ \<Rightarrow> False) \<and> Quiet (config u)) then u
     else snd (Send pick m u))"

lemma upd_user_twice [simp]: "upd_user p f (upd_user p g w) = upd_user p (f \<circ> g) w"
  by (simp add: upd_user_def)

lemma users_upd [simp]: "users (upd_user p f w) q = (if q = p then f (users w p) else users w q)"
  by (simp add: upd_user_def)

lemma upd_user_rest [simp]:
  "members (upd_user p f w) = members w" "the_room (upd_user p f w) = the_room w"
  "next_mid (upd_user p f w) = next_mid w" "spawned (upd_user p f w) = spawned w"
  by (simp_all add: upd_user_def)

lemma offer_eq: "offer now pick fromID m p w = upd_user p (offered now (pick p) fromID m) w"
  by (auto simp: offer_def ignores_def offered_def Let_def send_user_def upd_user_def
      split: prod.split bool.split)

lemma offered_keeps [simp]:
  "ident_of (offered now pick i m u) = ident_of u" "config (offered now pick i m u) = config u"
  "colorIdx (offered now pick i m u) = colorIdx u"
  by (simp_all add: offered_def Let_def split: prod.split)

text \<open>A member that does not ignore the sender, and has not asked for silence when it
  is an announcement, is sent the message.\<close>

definition wants :: "time \<Rightarrow> string \<Rightarrow> Message \<Rightarrow> user \<Rightarrow> bool" where
  "wants now fromID m u \<longleftrightarrow> live now (Ignored u) (normalizer (Ignored u) fromID) = None \<and>
    \<not> ((case m of AnnounceMsg b t \<Rightarrow> True | _ \<Rightarrow> False) \<and> Quiet (config u))"

definition same_mail :: "user \<Rightarrow> user \<Rightarrow> bool" where
  "same_mail u v \<longleftrightarrow> msg u = msg v \<and> done_closed u = done_closed v"

lemma offered_mail:
  "same_mail (offered now pick i m u) (if wants now i m u then snd (Send pick m u) else u)"
proof -
  obtain ign s where i: "In now i (Ignored u) = (ign, s)" by fastforce
  then have "ign \<longleftrightarrow> live now (Ignored u) (normalizer (Ignored u) i) \<noteq> None"
    using In_live [of now i "Ignored u"] by simp
  then show ?thesis
    by (auto simp: offered_def i wants_def same_mail_def Send_cases Close_def Let_def)
qed

lemma fold_users:
  "distinct ps \<Longrightarrow> users (fold (\<lambda>p. upd_user p (f p)) ps w) q = (if q \<in> set ps then f q (users w q) else users w q)"
  by (induction ps arbitrary: w) auto

lemma fold_rest:
  "members (fold (\<lambda>p. upd_user p (f p)) ps w) = members w \<and> the_room (fold (\<lambda>p. upd_user p (f p)) ps w) = the_room w \<and>
    next_mid (fold (\<lambda>p. upd_user p (f p)) ps w) = next_mid w \<and> spawned (fold (\<lambda>p. upd_user p (f p)) ps w) = spawned w"
  by (induction ps arbitrary: w) auto


text \<open>Who is in the room, by address of the member.\<close>

definition room_mids :: "'w world_scheme \<Rightarrow> mid set" where
  "room_mids w = {k. \<exists>key. map_of (lookup (Members (the_room w))) key = Some (entry_of w k)}"

lemma room_users_mids: "room_users w = (\<lambda>k. m_user (members w k)) ` room_mids w"
  by (auto simp: room_users_def room_mids_def)

lemma room_mids_inj: "room_inv low w \<Longrightarrow> inj_on (\<lambda>k. m_user (members w k)) (room_mids w)"
  by (rule inj_onI) (auto simp: room_mids_def dest: room_user_unique)

lemma room_cleanup [simp]: "room_inv low w \<Longrightarrow> cleanup now key (Members (the_room w)) = Members (the_room w)"
  by (auto simp: cleanup_def split: option.split dest!: room_inv_entry)

lemma room_cleanups [simp]:
  "room_inv low w \<Longrightarrow> foldl (\<lambda>s k. cleanup now k s) (Members (the_room w)) ks = Members (the_room w)"
  by (induction ks) simp_all

lemma fold_Some: "fold (\<lambda>x st. do { w \<leftarrow> st; Some (g x w) }) xs (Some w) = Some (fold g xs w)"
  by (induction xs arbitrary: w) simp_all

text \<open>A loop over the members visits each of them once and leaves the set as it was.\<close>

lemma Each_members:
  assumes "room_inv low w" and "permuting ord"
  shows "\<exists>ks. distinct ks \<and> set ks = room_mids w \<and>
    Each ord now (\<lambda>key it st. (None, do { v \<leftarrow> st; k \<leftarrow> as_member (Value now it); Some (g k v) }))
      (Members (the_room w)) (Some v) = (None, Some (fold g ks v), Members (the_room w))"
proof -
  let ?s = "Members (the_room w)"
  let ?f = "\<lambda>key it st. do { v \<leftarrow> st; k \<leftarrow> as_member (Value now it); Some (g k v) }"
  let ?es = "entries ord ?s"
  define ks where "ks = map (\<lambda>(key, it). the (as_member (Value now it))) ?es"
  have inv: "set_inv ?s" using assms(1) unfolding room_inv_def by blast
  have ent: "\<exists>k. it = entry_of w k" if "(key, it) \<in> set ?es" for key it
    using that room_inv_entry [OF assms(1)] by (auto simp: entries_mem [OF assms(2)])
  have "map_of (lookup ?s) key = Some it" if "(key, it) \<in> set ?es" for key it
    using that by (simp add: entries_mem [OF assms(2)])
  note mem = this
  have dist: "distinct ?es"
    using entries_distinct [OF assms(2) inv] by (simp add: distinct_map)
  have "inj_on (\<lambda>(key, it). the (as_member (Value now it))) (set ?es)"
  proof (rule inj_onI, clarify)
    fix key it key' it'
    assume a: "(key, it) \<in> set ?es" "(key', it') \<in> set ?es"
      and eq: "the (as_member (Value now it)) = the (as_member (Value now it'))"
    obtain k k' where k: "it = entry_of w k" "it' = entry_of w k'" using ent a by blast
    then have "k = k'" using eq by simp
    then show "key = key' \<and> it = it'"
      using k mem [OF a(1)] mem [OF a(2)] room_key [OF assms(1), of key k] room_key [OF assms(1), of key' k]
      by simp
  qed
  then have "distinct ks" using dist by (simp add: ks_def distinct_map)
  moreover have "set ks = room_mids w"
  proof
    show "set ks \<subseteq> room_mids w"
      using ent mem by (fastforce simp: ks_def room_mids_def)
    show "room_mids w \<subseteq> set ks"
      by (force simp: ks_def room_mids_def entries_mem [OF assms(2), symmetric])
  qed
  moreover have "fold (\<lambda>(key, it) st. ?f key it st) es (Some v) =
      Some (fold g (map (\<lambda>(key, it). the (as_member (Value now it))) es) v)"
    if "set es \<subseteq> set ?es" for es
    using that
  proof (induction es arbitrary: v)
    case (Cons e es)
    obtain key it where e: "e = (key, it)" by fastforce
    obtain k where "it = entry_of w k" using Cons.prems ent e by auto
    then show ?case using Cons by (simp add: e)
  qed simp
  moreover have "filter (\<lambda>(key, it). Value now it \<noteq> None) ?es = ?es"
    using ent by (fastforce intro: filter_True)
  ultimately show ?thesis
    using Each_total [of "\<lambda>key it st. (None, ?f key it st)" ?f ord now ?s "Some v", OF refl] assms(1)
    by (intro exI [of _ ks]) (auto simp: ks_def)
qed

section \<open>Who may speak\<close>

text \<open>The sender's name when a message passes the guard of \<open>HandleMsg\<close>: it is from
  nobody, or from a member who is not muted.\<close>

definition admitted :: "'w world_scheme \<Rightarrow> Message \<Rightarrow> string option" where
  "admitted w m =
    (case From m of
       None \<Rightarrow> Some []
     | Some None \<Rightarrow> None
     | Some (Some p) \<Rightarrow>
         if uID w p = [] then Some []
         else case member_at w (uID w p) of
           None \<Rightarrow> None
         | Some k \<Rightarrow> if isMuted (members w k) then None else Some (uID w p))"

text \<open>The messages that go to everybody.\<close>

fun to_all :: "Message \<Rightarrow> bool" where
  "to_all (Msg b t) = True"
| "to_all (PublicMsg b t f) = True"
| "to_all (EmoteMsg b t f) = True"
| "to_all (AnnounceMsg b t) = True"
| "to_all _ = False"

lemma uID_ID: "ID (ident_of (users w p)) = uID w p"
  by (simp add: uID_def)

lemma HandleMsg_admitted:
  assumes "room_inv low w" and "admitted w m = Some i"
  shows "HandleMsg run err_text line ord pick now m w = deliver run err_text line ord pick now i m w"
proof (cases "From m")
  case None
  then show ?thesis using assms(2) by (simp add: HandleMsg_def admitted_def)
next
  case (Some f)
  then obtain p where p: "From m = Some (Some p)" using assms(2) by (cases f) (auto simp: admitted_def)
  show ?thesis
  proof (cases "uID w p = []")
    case True
    then show ?thesis using p assms(2) by (simp add: HandleMsg_def admitted_def uID_ID)
  next
    case False
    then obtain k where "member_at w (uID w p) = Some k" "\<not> isMuted (members w k)" "i = uID w p"
      using p assms(2) by (auto simp: admitted_def split: option.splits if_splits)
    then show ?thesis
      using p False by (simp add: HandleMsg_def uID_ID Get_member [OF assms(1)] IsMuted_def)
  qed
qed

lemma room_inv_cong:
  assumes "room_inv low w" and "Members (the_room w') = Members (the_room w)"
    and "history_inv (r_history (the_room w'))"
    and "length (history.entries (r_history (the_room w'))) = historyLen"
    and "\<And>k. entry_of w' k = entry_of w k" and "next_mid w' = next_mid w"
  shows "room_inv low w'"
  using assms unfolding room_inv_def by simp

text \<open>The message in the history, then offered to every member once.\<close>

definition logged :: "(Message \<Rightarrow> string) \<Rightarrow> Message \<Rightarrow> 'w world_scheme \<Rightarrow> 'w world_scheme" where
  "logged line m w = upd_room (\<lambda>r. r\<lparr>r_history := history_push line m (r_history r)\<rparr>) w"

lemma logged_simps [simp]:
  "users (logged line m w) = users w" "members (logged line m w) = members w"
  "Members (the_room (logged line m w)) = Members (the_room w)" "next_mid (logged line m w) = next_mid w"
  "spawned (logged line m w) = spawned w" "broadcast (the_room (logged line m w)) = broadcast (the_room w)"
  "closed (the_room (logged line m w)) = closed (the_room w)"
  "r_history (the_room (logged line m w)) = history_push line m (r_history (the_room w))"
  "entry_of (logged line m w) = entry_of w"
  by (simp_all add: logged_def upd_room_def entry_of_def uID_def fun_eq_iff)

lemma logged_fold:
  "upd_room (\<lambda>r. r\<lparr>r_history := history_push line m (r_history (the_room w))\<rparr>) w = logged line m w"
  by (simp add: logged_def upd_room_def)

lemma room_inv_logged: "room_inv low w \<Longrightarrow> room_inv low (logged line m w)"
  by (rule room_inv_cong) (auto simp: room_inv_def history_inv_push)

lemma room_mids_logged [simp]: "room_mids (logged line m w) = room_mids w"
  by (simp add: room_mids_def)

lemma deliver_to_all:
  assumes "room_inv low w" and "permuting ord" and "to_all m"
  shows "\<exists>ps. distinct ps \<and> set ps = room_users w \<and>
    deliver run err_text line ord pick now i m w =
      Some (fold (\<lambda>p. upd_user p (offered now (pick p) i m)) ps (logged line m w))"
proof -
  let ?w = "logged line m w"
  let ?g = "\<lambda>k v. offer now pick i m (m_user (members v k)) v"


  have hist: "History_Add line m (r_history (the_room w)) = Inr (history_push line m (r_history (the_room w)))"
    using assms(1) by (simp add: room_inv_def History_Add_Inr)
  obtain ks where ks: "distinct ks" "set ks = room_mids w"
    and each: "Each ord now (\<lambda>key it st. (None, broadcast_fn now pick i m key it st)) (Members (the_room ?w)) (Some ?w)
      = (None, Some (fold ?g ks ?w), Members (the_room ?w))"
    using Each_members [OF room_inv_logged [OF assms(1)] assms(2), where now = now and g = ?g and v = ?w]
    by (auto simp: broadcast_fn_def)
  have "fold ?g ks v = fold (\<lambda>p. upd_user p (offered now (pick p) i m)) (map (\<lambda>k. m_user (members w k)) ks) v"
    if "members v = members w" for v
    using that by (induction ks arbitrary: v) (simp_all add: offer_eq)
  note fold = this [of ?w]
  define ps where "ps = map (\<lambda>k. m_user (members w k)) ks"
  have "deliver run err_text line ord pick now i m w =
      map_option (set_Members (Members (the_room ?w))) (Some (fold ?g ks ?w))"
    using assms(3) each hist by (cases m) (simp_all add: deliver_def logged_fold Let_def)
  also have "\<dots> = Some (fold (\<lambda>p. upd_user p (offered now (pick p) i m)) ps ?w)"
  proof -
    let ?v = "fold (\<lambda>p. upd_user p (offered now (pick p) i m)) ps ?w"
    have "the_room ?v = the_room ?w" by (simp add: fold_rest)
    then show ?thesis using fold set_Members_same [of ?v] by (simp add: ps_def)
  qed
  finally show ?thesis
    using ks room_mids_inj [OF assms(1)]
    by (intro exI [of _ ps]) (auto simp: ps_def distinct_map room_users_mids)
qed

section \<open>Joining, leaving, renaming\<close>

lemma fold_Send:
  "fold (\<lambda>e st. do { w \<leftarrow> st; m \<leftarrow> e; Some (send_user pick p m w) }) (map Some ms) (Some w) =
    Some (fold (send_user pick p) ms w)"
  by (induction ms arbitrary: w) simp_all

lemma Room_History_eq:
  assumes "history_inv (r_history (the_room w))"
  shows "Room_History pick p w =
    Some (fold (send_user pick p) (rev (take historyLen (history_recent (r_history (the_room w))))) w)"
  using assms by (simp add: Room_History_def History_Get_recent fold_Send)

lemma send_users_eq:
  "fold (send_user pick p) ms w = upd_user p (fold (\<lambda>m u. snd (Send (pick p) m u)) ms) w"
proof (induction ms arbitrary: w)
  case Nil
  then show ?case by (simp add: upd_user_def)
next
  case (Cons m ms)
  then show ?case by (simp add: send_user_def comp_def)
qed

lemma Sends_keep [simp]:
  "ident_of (fold (\<lambda>m u. snd (Send pick m u)) ms u) = ident_of u"
  "config (fold (\<lambda>m u. snd (Send pick m u)) ms u) = config u"
  by (induction ms arbitrary: u) simp_all

text \<open>The room with another set of members or another user, and the announcement
  that is queued.\<close>

definition announced :: "time \<Rightarrow> string \<Rightarrow> 'w world_scheme \<Rightarrow> 'w world_scheme" where
  "announced now txt w = upd_room (\<lambda>r. r\<lparr>broadcast := broadcast r @ [AnnounceMsg txt now]\<rparr>) w"

lemma announced_simps [simp]:
  "users (announced now txt w) = users w" "members (announced now txt w) = members w"
  "Members (the_room (announced now txt w)) = Members (the_room w)"
  "next_mid (announced now txt w) = next_mid w" "spawned (announced now txt w) = spawned w"
  "closed (the_room (announced now txt w)) = closed (the_room w)"
  "r_history (the_room (announced now txt w)) = r_history (the_room w)"
  "broadcast (the_room (announced now txt w)) = broadcast (the_room w) @ [AnnounceMsg txt now]"
  "uID (announced now txt w) = uID w" "entry_of (announced now txt w) = entry_of w"
  by (simp_all add: announced_def upd_room_def uID_def entry_of_def fun_eq_iff)

lemma Send_announce:
  "Room_Send (NewAnnounceMsg now txt) w = (if closed (the_room w) then None else Some (announced now txt w))"
  by (simp add: Room_Send_def NewAnnounceMsg_def announced_def)

lemma set_Members_simps [simp]:
  "users (set_Members s w) = users w" "members (set_Members s w) = members w"
  "Members (the_room (set_Members s w)) = s" "next_mid (set_Members s w) = next_mid w"
  "spawned (set_Members s w) = spawned w" "closed (the_room (set_Members s w)) = closed (the_room w)"
  "r_history (the_room (set_Members s w)) = r_history (the_room w)"
  "broadcast (the_room (set_Members s w)) = broadcast (the_room w)"
  "uID (set_Members s w) = uID w" "entry_of (set_Members s w) = entry_of w"
  by (simp_all add: set_Members_def upd_room_def uID_def entry_of_def fun_eq_iff)

lemma room_inv_announced: "room_inv low w \<Longrightarrow> room_inv low (announced now txt w)"
  by (rule room_inv_cong) (auto simp: room_inv_def)

lemma member_at_cong:
  "Members (the_room w') = Members (the_room w) \<Longrightarrow> member_at w' i = member_at w i"
  by (simp add: member_at_def)

lemma upd_user_ident:
  assumes "ident_of (f (users w p)) = ident_of (users w p)"
  shows "uID (upd_user p f w) = uID w" "uName (upd_user p f w) = uName w" "entry_of (upd_user p f w) = entry_of w"
  using assms by (simp_all add: uID_def uName_def entry_of_def upd_user_def fun_eq_iff)

lemma room_inv_upd_user:
  assumes "room_inv low w" and "ident_of (f (users w p)) = ident_of (users w p)"
  shows "room_inv low (upd_user p f w)"
  by (rule room_inv_cong [OF assms(1)]) (use assms in \<open>simp_all add: room_inv_def upd_user_ident\<close>)

text \<open>The set of a room as a map from names: what a change of one entry does.\<close>

lemma room_set_update:
  assumes "set_inv s" and "normalizer s = normalize low"
    and "\<And>key it. map_of (lookup s) key = Some it \<Longrightarrow> \<exists>k<next_mid w. it = entry_of w k"
    and "k < next_mid w" and "history_inv (r_history (the_room w))"
    and "length (history.entries (r_history (the_room w))) = historyLen"
    and "key = normalize low (uID w (m_user (members w k)))"
  shows "room_inv low (set_Members (s\<lparr>lookup := AList.update key (entry_of w k) (lookup s)\<rparr>) w)"
proof -
  have "set_inv (s\<lparr>lookup := AList.update key (entry_of w k) (lookup s)\<rparr>)"
    using assms(1,2,7) by (intro set_inv_update) simp_all
  then show ?thesis
    using assms(2-6) unfolding room_inv_def by auto
qed

text \<open>A new member, not yet in the set.\<close>

definition alloc :: "uid \<Rightarrow> 'w world_scheme \<Rightarrow> 'w world_scheme" where
  "alloc p w = w\<lparr>members := (members w)(next_mid w := \<lparr>m_user = p, is_op = False, isMuted = False\<rparr>),
     next_mid := next_mid w + 1\<rparr>"

lemma alloc_simps [simp]:
  "users (alloc p w) = users w" "the_room (alloc p w) = the_room w" "spawned (alloc p w) = spawned w"
  "next_mid (alloc p w) = next_mid w + 1" "uID (alloc p w) = uID w" "uName (alloc p w) = uName w"
  "members (alloc p w) (next_mid w) = \<lparr>m_user = p, is_op = False, isMuted = False\<rparr>"
  by (simp_all add: alloc_def uID_def uName_def fun_eq_iff)

lemma entry_of_alloc: "k < next_mid w \<Longrightarrow> entry_of (alloc p w) k = entry_of w k"
  by (simp add: entry_of_def alloc_def uID_def)

lemma room_inv_alloc:
  assumes "room_inv low w"
  shows "room_inv low (alloc p w)"
proof -
  have "\<exists>k<next_mid (alloc p w). it = entry_of (alloc p w) k"
    if a: "map_of (lookup (Members (the_room w))) key = Some it" for key it
  proof -
    obtain k where "k < next_mid w" "it = entry_of w k" using room_inv_entry [OF assms a] by blast
    then show ?thesis by (intro exI [of _ k]) (simp add: entry_of_alloc)
  qed
  then show ?thesis using assms unfolding room_inv_def by simp
qed

lemma room_fresh:
  assumes "room_inv low w" and "member_at w i = None"
  shows "live now (Members (the_room w)) (normalize low i) = None"
  using assms by (simp add: live_def member_at_None)

lemma room_taken:
  assumes "room_inv low w" and "member_at w i = Some k"
  shows "live now (Members (the_room w)) (normalize low i) \<noteq> None"
  using assms member_at_Some [OF assms(1), of i k] by (simp add: live_def)

lemma room_normalizer: "room_inv low w \<Longrightarrow> normalizer (Members (the_room w)) = normalize low"
  by (simp add: room_inv_def)

lemma room_recent: "room_inv low w \<Longrightarrow> length (history_recent (r_history (the_room w))) \<le> historyLen"
  by (auto simp: room_inv_def history_inv_def history_recent_def)

lemma Join_alt:
  "Join pick now p w =
    (if uID w p = [] then Some (Inl ErrInvalidName, w)
     else (case Add now (Itemize (uID w p) (Some (MemberPtr (next_mid w)))) (Members (the_room w)) of
          (Some err, s) \<Rightarrow> Some (Inl err, set_Members s (alloc p w))
        | (None, s) \<Rightarrow> do {
            w' \<leftarrow> Room_History pick p (set_Members s (alloc p w));
            w' \<leftarrow> Room_Send (NewAnnounceMsg now
              (uName w' p @ '' joined. (Connected: '' @ Itoa (Len (Members (the_room w'))) @ '')'')) w';
            Some (Inr (next_mid w), w')
          }))"
  unfolding Join_def Let_def alloc_def uID_def by simp

lemma Join_collision:
  assumes "room_inv low w" and "uID w p \<noteq> []" and "member_at w (uID w p) = Some k"
  shows "Join pick now p w = Some (Inl ErrCollision, alloc p w)"
  using assms room_taken [OF assms(1,3), of now]
  using set_Members_same [of "alloc p w"] by (simp add: Join_alt Add_collision room_normalizer)

text \<open>The room when \<open>p\<close> has its place in the set.\<close>

definition seated :: "(rune \<Rightarrow> rune) \<Rightarrow> uid \<Rightarrow> 'w world_scheme \<Rightarrow> 'w world_scheme" where
  "seated low p w = set_Members ((Members (the_room w))\<lparr>lookup := AList.update (normalize low (uID w p))
     (entry_of (alloc p w) (next_mid w)) (lookup (Members (the_room w)))\<rparr>) (alloc p w)"

lemma room_inv_seated:
  assumes "room_inv low w"
  shows "room_inv low (seated low p w)"
proof -
  have "room_inv low (alloc p w)" by (rule room_inv_alloc [OF assms])
  then show ?thesis
    unfolding seated_def
    by (intro room_set_update) (auto simp: room_inv_def dest: room_inv_entry)
qed

lemma Join_fresh:
  assumes "room_inv low w" and "uID w p \<noteq> []" and "member_at w (uID w p) = None"
  shows "Join pick now p w =
    (if closed (the_room w) then None
     else Some (Inr (next_mid w), announced now
       (uName w p @ '' joined. (Connected: '' @ Itoa (Len (Members (the_room w)) + 1) @ '')'')
       (upd_user p (fold (\<lambda>m u. snd (Send (pick p) m u)) (rev (history_recent (r_history (the_room w)))))
         (seated low p w))))"
proof -
  have it: "Itemize (uID w p) (Some (MemberPtr (next_mid w))) = entry_of (alloc p w) (next_mid w)"
    by (simp add: entry_of_def)
  have add: "Add now (entry_of (alloc p w) (next_mid w)) (Members (the_room w)) =
      (None, (Members (the_room w))\<lparr>lookup := AList.update (normalize low (uID w p))
        (entry_of (alloc p w) (next_mid w)) (lookup (Members (the_room w)))\<rparr>)"
    using room_fresh [OF assms(1,3), of now] by (simp add: Add_fresh room_normalizer [OF assms(1)])
  have "history_inv (r_history (the_room (seated low p w)))"
    using room_inv_seated [OF assms(1)] unfolding room_inv_def by blast
  note hist = Room_History_eq [OF this]
  have r: "r_history (the_room (seated low p w)) = r_history (the_room w)"
    "closed (the_room (seated low p w)) = closed (the_room w)" "uName (seated low p w) = uName w"
    by (simp_all add: seated_def uName_def fun_eq_iff)
  have len: "Len (Members (the_room (seated low p w))) = Len (Members (the_room w)) + 1"
    using assms(3) by (simp add: seated_def Len_def length_update member_at_None [OF assms(1)])
  have nm: "uName (upd_user p (fold (\<lambda>m u. snd (Send (pick p) m u)) ms) (seated low p w)) p = uName w p" for ms
    by (subst upd_user_ident) (simp_all add: r)
  show ?thesis
    using assms(2) room_recent [OF assms(1)]
    by (simp add: Join_alt it add seated_def [symmetric] hist send_users_eq
        r len nm Send_announce)
qed

lemma member_at_seated:
  assumes "room_inv low w"
  shows "member_at (seated low p w) i =
    (if normalize low i = normalize low (uID w p) then Some (next_mid w) else member_at w i)"
  using assms by (simp add: member_at_def seated_def room_normalizer)

lemma Leave_missing:
  assumes "room_inv low w" and "member_at w (uID w p) = None"
  shows "Leave human now p w = Some (Some ErrMissing, w)"
  using assms by (simp add: Leave_def Remove_def member_at_None room_normalizer)

text \<open>The room without the member of a name.\<close>

definition vacated :: "(rune \<Rightarrow> rune) \<Rightarrow> string \<Rightarrow> 'w world_scheme \<Rightarrow> 'w world_scheme" where
  "vacated low i w = set_Members ((Members (the_room w))\<lparr>lookup :=
     AList.delete (normalize low i) (lookup (Members (the_room w)))\<rparr>) w"

lemma room_inv_vacated:
  assumes "room_inv low w"
  shows "room_inv low (vacated low i w)"
proof -
  have "set_inv ((Members (the_room w))\<lparr>lookup := AList.delete (normalize low i) (lookup (Members (the_room w)))\<rparr>)"
    using assms by (intro set_inv_delete) (simp add: room_inv_def)
  then show ?thesis
    using assms unfolding vacated_def room_inv_def by simp
qed

lemma member_at_vacated:
  "room_inv low w \<Longrightarrow> member_at (vacated low i w) j = (if normalize low j = normalize low i then None else member_at w j)"
  by (simp add: member_at_def vacated_def room_normalizer)

lemma Leave_present:
  assumes "room_inv low w" and "member_at w (uID w p) = Some k"
  shows "Leave human now p w =
    (if closed (the_room w) then None
     else Some (None, announced now (uName w p @ '' left. (After '' @ human (joined (users w p)) @ '')'')
       (vacated low (uID w p) w)))"
proof -
  have "map_of (lookup (Members (the_room w))) (normalize low (uID w p)) = Some (entry_of w k)"
    using assms(2) by (simp add: member_at_Some [OF assms(1)])
  then have "Remove (uID w p) (Members (the_room w)) = (None, (Members (the_room w))\<lparr>lookup :=
     AList.delete (normalize low (uID w p)) (lookup (Members (the_room w)))\<rparr>)"
    by (simp add: Remove_def room_normalizer [OF assms(1)])
  then show ?thesis by (simp add: Leave_def Send_announce vacated_def)
qed

section \<open>Changing a name\<close>

text \<open>A user takes the name \<open>new\<close>: the callers of \<open>Rename\<close> do this before they call it,
  and take it back when \<open>Rename\<close> refuses.\<close>

definition set_name :: "int \<Rightarrow> string \<Rightarrow> uid \<Rightarrow> 'w world_scheme \<Rightarrow> 'w world_scheme" where
  "set_name rnd new p w = upd_user p (\<lambda>u. fst (User_SetID rnd new u)) w"

definition has_name :: "'w world_scheme \<Rightarrow> uid \<Rightarrow> bool" where
  "has_name w p \<longleftrightarrow> (case ident_of (users w p) of Identity i s \<Rightarrow> True | SimpleID i \<Rightarrow> False)"

lemma set_name_simps [simp]:
  "members (set_name rnd new p w) = members w" "the_room (set_name rnd new p w) = the_room w"
  "next_mid (set_name rnd new p w) = next_mid w" "spawned (set_name rnd new p w) = spawned w"
  "q \<noteq> p \<Longrightarrow> users (set_name rnd new p w) q = users w q"
  "member_at (set_name rnd new p w) i = member_at w i"
  by (simp_all add: set_name_def member_at_def)

lemma uID_set_name:
  "has_name w p \<Longrightarrow> uID (set_name rnd new p w) q = (if q = p then new else uID w q)"
  by (auto simp: set_name_def uID_def has_name_def User_SetID_def setColorIdx_def split: Identifier.splits)

lemma has_name_set_name [simp]: "has_name (set_name rnd new p w) q = has_name w q"
  by (auto simp: set_name_def has_name_def User_SetID_def setColorIdx_def split: Identifier.splits)

lemma entry_of_set_name:
  "has_name w p \<Longrightarrow> m_user (members w k) \<noteq> p \<Longrightarrow> entry_of (set_name rnd new p w) k = entry_of w k"
  by (simp add: entry_of_def uID_set_name)

lemma Rename_taken:
  assumes "room_inv low w" and "has_name w p" and "m_user (members w k) = p" and "new \<noteq> []"
    and "normalize low new \<noteq> normalize low old" and "member_at w new \<noteq> None"
  shows "Rename now old k (set_name rnd new p w) = Some (Some ErrCollision, set_name rnd new p w)"
proof -
  have "map_of (lookup (Members (the_room w))) (normalize low new) \<noteq> None"
    using assms(6) by (simp add: member_at_None [OF assms(1)] del: not_None_eq)
  then show ?thesis
    using assms(2-5) set_Members_same [of "set_name rnd new p w"]
    by (simp add: Rename_def Let_def uID_set_name Replace_def room_normalizer [OF assms(1)])
qed

lemma Rename_empty:
  "has_name w p \<Longrightarrow> m_user (members w k) = p \<Longrightarrow>
    Rename now old k (set_name rnd [] p w) = Some (Some ErrInvalidName, set_name rnd [] p w)"
  by (simp add: Rename_def Let_def uID_set_name)

text \<open>Taking the new name back: only the colour of the user is another one.\<close>

lemma set_name_back:
  assumes "has_name w p"
  shows "set_name rnd' (uID w p) p (set_name rnd new p w) = upd_user p (setColorIdx rnd') w"
  using assms
  by (auto simp: set_name_def uID_def has_name_def User_SetID_def setColorIdx_def upd_user_def fun_eq_iff
      split: Identifier.splits)


lemma Replace_lookup:
  "fst (Replace k it s) = None \<Longrightarrow> map_of (lookup (snd (Replace k it s))) =
    (map_of (lookup s))(normalizer s k := None, normalizer s (Key it) \<mapsto> it)"
  by (auto simp: Replace_def Let_def split: if_splits)

lemma Rename_free:
  assumes inv: "room_inv low w" and p: "has_name w p" "member_at w (uID w p) = Some k" "m_user (members w k) = p"
    and new: "new \<noteq> []" "normalize low new = normalize low (uID w p) \<or> member_at w new = None"
  shows "\<exists>w'. Rename now (uID w p) k (set_name rnd new p w) =
      (if closed (the_room w) then None
       else Some (None, announced now (uID w p @ '' is now known as '' @ new @ ''.'') w')) \<and>
    room_inv low w' \<and> users w' = users (set_name rnd new p w) \<and> members w' = members w \<and>
    broadcast (the_room w') = broadcast (the_room w) \<and> closed (the_room w') = closed (the_room w) \<and>
    spawned w' = spawned w \<and> member_at w' = (\<lambda>i. if normalize low i = normalize low new then Some k
       else if normalize low i = normalize low (uID w p) then None else member_at w i)"
proof -
  let ?v = "set_name rnd new p w" and ?s = "Members (the_room w)"
  let ?it = "entry_of ?v k" and ?old = "normalize low (uID w p)" and ?new = "normalize low new"
  let ?s' = "snd (Replace (uID w p) ?it ?s)"
  have n: "normalizer ?s = normalize low" by (rule room_normalizer [OF inv])
  have key: "Key ?it = new" using p by (simp add: uID_set_name)
  have old: "map_of (lookup ?s) ?old = Some (entry_of w k)" using p member_at_Some [OF inv] by blast
  have ok: "fst (Replace (uID w p) ?it ?s) = None"
    using new old p by (auto simp: Replace_def Let_def n uID_set_name member_at_None [OF inv])
  have look: "map_of (lookup ?s') = (map_of (lookup ?s))(?old := None, ?new \<mapsto> ?it)"
    using Replace_lookup [OF ok] p by (simp add: n uID_set_name)
  have bound: "k < next_mid w"
    using room_inv_entry [OF inv old] by (auto simp: entry_of_def)
  have "\<exists>j<next_mid w. it = entry_of ?v j" if "map_of (lookup ?s') i = Some it" for i it
  proof (cases "i = ?new")
    case True
    then show ?thesis using that bound by (auto simp: look)
  next
    case False
    then have i: "i \<noteq> ?old" "map_of (lookup ?s) i = Some it" using that by (auto simp: look split: if_splits)
    then obtain j where j: "j < next_mid w" "it = entry_of w j" using room_inv_entry [OF inv] by blast
    have "m_user (members w j) \<noteq> p"
      using room_user_unique [OF inv i(2) [unfolded j(2)] old] i(1) p(3) by metis
    with j show ?thesis using entry_of_set_name [OF p(1)] by metis
  qed
  moreover have "set_inv ?s'" using inv by (intro set_inv_Replace) (simp add: room_inv_def)
  ultimately have "room_inv low (set_Members ?s' ?v)"
    using inv unfolding room_inv_def by simp
  moreover have "Rename now (uID w p) k ?v = (if closed (the_room w) then None
       else Some (None, announced now (uID w p @ '' is now known as '' @ new @ ''.'') (set_Members ?s' ?v)))"
  proof -
    have "Itemize new (Some (MemberPtr k)) = ?it" using p by (simp add: entry_of_def uID_set_name)
    moreover obtain t where "Replace (uID w p) ?it ?s = (None, t)"
      using ok by (cases "Replace (uID w p) ?it ?s") simp
    ultimately show ?thesis using p new(1) by (simp add: Rename_def Let_def uID_set_name Send_announce)
  qed
  moreover have "member_at (set_Members ?s' ?v) = (\<lambda>i. if normalize low i = ?new then Some k
       else if normalize low i = ?old then None else member_at w i)"
    by (auto simp: member_at_def look n fun_eq_iff)
  ultimately show ?thesis by (intro exI [of _ "set_Members ?s' ?v"]) simp
qed

section \<open>Messages to one user\<close>

definition mailed :: "time \<Rightarrow> bool \<Rightarrow> string \<Rightarrow> Message \<Rightarrow> user \<Rightarrow> user" where
  "mailed now pick i m u =
    (let (ign, s) = In now i (Ignored u); u = u\<lparr>Ignored := s\<rparr> in if ign then u else snd (Send pick m u))"

lemma mailed_eq:
  "(case ignores now q i w of (True, w) \<Rightarrow> Some w | (False, w) \<Rightarrow> Some (send_user pick q m w)) =
    Some (upd_user q (mailed now (pick q) i m) w)"
  by (auto simp: ignores_def mailed_def send_user_def upd_user_def Let_def split: bool.split prod.split)

lemma deliver_to_one:
  "To m = Some (Some q) \<Longrightarrow>
    deliver run err_text line ord pick now i m w = Some (upd_user q (mailed now (pick q) i m) w)"
  by (cases m) (simp_all add: deliver_def mailed_eq)

lemma mailed_keeps [simp]: "ident_of (mailed now pick i m u) = ident_of u"
  by (simp add: mailed_def Let_def split: prod.split)

lemma mailed_mail:
  "same_mail (mailed now pick i m u)
    (if live now (Ignored u) (normalizer (Ignored u) i) = None then snd (Send pick m u) else u)"
proof -
  obtain ign s where i: "In now i (Ignored u) = (ign, s)" by fastforce
  then have "ign \<longleftrightarrow> live now (Ignored u) (normalizer (Ignored u) i) \<noteq> None"
    using In_live [of now i "Ignored u"] by simp
  then show ?thesis
    by (auto simp: mailed_def i same_mail_def Send_cases Close_def Let_def)
qed

section \<open>A small room for the examples\<close>

text \<open>Two users, \<open>al\<close> and \<open>bob\<close>, of whom \<open>al\<close> is in the room.\<close>

definition ex_world :: world where
  "ex_world =
    \<lparr>users = (\<lambda>p. NewUser id 0 0 (Identity (if p = 0 then ''al'' else ''bob'') [])),
     members = (\<lambda>k. \<lparr>m_user = k, is_op = False, isMuted = False\<rparr>), next_mid = 1,
     the_room = (NewRoom id)\<lparr>Members := \<lparr>lookup = [(normalize id ''al'', Itemize ''al'' (Some (MemberPtr 0)))],
        normalizer = normalize id\<rparr>\<rparr>,
     spawned = []\<rparr>"

lemma ex_uID [simp]: "uID ex_world p = (if p = 0 then ''al'' else ''bob'')"
  by (simp add: uID_def ex_world_def NewUser_def)

lemma ex_norm: "normalize id ''al'' = ''al''" "normalize id ''bob'' = ''bob''"
  by code_simp+

lemma ex_simps [simp]:
  "next_mid ex_world = 1" "members ex_world k = \<lparr>m_user = k, is_op = False, isMuted = False\<rparr>"
  "closed (the_room ex_world) = False" "broadcast (the_room ex_world) = []" "spawned ex_world = []"
  by (simp_all add: ex_world_def NewRoom_def)

lemma ex_inv: "room_inv id ex_world"
proof -
  have "entry_of ex_world 0 = Itemize ''al'' (Some (MemberPtr 0))" by (simp add: entry_of_def)
  moreover have "history_inv (NewHistory historyLen)" by (rule history_inv_New) (simp add: historyLen_def)
  ultimately show ?thesis
    by (auto simp: room_inv_def set_inv_def ex_world_def NewRoom_def historyLen_def NewHistory_def)
qed

lemma ex_member_at:
  "member_at ex_world i = (if normalize id i = ''al'' then Some 0 else None)"
  by (simp add: member_at_def ex_world_def NewRoom_def ex_norm)

lemma ex_users [simp]: "room_users ex_world = {0}"
  by (auto simp: room_users_eq [OF ex_inv] ex_member_at intro!: exI [of _ "''al''"] simp: ex_norm)

lemma ex_has_name [simp]: "has_name ex_world p"
  by (simp add: has_name_def ex_world_def NewUser_def)

lemma guard_eq:
  assumes "room_inv low w" and "From m = Some (Some p)" and "uID w p \<noteq> []" and "admitted w m = None"
  shows "HandleMsg run err_text line ord pick now m w =
    Some (case member_at w (uID w p) of
        None \<Rightarrow> w
      | Some k \<Rightarrow>
          (case m of CommandMsg b t f c args \<Rightarrow> w
           | _ \<Rightarrow> upd_user (m_user (members w k)) (\<lambda>u. snd (Send (pick (m_user (members w k))) m u)) w))"
proof (cases "member_at w (uID w p)")
  case None
  then show ?thesis
    using assms(2,3) by (simp add: HandleMsg_def uID_ID Get_member [OF assms(1)])
next
  case (Some k)
  then have "isMuted (members w k)"
    using assms(2-4) by (simp add: admitted_def split: if_splits)
  with Some show ?thesis
    using assms(2,3)
    by (cases m) (simp_all add: HandleMsg_def uID_ID Get_member [OF assms(1)] IsMuted_def send_user_def)
qed

lemma broadcast_users:
  assumes "room_inv low w" and "permuting ord" and "to_all m" and "admitted w m = Some i"
  shows "\<exists>w'. HandleMsg run err_text line ord pick now m w = Some w' \<and> room_inv low w' \<and>
    history_recent (r_history (the_room w')) = take 20 (m # history_recent (r_history (the_room w))) \<and>
    Members (the_room w') = Members (the_room w) \<and> members w' = members w \<and>
    (\<forall>p. users w' p = (if p \<in> room_users w then offered now (pick p) i m (users w p) else users w p))"
proof -
  obtain ps where ps: "distinct ps" "set ps = room_users w"
    and run: "deliver run err_text line ord pick now i m w =
      Some (fold (\<lambda>p. upd_user p (offered now (pick p) i m)) ps (logged line m w))"
    using deliver_to_all [OF assms(1-3)] by blast
  let ?w = "fold (\<lambda>p. upd_user p (offered now (pick p) i m)) ps (logged line m w)"
  have rest: "the_room ?w = the_room (logged line m w)" "members ?w = members w" "next_mid ?w = next_mid w"
    by (simp_all add: fold_rest)
  have users: "users ?w p = (if p \<in> room_users w then offered now (pick p) i m (users w p) else users w p)" for p
    using ps by (simp add: fold_users)
  have "entry_of ?w k = entry_of w k" for k
    by (simp add: entry_of_def uID_def rest users)
  then have "room_inv low ?w"
    using assms(1) room_inv_logged [OF assms(1)]
    by (intro room_inv_cong [OF assms(1)]) (simp_all add: rest room_inv_def)
  moreover have "history_recent (r_history (the_room ?w)) = take 20 (m # history_recent (r_history (the_room w)))"
    using assms(1) room_log.recent_push [of "r_history (the_room w)" line m]
    by (simp add: rest room_inv_def historyLen_def)
  ultimately show ?thesis
    using run rest users by (simp add: HandleMsg_admitted [OF assms(1,4)])
qed

lemma broadcast_mail:
  assumes "room_inv low w" and "permuting ord" and "to_all m" and "admitted w m = Some i"
  shows "\<exists>w'. HandleMsg run err_text line ord pick now m w = Some w' \<and> room_inv low w' \<and>
    history_recent (r_history (the_room w')) = take 20 (m # history_recent (r_history (the_room w))) \<and>
    Members (the_room w') = Members (the_room w) \<and> members w' = members w \<and>
    (\<forall>p. same_mail (users w' p)
      (if p \<in> room_users w \<and> wants now i m (users w p) then snd (Send (pick p) m (users w p)) else users w p))"
proof -
  have "same_mail (if p \<in> room_users w then offered now (pick p) i m (users w p) else users w p)
      (if p \<in> room_users w \<and> wants now i m (users w p) then snd (Send (pick p) m (users w p)) else users w p)" for p
    using offered_mail [of now "pick p" i m "users w p"] by (auto simp: same_mail_def)
  note mail = this
  obtain w' where w: "HandleMsg run err_text line ord pick now m w = Some w'" "room_inv low w'"
      "history_recent (r_history (the_room w')) = take 20 (m # history_recent (r_history (the_room w)))"
      "Members (the_room w') = Members (the_room w)" "members w' = members w"
    and users: "\<And>p. users w' p = (if p \<in> room_users w then offered now (pick p) i m (users w p) else users w p)"
    using broadcast_users [OF assms, of run err_text line pick now] by blast
  show ?thesis by (rule exI [of _ w']) (simp only: w users mail simp_thms)
qed

text \<open>What a member with room in its mailbox is left with.\<close>

lemma offered_wants:
  assumes "wants now i m u" and "\<not> done_closed u" and "length (msg u) < messageBuffer"
  shows "\<exists>s. offered now pick i m u = u\<lparr>Ignored := s, msg := msg u @ [m]\<rparr>"
proof -
  obtain ign s where i: "In now i (Ignored u) = (ign, s)" by fastforce
  then have "ign \<longleftrightarrow> live now (Ignored u) (normalizer (Ignored u) i) \<noteq> None"
    using In_live [of now i "Ignored u"] by simp
  then have "\<not> ign" and quiet: "\<not> ((case m of AnnounceMsg b t \<Rightarrow> True | _ \<Rightarrow> False) \<and> Quiet (config u))"
    using assms(1) by (simp_all add: wants_def)
  then have "offered now pick i m u = snd (Send pick m (u\<lparr>Ignored := s\<rparr>))"
    unfolding offered_def i by (cases m) (simp_all add: Let_def)
  then show ?thesis using assms(2,3) by (simp add: Send_cases) blast
qed

section \<open>Properties\<close>

text \<open>C8: a message to the room reaches everybody and nobody else. When it is from
  nobody or from a member who is not muted, it is kept as the newest of the last
  20 of the history, and every user in the room that does not ignore the sender
  (and has not silenced announcements, when it is one) is sent it once, whatever
  the order of the members; the messages of all other users stay as they are, and
  so do the members of the room.\<close>

theorem broadcast_reaches:
  assumes "room_inv low w" and "permuting ord" and "to_all m" and "admitted w m = Some i"
  shows "\<exists>w'. HandleMsg run err_text line ord pick now m w = Some w' \<and> room_inv low w' \<and>
    history_recent (r_history (the_room w')) = take 20 (m # history_recent (r_history (the_room w))) \<and>
    Members (the_room w') = Members (the_room w) \<and> members w' = members w \<and>
    (\<forall>p. same_mail (users w' p)
      (if p \<in> room_users w \<and> wants now i m (users w p) then snd (Send (pick p) m (users w p)) else users w p))"
  by (rule broadcast_mail [OF assms])

theorem broadcast_reaches_witness:
  "\<exists>w'. HandleMsg (\<lambda>m w. None) (\<lambda>e. []) (\<lambda>m. []) rev (\<lambda>p. False) 5 (EmoteMsg ''waves'' 3 (Some 0)) ex_world = Some w' \<and>
    msg (users w' 0) = [EmoteMsg ''waves'' 3 (Some 0)] \<and> msg (users w' 1) = []"
proof -
  have adm: "admitted ex_world (EmoteMsg ''waves'' 3 (Some 0)) = Some ''al''"
    by (simp add: admitted_def ex_member_at ex_norm)
  have msg: "Send False m (users ex_world p) = (None, (users ex_world p)\<lparr>msg := [m]\<rparr>)"
    "wants 5 ''al'' (EmoteMsg b t f) (users ex_world p)" "msg (users ex_world p) = []" for m p b t f
    by (simp_all add: Send_cases ex_world_def NewUser_def messageBuffer_def wants_def live_New)
  then show ?thesis
    using broadcast_reaches [OF ex_inv permuting_rev _ adm, of "\<lambda>m w. None" "\<lambda>e. []" "\<lambda>m. []" "\<lambda>p. False" 5]
    by (auto simp: same_mail_def dest: spec [of _ 0] spec [of _ 1])
qed

text \<open>C15: a private message stays private. A message to a user \<open>q\<close> from a member who
  is not muted is sent to \<open>q\<close> alone, once, unless \<open>q\<close> ignores the sender; no other
  user, no history and no other part of the room changes.\<close>

theorem private_stays_private:
  assumes "room_inv low w" and "admitted w m = Some i" and "To m = Some (Some q)"
  shows "\<exists>u'. HandleMsg run err_text line ord pick now m w = Some (w\<lparr>users := (users w)(q := u')\<rparr>) \<and>
    same_mail u' (if live now (Ignored (users w q)) (normalizer (Ignored (users w q)) i) = None
      then snd (Send (pick q) m (users w q)) else users w q)"
proof (intro exI conjI)
  show "HandleMsg run err_text line ord pick now m w =
      Some (w\<lparr>users := (users w)(q := mailed now (pick q) i m (users w q))\<rparr>)"
    by (simp add: HandleMsg_admitted [OF assms(1,2)] deliver_to_one [OF assms(3)] upd_user_def)
qed (rule mailed_mail)

theorem private_stays_private_witness:
  "\<exists>u'. HandleMsg (\<lambda>m w. None) (\<lambda>e. []) (\<lambda>m. []) rev (\<lambda>p. False) 5 (PrivateMsg_ptr ''hi'' 3 (Some 0) (Some 1)) ex_world
      = Some (ex_world\<lparr>users := (users ex_world)(1 := u')\<rparr>) \<and> msg u' = [PrivateMsg_ptr ''hi'' 3 (Some 0) (Some 1)]"
proof -
  have adm: "admitted ex_world (PrivateMsg_ptr ''hi'' 3 (Some 0) (Some 1)) = Some ''al''"
    by (simp add: admitted_def ex_member_at ex_norm)
  have "Send False m (users ex_world 1) = (None, (users ex_world 1)\<lparr>msg := [m]\<rparr>)" "Ignored (users ex_world 1) = New id" for m
    by (simp_all add: Send_cases ex_world_def NewUser_def messageBuffer_def)
  then show ?thesis
    using private_stays_private [OF ex_inv adm, of 1 "\<lambda>m w. None" "\<lambda>e. []" "\<lambda>m. []" rev "\<lambda>p. False" 5]
    by (auto simp: same_mail_def live_New)
qed

text \<open>C16: only members speak, and the muted only to themselves. A message under a name
  that no member has changes nothing. One under the name of a muted member is
  dropped when it is a command, and otherwise is sent back to that member alone,
  whatever kind it is and whoever it is for.\<close>

theorem guard_silences:
  assumes "room_inv low w" and "From m = Some (Some p)" and "uID w p \<noteq> []" and "admitted w m = None"
  shows "HandleMsg run err_text line ord pick now m w =
    Some (case member_at w (uID w p) of
        None \<Rightarrow> w
      | Some k \<Rightarrow>
          (case m of CommandMsg b t f c args \<Rightarrow> w
           | _ \<Rightarrow> upd_user (m_user (members w k)) (\<lambda>u. snd (Send (pick (m_user (members w k))) m u)) w))"
  by (rule guard_eq [OF assms])

theorem guard_silences_witness:
  "HandleMsg (\<lambda>m w. None) (\<lambda>e. []) (\<lambda>m. []) rev (\<lambda>p. False) 5 (PublicMsg ''hi'' 3 (Some 1)) ex_world = Some ex_world"
proof -
  have "admitted ex_world (PublicMsg ''hi'' 3 (Some 1)) = None" "member_at ex_world (uID ex_world 1) = None"
    by (simp_all add: admitted_def ex_member_at ex_norm)
  then show ?thesis
    using guard_silences [OF ex_inv, of "PublicMsg ''hi'' 3 (Some 1)" 1 "\<lambda>m w. None" "\<lambda>e. []" "\<lambda>m. []" rev "\<lambda>p. False" 5]
    by simp
qed

lemma member_at_announced [simp]: "member_at (announced now s w) = member_at w"
  by (rule ext, rule member_at_cong) simp

text \<open>joining. A user whose name is not empty and that no member has, up to case,
  becomes a member under it: the new member is found under that name in any case,
  everybody else is found as before, the announcement with the new number of
  members is queued, and the user, alone, is sent the history, oldest first.\<close>

theorem Join_adds:
  assumes "room_inv low w" and "uID w p \<noteq> []" and "member_at w (uID w p) = None" and "closed (the_room w) = False"
  shows "\<exists>w'. Join pick now p w = Some (Inr (next_mid w), w') \<and> room_inv low w' \<and>
    members w' (next_mid w) = \<lparr>m_user = p, is_op = False, isMuted = False\<rparr> \<and>
    member_at w' = (\<lambda>i. if normalize low i = normalize low (uID w p) then Some (next_mid w) else member_at w i) \<and>
    broadcast (the_room w') = broadcast (the_room w) @
      [AnnounceMsg (uName w p @ '' joined. (Connected: '' @ Itoa (Len (Members (the_room w)) + 1) @ '')'') now] \<and>
    users w' = (users w)(p := fold (\<lambda>m u. snd (Send (pick p) m u))
      (rev (history_recent (r_history (the_room w)))) (users w p))"
proof -
  let ?hist = "fold (\<lambda>m u. snd (Send (pick p) m u)) (rev (history_recent (r_history (the_room w))))"
  let ?txt = "uName w p @ '' joined. (Connected: '' @ Itoa (Len (Members (the_room w)) + 1) @ '')''"
  let ?w = "announced now ?txt (upd_user p ?hist (seated low p w))"
  have "room_inv low ?w"
    by (intro room_inv_announced room_inv_upd_user room_inv_seated [OF assms(1)]) simp
  moreover have "member_at ?w = (\<lambda>i. if normalize low i = normalize low (uID w p) then Some (next_mid w) else member_at w i)"
    using member_at_seated [OF assms(1)] member_at_cong [of ?w "seated low p w"] by (simp add: fun_eq_iff)
  moreover have "users ?w = (users w)(p := ?hist (users w p))"
    by (simp add: upd_user_def seated_def)
  ultimately show ?thesis
    using Join_fresh [OF assms(1-3), of pick now] assms(4) by (simp add: seated_def)
qed

theorem Join_adds_witness:
  "\<exists>w'. Join (\<lambda>p. False) 9 1 ex_world = Some (Inr 1, w') \<and> member_at w' ''bob'' = Some 1 \<and> member_at w' ''al'' = Some 0"
  using Join_adds [OF ex_inv, of 1 "\<lambda>p. False" 9] by (auto simp: ex_member_at ex_norm)

text \<open>joining is refused without a trace: an empty name is invalid, a name that a
  member has in any case collides, and then no user and nothing of the room
  changes.\<close>

theorem Join_refuses:
  assumes "room_inv low w" and "uID w p = [] \<or> member_at w (uID w p) \<noteq> None"
  shows "\<exists>w'. Join pick now p w = Some (Inl (if uID w p = [] then ErrInvalidName else ErrCollision), w') \<and>
    users w' = users w \<and> the_room w' = the_room w"
proof (cases "uID w p = []")
  case True
  then show ?thesis by (simp add: Join_def)
next
  case False
  then obtain k where "member_at w (uID w p) = Some k" using assms(2) by auto
  from Join_collision [OF assms(1) False this] False show ?thesis by simp
qed

theorem Join_refuses_witness:
  "\<exists>w'. Join (\<lambda>p. False) 9 0 ex_world = Some (Inl ErrCollision, w') \<and> the_room w' = the_room ex_world"
  using Join_refuses [OF ex_inv, of 0 "\<lambda>p. False" 9] by (auto simp: ex_member_at ex_norm)

text \<open>leaving undoes joining: after a user has joined, \<open>Leave\<close> finds exactly the
  members from before under every name, and announces it.\<close>

theorem Leave_after_Join:
  assumes "room_inv low w" and "uID w p \<noteq> []" and "member_at w (uID w p) = None" and "closed (the_room w) = False"
    and "Join pick now p w = Some (Inr k, w1)"
  shows "\<exists>w'. Leave human now' p w1 = Some (None, w') \<and> room_inv low w' \<and> member_at w' = member_at w \<and>
    length (broadcast (the_room w')) = length (broadcast (the_room w)) + 2"
proof -
  let ?hist = "fold (\<lambda>m u. snd (Send (pick p) m u)) (rev (history_recent (r_history (the_room w))))"
  let ?txt = "uName w p @ '' joined. (Connected: '' @ Itoa (Len (Members (the_room w)) + 1) @ '')''"
  let ?w = "announced now ?txt (upd_user p ?hist (seated low p w))"
  have w1: "w1 = ?w" "k = next_mid w"
    using Join_fresh [OF assms(1-3), of pick now] assms(4,5) by simp_all
  have inv: "room_inv low w1"
    unfolding w1 by (intro room_inv_announced room_inv_upd_user room_inv_seated [OF assms(1)]) simp
  have look: "member_at w1 i = (if normalize low i = normalize low (uID w p) then Some k else member_at w i)" for i
    using member_at_seated [OF assms(1)] member_at_cong [of ?w "seated low p w"] by (simp add: w1)
  have id: "uID w1 p = uID w p"
    by (simp add: w1 upd_user_ident) (simp add: seated_def)
  then have "member_at w1 (uID w1 p) = Some k" by (simp add: look)
  from Leave_present [OF inv this, of human now']
  obtain s where leave: "Leave human now' p w1 = Some (None, announced now' s (vacated low (uID w p) w1))"
    using assms(4) id by (simp add: w1 seated_def)
  have "member_at w i = None" if "normalize low i = normalize low (uID w p)" for i
    using assms(3) that by (simp add: member_at_None [OF assms(1)])
  then have "member_at (vacated low (uID w p) w1) = member_at w"
    by (auto simp: member_at_vacated [OF inv] look fun_eq_iff)
  moreover have "room_inv low (announced now' s (vacated low (uID w p) w1))"
    by (intro room_inv_announced room_inv_vacated inv)
  ultimately show ?thesis using leave by (simp add: w1 vacated_def seated_def)
qed

theorem Leave_after_Join_witness:
  "\<exists>w1 w'. Join (\<lambda>p. False) 9 1 ex_world = Some (Inr 1, w1) \<and> Leave (\<lambda>t. ''1s'') 10 1 w1 = Some (None, w') \<and>
    member_at w' = member_at ex_world"
proof -
  obtain w1 where "Join (\<lambda>p. False) 9 1 ex_world = Some (Inr 1, w1)"
    using Join_fresh [OF ex_inv, of 1 "\<lambda>p. False" 9] by (auto simp: ex_member_at ex_norm)
  with Leave_after_Join [OF ex_inv _ _ _ this, of "\<lambda>t. ''1s''" 10] show ?thesis by (auto simp: ex_member_at ex_norm)
qed

text \<open>a closed room cannot be used: a message sent to it, a user who joins it with
  a free name and one who leaves it all make the program panic, since they send
  on the closed channel; nothing returns the error \<open>ErrRoomClosed\<close>.\<close>

theorem closed_room_panics:
  assumes "room_inv low w" and "closed (the_room w)" and "uID w p \<noteq> []"
  shows "Room_Send m w = None \<and>
    (if member_at w (uID w p) = None then Join pick now p w = None else Leave human now p w = None)"
  using assms Join_fresh [OF assms(1,3), of pick now] Leave_present [OF assms(1), of p _ human now]
  by (auto simp: Room_Send_def)

theorem closed_room_panics_witness:
  "Join (\<lambda>p. False) 9 1 (upd_room (\<lambda>r. r\<lparr>closed := True\<rparr>) ex_world) = None"
proof -
  let ?w = "upd_room (\<lambda>r. r\<lparr>closed := True\<rparr>) ex_world"
  have simps: "users ?w = users ex_world" "members ?w = members ex_world" "next_mid ?w = 1"
    "the_room ?w = (the_room ex_world)\<lparr>closed := True\<rparr>"
    by (simp_all add: upd_room_def)
  have "entry_of ?w = entry_of ex_world" by (simp add: entry_of_def uID_def simps fun_eq_iff)
  then have "room_inv id ?w" using ex_inv by (simp add: room_inv_def simps)
  moreover have "uID ?w 1 = ''bob''" "member_at ?w ''bob'' = None"
    using ex_uID [of 1] ex_member_at [of "''bob''"] by (simp_all add: uID_def member_at_def simps ex_norm)
  ultimately show ?thesis
    using closed_room_panics [of id ?w 1 undefined "\<lambda>p. False" 9] by (simp add: simps)
qed

end
