(* ===== verification/Commands.thy ===== *)
theory Commands
  imports Room Sanitize "HOL-Library.List_Lexorder" "HOL-Library.Char_ord"
begin

text \<open>
  The commands of the chat (\<open>chat/command.go\<close>) and their help text
  (\<open>chat/help.go\<close>): the registry, one definition per handler, and the table
  that \<open>InitCommands\<close> fills.

  A handler returns \<open>None\<close> when it panics, otherwise its error and the world
  after it. The type of what a registry holds as handler is a parameter, since the host
  adds its own; the handlers of the chat are the values of \<open>chat_handler\<close>.
  \<open>OnChange\<close>, which \<open>SetConfig\<close> and \<open>SetID\<close> call, is the host's.
\<close>

section \<open>The registry\<close>

record 'h command =
  Prefix :: string
  PrefixHelp :: string
  Help_text :: string
  cmd_Op :: bool
  Handler :: 'h

type_synonym 'h commands = "(string \<times> 'h command) list"

definition Commands_Add :: "'h command \<Rightarrow> 'h commands \<Rightarrow> go_error option \<times> 'h commands" where
  "Commands_Add cmd c =
    (if Prefix cmd = [] then (Some ErrMissingPrefix, c)
     else (None, AList.update (Prefix cmd) cmd c))"

definition Commands_Alias :: "string \<Rightarrow> string \<Rightarrow> 'h commands \<Rightarrow> go_error option \<times> 'h commands" where
  "Commands_Alias name alias c =
    (case map_of c name of
       None \<Rightarrow> (Some ErrInvalidCommand, c)
     | Some cmd \<Rightarrow> (None, AList.update alias cmd c))"

text \<open>\<open>call\<close> runs a handler for a user, a body and the arguments.\<close>

type_synonym ('h, 'w) caller = "'h \<Rightarrow> uid \<Rightarrow> string \<Rightarrow> string list \<Rightarrow> 'w world_scheme \<Rightarrow> (go_error option \<times> 'w world_scheme) option"

definition Commands_Run :: "('h, 'w) caller \<Rightarrow> 'h commands \<Rightarrow> Message \<Rightarrow> 'w world_scheme \<Rightarrow> (go_error option \<times> 'w world_scheme) option" where
  "Commands_Run call c m w =
    (case From m of
       Some (Some p) \<Rightarrow>
         (case map_of c (Command m) of
            None \<Rightarrow> Some (Some ErrInvalidCommand, w)
          | Some cmd \<Rightarrow> call (Handler cmd) p (Body m) (Args m) w)
     | _ \<Rightarrow> Some (Some ErrNoOwner, w))"

section \<open>Help\<close>

record help_doc =
  items :: "(string \<times> string) list"
  prefixWidth :: nat

definition help_add :: "string \<times> string \<Rightarrow> help_doc \<Rightarrow> help_doc" where
  "help_add item h =
    (let h = h\<lparr>items := items h @ [item]\<rparr> in
     if length (fst item) > prefixWidth h then h\<lparr>prefixWidth := length (fst item)\<rparr> else h)"

fun NewCommandsHelp_loop :: "'h command list \<Rightarrow> string list \<Rightarrow> help_doc \<Rightarrow> help_doc" where
  "NewCommandsHelp_loop [] seen h = h"
| "NewCommandsHelp_loop (cmd # cs) seen h =
    (if Help_text cmd = [] \<or> Prefix cmd \<in> set seen then NewCommandsHelp_loop cs seen h
     else NewCommandsHelp_loop cs (Prefix cmd # seen)
       (help_add (Prefix cmd @ '' '' @ PrefixHelp cmd, Help_text cmd) h))"

definition NewCommandsHelp :: "'h command list \<Rightarrow> help_doc" where
  "NewCommandsHelp c = NewCommandsHelp_loop c [] \<lparr>items = [], prefixWidth = 0\<rparr>"

text \<open>The verb \<open>%-Ns\<close> counts characters.\<close>

definition pad_right :: "nat \<Rightarrow> string \<Rightarrow> string" where
  "pad_right n s = s @ replicate (n - RuneCount s) (CHR '' '')"

definition help_String :: "help_doc \<Rightarrow> string" where
  "help_String h =
    GoStrings.Join (sort (map (\<lambda>item. pad_right (prefixWidth h) (fst item) @ '' - '' @ snd item) (items h))) Newline"

definition Commands_Help :: "sched \<Rightarrow> 'h commands \<Rightarrow> bool \<Rightarrow> string" where
  "Commands_Help ord c showOp =
    (let cmds = List.map_filter (map_of c) (ord (map fst c));
         op = filter cmd_Op cmds;
         normal = filter (\<lambda>cmd. \<not> cmd_Op cmd) cmds;
         help = ''Available commands:'' @ Newline @ help_String (NewCommandsHelp normal) in
     if showOp then help @ Newline @ ''-> Operator commands:'' @ Newline @ help_String (NewCommandsHelp op)
     else help)"

section \<open>What a handler reads from outside\<close>

text \<open>The clock, the order of a map, two random numbers, \<open>time.ParseDuration\<close>, and the
  help text of the room's registry.\<close>

record env =
  clock :: time
  order :: sched
  rand1 :: int
  rand2 :: int
  Parse_Duration :: "string \<Rightarrow> go_error + duration"
  help_for :: "bool \<Rightarrow> string"

type_synonym 'w chat_cmd = "env \<Rightarrow> uid \<Rightarrow> string \<Rightarrow> string list \<Rightarrow> 'w world_scheme \<Rightarrow> (go_error option \<times> 'w world_scheme) option"

definition reply :: "env \<Rightarrow> uid \<Rightarrow> string \<Rightarrow> 'w world_scheme \<Rightarrow> (go_error option \<times> 'w world_scheme) option" where
  "reply e p body w = do { w \<leftarrow> Room_Send (NewSystemMsg (clock e) body (Some p)) w; Some (None, w) }"

definition emote :: "env \<Rightarrow> uid \<Rightarrow> string \<Rightarrow> 'w world_scheme \<Rightarrow> (go_error option \<times> 'w world_scheme) option" where
  "emote e p body w = do { w \<leftarrow> Room_Send (NewEmoteMsg (clock e) body (Some p)) w; Some (None, w) }"

definition fail :: "string \<Rightarrow> 'w world_scheme \<Rightarrow> (go_error option \<times> 'w world_scheme) option" where
  "fail s w = Some (Some (Errorf s), w)"

definition config_of :: "'w world_scheme \<Rightarrow> uid \<Rightarrow> UserConfig" where
  "config_of w p = config (users w p)"

definition set_config :: "uid \<Rightarrow> UserConfig \<Rightarrow> 'w world_scheme \<Rightarrow> 'w world_scheme" where
  "set_config p cfg w = upd_user p (\<lambda>u. fst (SetConfig cfg u)) w"

section \<open>Handlers\<close>

definition cmd_help :: "'w chat_cmd" where
  "cmd_help e p body args w = do {
     (op, w) \<leftarrow> Room_IsOp (clock e) p w;
     reply e p (help_for e op) w
   }"

definition cmd_me :: "'w chat_cmd" where
  "cmd_me e p body args w =
    (let me = TrimLeft body ''/me'' in
     emote e p (case me of [] \<Rightarrow> ''is at a loss for words.'' | c # rest \<Rightarrow> rest) w)"

definition cmd_exit :: "'w chat_cmd" where
  "cmd_exit e p body args w = Some (None, upd_user p Close w)"

definition cmd_nick :: "'w chat_cmd" where
  "cmd_nick e p body args w =
    (case args of
       [name] \<Rightarrow> do {
         (found, w) \<leftarrow> MemberByID (clock e) (uID w p) w;
         (case found of
            None \<Rightarrow> fail ''failed to find member'' w
          | Some k \<Rightarrow>
              let q = m_user (members w k);
                  oldID = uID w q;
                  newID = Name name in
              if newID = oldID then fail ''new name is the same as the original'' w
              else do {
                let w = set_name (rand1 e) newID q w;
                (err, w) \<leftarrow> Rename (clock e) oldID k w;
                (case err of
                   Some err \<Rightarrow> Some (Some err, set_name (rand2 e) oldID q w)
                 | None \<Rightarrow> Some (None, w))
              })
       }
     | _ \<Rightarrow> Some (Some ErrMissingArg, w))"

definition cmd_names :: "'w chat_cmd" where
  "cmd_names e p body args w =
    (case ListPrefix (order e) (clock e) [] (Members (the_room w)) of
       (found, s) \<Rightarrow> do {
         let w = set_Members s w;
         us \<leftarrow> those (map (\<lambda>it. map_option (\<lambda>k. users w (m_user (members w k))) (as_member (Value (clock e) it)))
           (sort_key Key found));
         colNames \<leftarrow> those (map (\<lambda>u. case cfg_Theme (config_of w p) of
            None \<Rightarrow> Some (DisplayName (ident_of u)) | Some theme \<Rightarrow> ColorName theme u) us);
         reply e p (Itoa (length colNames) @ '' connected: '' @ GoStrings.Join colNames '', '') w
       })"

definition cmd_theme :: "'w chat_cmd" where
  "cmd_theme e p body args w =
    (let cfg = config_of w p in
     case args of
       [] \<Rightarrow>
         let theme = (case cfg_Theme cfg of None \<Rightarrow> ''plain'' | Some t \<Rightarrow> theme_id t) in
         reply e p (''Current theme: '' @ theme @ Newline @ ''   Themes available: '' @
           GoStrings.Join (map theme_id Themes) '', '') w
     | i # _ \<Rightarrow>
         (case find (\<lambda>t. theme_id t = i) Themes of
            Some t \<Rightarrow> reply e p (''Set theme: '' @ i) (set_config p (cfg\<lparr>cfg_Theme := Some t\<rparr>) w)
          | None \<Rightarrow> fail ''theme not found'' w))"

definition cmd_quiet :: "'w chat_cmd" where
  "cmd_quiet e p body args w =
    (let cfg = config_of w p;
         cfg = cfg\<lparr>Quiet := \<not> Quiet cfg\<rparr> in
     reply e p (if Quiet cfg then ''Quiet mode is toggled ON'' else ''Quiet mode is toggled OFF'')
       (set_config p cfg w))"

definition cmd_slap :: "'w chat_cmd" where
  "cmd_slap e p body args w =
    emote e p (if args = [] then ''slaps themselves around a bit with a large trout.''
      else ''slaps '' @ GoStrings.Join args '' '' @ '' around a bit with a large trout.'') w"

definition cmd_shrug :: "'w chat_cmd" where
  "cmd_shrug e p body args w =
    emote e p ([byte 0xC2, byte 0xAF, byte 0x5C] @ ''_('' @ [byte 0xE3, byte 0x83, byte 0x84] @ '')_/'' @
      [byte 0xC2, byte 0xAF]) w"


text \<open>The time zone of an offset in seconds, as the layout \<open>MST\<close> prints it; \<open>%q\<close> of it
  only adds the quotes. \<open>Seconds\<close> of a duration as an integer drops the fraction
  (its \<open>float64\<close> is exact enough for that below \<open>2 ^ 22\<close> seconds).\<close>

definition go_quot :: "int \<Rightarrow> int \<Rightarrow> int" where
  "go_quot a b = sgn a * sgn b * (\<bar>a\<bar> div \<bar>b\<bar>)"

definition two_digits :: "nat \<Rightarrow> string" where
  "two_digits n = (if n < 10 then ''0'' @ Itoa n else Itoa n)"

definition tz_name :: "int \<Rightarrow> string" where
  "tz_name off =
    (let zone = go_quot off 60; z = nat \<bar>zone\<bar> in
     (if zone < 0 then ''-'' else ''+'') @ two_digits (z div 60) @ two_digits (z mod 60))"

definition timeformatDatetime :: string where
  "timeformatDatetime = ''2006-01-02 15:04:05''"

definition timeformatTime :: string where
  "timeformatTime = ''15:04''"

text \<open>The switch on the mode of a time stamp; \<open>None\<close> is its default.\<close>

definition timestamp_mode :: "string \<Rightarrow> string option \<Rightarrow> string option option" where
  "timestamp_mode mode old =
    (if mode = ''time'' then Some (Some timeformatTime)
     else if mode = ''datetime'' then Some (Some timeformatDatetime)
     else if mode = [] then Some (if old \<noteq> None then None else Some timeformatTime)
     else if mode = ''off'' then Some None
     else None)"

definition cmd_timestamp :: "'w chat_cmd" where
  "cmd_timestamp e p body args w =
    (let cfg = config_of w p;
         mode = (case args of [] \<Rightarrow> [] | a # _ \<Rightarrow> a) in
     case (case args of
         _ # z # _ \<Rightarrow>
           (case Parse_Duration e z of
              Inl err \<Rightarrow> Inl err
            | Inr offset \<Rightarrow> Inr (cfg\<lparr>Timezone := Some (go_quot offset time_Second)\<rparr>))
       | _ \<Rightarrow> Inr cfg) of
       Inl err \<Rightarrow> Some (Some err, w)
     | Inr cfg \<Rightarrow>
         (case timestamp_mode mode (Timeformat cfg) of
            None \<Rightarrow> fail ''timestamp value must be one of: time, datetime, off'' w
          | Some tf \<Rightarrow>
              let cfg = cfg\<lparr>Timeformat := tf\<rparr> in
              reply e p
                (case (Timeformat cfg, Timezone cfg) of
                   (Some f, Some z) \<Rightarrow> ''Timestamp is toggled ON, timezone is '' @ [byte 34] @ tz_name z @ [byte 34]
                 | (Some f, None) \<Rightarrow> ''Timestamp is toggled ON, timezone is UTC''
                 | (None, _) \<Rightarrow> ''Timestamp is toggled OFF'')
                (set_config p cfg w)))"

text \<open>The keys of the items of a set, and what stands after the name of a command.\<close>

definition key_list :: "env \<Rightarrow> set_value goset \<Rightarrow> string list \<times> set_value goset" where
  "key_list e s = (case Each (order e) (clock e) (\<lambda>k it r. (None, r @ [Key it])) s [] of (_, r, s) \<Rightarrow> (r, s))"

definition rest_of :: "string \<Rightarrow> string \<Rightarrow> string" where
  "rest_of body name = TrimSpace (TrimLeft body name)"

definition set_ignored :: "uid \<Rightarrow> set_value goset \<Rightarrow> 'w world_scheme \<Rightarrow> 'w world_scheme" where
  "set_ignored p s w = upd_user p (\<lambda>u. u\<lparr>Ignored := s\<rparr>) w"

definition set_focused :: "uid \<Rightarrow> set_value goset \<Rightarrow> 'w world_scheme \<Rightarrow> 'w world_scheme" where
  "set_focused p s w = upd_user p (\<lambda>u. u\<lparr>Focused := s\<rparr>) w"

definition cmd_ignore :: "'w chat_cmd" where
  "cmd_ignore e p body args w =
    (let i = rest_of body ''/ignore'' in
     if i = [] then
       (case key_list e (Ignored (users w p)) of
          (ns, s) \<Rightarrow>
            reply e p (if ns = [] then ''0 users ignored.''
              else Itoa (length ns) @ '' ignored: '' @ GoStrings.Join ns '', '') (set_ignored p s w))
     else if i = uID w p then fail ''cannot ignore self'' w
     else do {
       (found, w) \<leftarrow> MemberByID (clock e) i w;
       (case found of
          None \<Rightarrow> fail (''user not found: '' @ i) w
        | Some k \<Rightarrow>
            (case Add (clock e) (Itemize i (Some (MemberPtr k))) (Ignored (users w p)) of
               (Some err, s) \<Rightarrow>
                 if err = ErrCollision then fail (''user already ignored: '' @ i) (set_ignored p s w)
                 else Some (Some err, set_ignored p s w)
             | (None, s) \<Rightarrow> reply e p (''Ignoring: '' @ uName w (m_user (members w k))) (set_ignored p s w)))
     })"

definition cmd_unignore :: "'w chat_cmd" where
  "cmd_unignore e p body args w =
    (let i = rest_of body ''/unignore'' in
     if i = [] then fail ''must specify user'' w
     else (case Remove i (Ignored (users w p)) of
       (Some err, s) \<Rightarrow> Some (Some err, set_ignored p s w)
     | (None, s) \<Rightarrow> reply e p (''No longer ignoring: '' @ i) (set_ignored p s w)))"

fun focus_loop :: "string list \<Rightarrow> set_value goset \<Rightarrow> string list \<Rightarrow> go_error option \<times> set_value goset \<times> string list" where
  "focus_loop [] s focused = (None, s, focused)"
| "focus_loop (name # ns) s focused =
    (let i = Name name in
     if i = [] then focus_loop ns s focused
     else case Set (Itemize i (Some ZeroValue)) s of
       (Some err, s) \<Rightarrow> (Some err, s, focused @ [i])
     | (None, s) \<Rightarrow> focus_loop ns s (focused @ [i]))"

definition cmd_focus :: "'w chat_cmd" where
  "cmd_focus e p body args w =
    (let ids = rest_of body ''/focus'' in
     if ids = [] then
       (case key_list e (Focused (users w p)) of
          (ns, s) \<Rightarrow>
            reply e p (if ns = [] then ''Unfocused.''
              else ''Focusing on '' @ Itoa (length ns) @ '' users: '' @ GoStrings.Join ns '', '') (set_focused p s w))
     else case Clear (Focused (users w p)) of
       (n, s) \<Rightarrow>
         if ids = ''$'' then reply e p (''Removed focus from '' @ Itoa n @ '' users.'') (set_focused p s w)
         else (case focus_loop (Split ids (CHR '' '')) s [] of
             (Some err, s, focused) \<Rightarrow> Some (Some err, set_focused p s w)
           | (None, s, focused) \<Rightarrow> reply e p (''Focusing: '' @ GoStrings.Join focused '', '') (set_focused p s w)))"

definition cmd_away :: "'w chat_cmd" where
  "cmd_away e p body args w =
    (let awayMsg = rest_of body ''/away'';
         isAway = fst (GetAway (users w p));
         w = upd_user p (SetAway (clock e) awayMsg) w in
     if awayMsg \<noteq> [] then emote e p (''has gone away: '' @ awayMsg) w
     else if isAway then emote e p ''is back.'' w
     else fail ''not away. Append a reason message to set away'' w)"

definition cmd_back :: "'w chat_cmd" where
  "cmd_back e p body args w =
    (if fst (GetAway (users w p)) then emote e p ''is back.'' (upd_user p (SetAway (clock e) []) w)
     else fail ''must be away to be back'' w)"

definition cmd_mute :: "'w chat_cmd" where
  "cmd_mute e p body args w = do {
     (op, w) \<leftarrow> Room_IsOp (clock e) p w;
     if \<not> op then fail ''must be op'' w
     else (case args of
       [] \<Rightarrow> fail ''must specify user'' w
     | i # _ \<Rightarrow> do {
         (found, w) \<leftarrow> MemberByID (clock e) i w;
         (case found of
            None \<Rightarrow> fail ''user not found'' w
          | Some k \<Rightarrow>
              let setMute = (\<not> IsMuted w k);
                  w = SetMute k setMute w;
                  i = uID w (m_user (members w k)) in
              reply e p (if setMute then ''Muted: '' @ i else ''Unmuted: '' @ i) w)
       })
   }"

section \<open>The table\<close>

datatype chat_handler =
    H_help | H_me | H_exit | H_nick | H_names | H_theme | H_quiet | H_slap | H_shrug | H_timestamp
  | H_ignore | H_unignore | H_focus | H_away | H_back | H_mute

fun chat_call :: "chat_handler \<Rightarrow> 'w chat_cmd" where
  "chat_call H_help = cmd_help"
| "chat_call H_me = cmd_me"
| "chat_call H_exit = cmd_exit"
| "chat_call H_nick = cmd_nick"
| "chat_call H_names = cmd_names"
| "chat_call H_theme = cmd_theme"
| "chat_call H_quiet = cmd_quiet"
| "chat_call H_slap = cmd_slap"
| "chat_call H_shrug = cmd_shrug"
| "chat_call H_timestamp = cmd_timestamp"
| "chat_call H_ignore = cmd_ignore"
| "chat_call H_unignore = cmd_unignore"
| "chat_call H_focus = cmd_focus"
| "chat_call H_away = cmd_away"
| "chat_call H_back = cmd_back"
| "chat_call H_mute = cmd_mute"

text \<open>\<open>reg\<close> registers a command, \<open>reg_alias\<close> an alias; the calls of \<open>InitCommands\<close>
  in their order. \<open>h\<close> embeds the chat's handlers into those of the registry.\<close>

definition reg :: "string \<Rightarrow> string \<Rightarrow> string \<Rightarrow> bool \<Rightarrow> 'h \<Rightarrow> 'h commands \<Rightarrow> 'h commands" where
  "reg pre prehelp hlp op h c =
    snd (Commands_Add \<lparr>Prefix = pre, PrefixHelp = prehelp, Help_text = hlp, cmd_Op = op, Handler = h\<rparr> c)"

definition reg_alias :: "string \<Rightarrow> string \<Rightarrow> 'h commands \<Rightarrow> 'h commands" where
  "reg_alias name alias c = snd (Commands_Alias name alias c)"

definition InitCommands :: "(chat_handler \<Rightarrow> 'h) \<Rightarrow> 'h commands \<Rightarrow> 'h commands" where
  "InitCommands h c = fold (\<lambda>f. f)
    [reg ''/help'' [] [] False (h H_help),
     reg ''/me'' [] [] False (h H_me),
     reg ''/exit'' [] ''Exit the chat.'' False (h H_exit),
     reg_alias ''/exit'' ''/quit'',
     reg ''/nick'' ''NAME'' ''Rename yourself.'' False (h H_nick),
     reg ''/names'' [] ''List users who are connected.'' False (h H_names),
     reg_alias ''/names'' ''/list'',
     reg ''/theme'' ''[colors|...]'' ''Set your color theme.'' False (h H_theme),
     reg ''/quiet'' [] ''Silence room announcements.'' False (h H_quiet),
     reg ''/slap'' ''NAME'' [] False (h H_slap),
     reg ''/shrug'' [] [] False (h H_shrug),
     reg ''/timestamp'' ''[time|datetime]''
       ''Prefix messages with a timestamp. You can also provide the UTC offset: /timestamp time +5h45m''
       False (h H_timestamp),
     reg ''/ignore'' ''[USER]'' ''Hide messages from USER, /unignore USER to stop hiding.'' False (h H_ignore),
     reg ''/unignore'' ''USER'' [] False (h H_unignore),
     reg ''/focus'' ''[USER ...]'' ''Only show messages from focused users, or $ to reset.'' False (h H_focus),
     reg ''/away'' ''[REASON]'' ''Set away reason, or empty to unset.'' False (h H_away),
     reg ''/back'' [] ''Clear away status.'' False (h H_back),
     reg ''/mute'' ''USER'' ''Toggle muting USER, preventing messages from broadcasting.'' True (h H_mute)] c"

definition defaultCommands :: "chat_handler commands" where
  "defaultCommands = InitCommands (\<lambda>h. h) []"

section \<open>The invariant of the chat\<close>

definition user_wf :: "(rune \<Rightarrow> rune) \<Rightarrow> user \<Rightarrow> bool" where
  "user_wf low u \<longleftrightarrow> (case ident_of u of Identity i s \<Rightarrow> True | SimpleID i \<Rightarrow> False) \<and> 0 \<le> colorIdx u \<and>
    builtin (cfg_Theme (config u)) \<and>
    set_inv (Ignored u) \<and> normalizer (Ignored u) = normalize low \<and>
    set_inv (Focused u) \<and> normalizer (Focused u) = normalize low"

definition chat_inv :: "(rune \<Rightarrow> rune) \<Rightarrow> 'w world_scheme \<Rightarrow> bool" where
  "chat_inv low w \<longleftrightarrow> room_inv low w \<and> (\<forall>p. user_wf low (users w p)) \<and> closed (the_room w) = False \<and>
    list_all no_nil (broadcast (the_room w)) \<and> list_all no_nil (spawned w)"

text \<open>A handler that returned, in a state with the invariant.\<close>

definition okay :: "(rune \<Rightarrow> rune) \<Rightarrow> (go_error option \<times> 'w world_scheme) option \<Rightarrow> bool" where
  "okay low r \<longleftrightarrow> (case r of None \<Rightarrow> False | Some (err, w) \<Rightarrow> chat_inv low w)"

lemma okay_Some [simp]: "okay low (Some (err, w)) = chat_inv low w"
  by (simp add: okay_def)

lemma chat_room: "chat_inv low w \<Longrightarrow> room_inv low w"
  by (simp add: chat_inv_def)

lemma chat_user: "chat_inv low w \<Longrightarrow> user_wf low (users w p)"
  by (simp add: chat_inv_def)

lemma user_wf_name: "user_wf low (users w p) \<Longrightarrow> has_name w p"
  by (simp add: user_wf_def has_name_def)

lemma chat_upd_user:
  assumes "chat_inv low w" and "user_wf low (f (users w p))" and "ident_of (f (users w p)) = ident_of (users w p)"
  shows "chat_inv low (upd_user p f w)"
  using assms room_inv_upd_user [of low w f p] by (simp add: chat_inv_def)

lemma okay_fail: "chat_inv low w \<Longrightarrow> okay low (fail s w)"
  by (simp add: fail_def)

lemma chat_sent:
  assumes "chat_inv low w" and "no_nil m"
  shows "\<exists>w'. Room_Send m w = Some w' \<and> chat_inv low w'"
proof -
  let ?w = "upd_room (\<lambda>r. r\<lparr>broadcast := broadcast r @ [m]\<rparr>) w"
  have "Room_Send m w = Some ?w" using assms(1) by (simp add: Room_Send_def chat_inv_def)
  moreover have "entry_of ?w = entry_of w" by (simp add: upd_room_def entry_of_def uID_def fun_eq_iff)
  then have "chat_inv low ?w"
    using assms by (simp add: chat_inv_def room_inv_def upd_room_def)
  ultimately show ?thesis by blast
qed

lemma okay_reply: "chat_inv low w \<Longrightarrow> okay low (reply e p s w)"
  using chat_sent [of low w "SystemMsg s (clock e) (Some p)"]
  by (auto simp: reply_def NewSystemMsg_def no_nil_def)

lemma okay_emote: "chat_inv low w \<Longrightarrow> okay low (emote e p s w)"
  using chat_sent [of low w "EmoteMsg s (clock e) (Some p)"]
  by (auto simp: emote_def NewEmoteMsg_def no_nil_def)

lemmas okay_intro = okay_fail okay_reply okay_emote

lemma IsOp_eq:
  assumes "room_inv low w"
  shows "Room_IsOp now p w =
    Some (case member_at w (uID w p) of Some k \<Rightarrow> m_user (members w k) = p \<and> is_op (members w k) | None \<Rightarrow> False, w)"
  by (simp add: Room_IsOp_def Room_Member_def MemberByID_eq [OF assms] split: option.split)

lemma chat_set_config:
  assumes "chat_inv low w" and "builtin (cfg_Theme cfg)"
  shows "chat_inv low (set_config p cfg w)"
  unfolding set_config_def
  by (rule chat_upd_user [OF assms(1)])
     (use chat_user [OF assms(1), of p] assms(2) in \<open>simp_all add: user_wf_def SetConfig_def\<close>)

lemma chat_config: "chat_inv low w \<Longrightarrow> builtin (cfg_Theme (config_of w p))"
  using chat_user [of low w p] by (simp add: user_wf_def config_of_def)

lemma chat_set_ignored:
  "chat_inv low w \<Longrightarrow> set_inv s \<Longrightarrow> normalizer s = normalize low \<Longrightarrow> chat_inv low (set_ignored p s w)"
  unfolding set_ignored_def
  by (rule chat_upd_user) (use chat_user [of low w p] in \<open>simp_all add: user_wf_def\<close>)

lemma chat_set_focused:
  "chat_inv low w \<Longrightarrow> set_inv s \<Longrightarrow> normalizer s = normalize low \<Longrightarrow> chat_inv low (set_focused p s w)"
  unfolding set_focused_def
  by (rule chat_upd_user) (use chat_user [of low w p] in \<open>simp_all add: user_wf_def\<close>)

lemma chat_sets:
  "chat_inv low w \<Longrightarrow> set_inv (Ignored (users w p))" "chat_inv low w \<Longrightarrow> normalizer (Ignored (users w p)) = normalize low"
  "chat_inv low w \<Longrightarrow> set_inv (Focused (users w p))" "chat_inv low w \<Longrightarrow> normalizer (Focused (users w p)) = normalize low"
  using chat_user [of low w p] by (simp_all add: user_wf_def)

lemma chat_set_name:
  assumes "chat_inv low w" and "0 \<le> rnd"
  shows "user_wf low (users (set_name rnd new p w) q)"
  using chat_user [OF assms(1), of q] assms(2)
  by (auto simp: set_name_def user_wf_def User_SetID_def setColorIdx_def split: Identifier.splits)

section \<open>Every handler\<close>

lemma okay_help: "chat_inv low w \<Longrightarrow> okay low (cmd_help e p body args w)"
  by (simp add: cmd_help_def IsOp_eq [OF chat_room] okay_reply)

lemma okay_me: "chat_inv low w \<Longrightarrow> okay low (cmd_me e p body args w)"
  by (simp add: cmd_me_def okay_emote)

lemma okay_exit: "chat_inv low w \<Longrightarrow> okay low (cmd_exit e p body args w)"
  using chat_upd_user [of low w Close p] chat_user [of low w p] by (simp add: cmd_exit_def user_wf_def)

lemma okay_quiet: "chat_inv low w \<Longrightarrow> okay low (cmd_quiet e p body args w)"
  using chat_config [of low w p] by (simp add: cmd_quiet_def Let_def okay_reply chat_set_config)

lemma okay_slap: "chat_inv low w \<Longrightarrow> okay low (cmd_slap e p body args w)"
  by (simp add: cmd_slap_def okay_emote)

lemma okay_shrug: "chat_inv low w \<Longrightarrow> okay low (cmd_shrug e p body args w)"
  by (simp add: cmd_shrug_def okay_emote)

lemma okay_theme: "chat_inv low w \<Longrightarrow> okay low (cmd_theme e p body args w)"
  by (auto simp: cmd_theme_def Let_def okay_intro chat_set_config builtin_def find_Some_iff
      split: list.split option.split)

lemma okay_timestamp: "chat_inv low w \<Longrightarrow> okay low (cmd_timestamp e p body args w)"
  using chat_config [of low w p]
  by (auto simp: cmd_timestamp_def Let_def okay_intro chat_set_config split: list.split sum.split option.split)

lemma chat_SetAway: "chat_inv low w \<Longrightarrow> chat_inv low (upd_user p (SetAway t s) w)"
  by (rule chat_upd_user) (use chat_user [of low w p] in \<open>simp_all add: user_wf_def SetAway_def\<close>)

lemma okay_away: "chat_inv low w \<Longrightarrow> okay low (cmd_away e p body args w)"
  by (simp add: cmd_away_def Let_def okay_intro chat_SetAway)

lemma okay_back: "chat_inv low w \<Longrightarrow> okay low (cmd_back e p body args w)"
  by (simp add: cmd_back_def okay_intro chat_SetAway)

lemma key_list_set:
  assumes "chat_inv low w" and "key_list e s = (ns, s')" and "set_inv s" and "normalizer s = normalize low"
  shows "set_inv s'" and "normalizer s' = normalize low"
proof -
  have "s' = snd (snd (Each (order e) (clock e) (\<lambda>k it r. (None, r @ [Key it])) s []))"
    using assms(2) by (simp add: key_list_def case_prod_unfold)
  then show "set_inv s'" "normalizer s' = normalize low" using assms(3,4) by (simp_all add: set_inv_Each)
qed

lemma okay_ignore:
  assumes "chat_inv low w"
  shows "okay low (cmd_ignore e p body args w)"
proof (cases "rest_of body ''/ignore'' = []")
  case True
  obtain ns s where k: "key_list e (Ignored (users w p)) = (ns, s)" by fastforce
  then have "chat_inv low (set_ignored p s w)"
    using key_list_set [OF assms k] chat_sets [OF assms, of p] by (intro chat_set_ignored assms) auto
  with True k show ?thesis by (simp add: cmd_ignore_def okay_reply)
next
  case False
  let ?i = "rest_of body ''/ignore''"
  have "chat_inv low (set_ignored p (snd (Add (clock e) it (Ignored (users w p)))) w)" for it
    using chat_sets [OF assms, of p] by (intro chat_set_ignored assms set_inv_Add) simp_all
  note add = this
  have "okay low (case Add (clock e) it (Ignored (users w p)) of
      (Some err, s) \<Rightarrow> if err = ErrCollision then fail t (set_ignored p s w) else Some (Some err, set_ignored p s w)
    | (None, s) \<Rightarrow> reply e p u (set_ignored p s w))" for it t u
    using add [of it] by (auto simp: okay_intro split: prod.split option.split)
  then show ?thesis
    using False assms by (auto simp: cmd_ignore_def Let_def MemberByID_eq [OF chat_room [OF assms]] okay_intro split: option.split)
qed

lemma okay_unignore:
  assumes "chat_inv low w"
  shows "okay low (cmd_unignore e p body args w)"
proof -
  have "chat_inv low (set_ignored p (snd (Remove i (Ignored (users w p)))) w)" for i
    using chat_sets [OF assms, of p] by (intro chat_set_ignored assms set_inv_Remove) simp_all
  from this [of "rest_of body ''/unignore''"] show ?thesis
    using assms by (auto simp: cmd_unignore_def Let_def okay_intro split: prod.split option.split)
qed

lemma focus_loop_eq:
  "focus_loop ns s focused = (None, fold (\<lambda>i s. snd (Set (Itemize i (Some ZeroValue)) s)) (filter (\<lambda>i. i \<noteq> []) (map Name ns)) s,
    focused @ filter (\<lambda>i. i \<noteq> []) (map Name ns))"
  by (induction ns arbitrary: s focused) (simp_all add: Let_def Set_def)

lemma Sets_wf:
  "set_inv s \<Longrightarrow> set_inv (fold (\<lambda>i s. snd (Set (Itemize i (Some ZeroValue)) s)) is s)"
  "normalizer (fold (\<lambda>i s. snd (Set (Itemize i (Some ZeroValue)) s)) is s) = normalizer s"
  by (induction "is" arbitrary: s) (simp_all add: set_inv_Set)

lemma okay_focus:
  assumes "chat_inv low w"
  shows "okay low (cmd_focus e p body args w)"
proof (cases "rest_of body ''/focus'' = []")
  case True
  obtain ns s where k: "key_list e (Focused (users w p)) = (ns, s)" by fastforce
  then have "chat_inv low (set_focused p s w)"
    using key_list_set [OF assms k] chat_sets [OF assms, of p] by (intro chat_set_focused assms) auto
  with True k show ?thesis by (simp add: cmd_focus_def okay_reply)
next
  case False
  obtain n s where c: "Clear (Focused (users w p)) = (n, s)" by fastforce
  then have s: "set_inv s" "normalizer s = normalize low"
    using set_inv_Clear [of "Focused (users w p)"] chat_sets [OF assms, of p] by (auto simp: Clear_def)
  then have "chat_inv low (set_focused p s w)"
    and "chat_inv low (set_focused p (fold (\<lambda>i s. snd (Set (Itemize i (Some ZeroValue)) s)) is s) w)" for "is"
    using assms by (auto intro!: chat_set_focused Sets_wf(1) simp: Sets_wf(2))
  then show ?thesis
    using False by (simp add: cmd_focus_def Let_def c focus_loop_eq okay_reply)
qed

lemma chat_mute:
  assumes "chat_inv low w"
  shows "chat_inv low (SetMute k muted w)"
proof -
  let ?w = "SetMute k muted w"
  have same: "users ?w = users w" "the_room ?w = the_room w" "next_mid ?w = next_mid w" "spawned ?w = spawned w"
    by (simp_all add: SetMute_def upd_member_def)
  have "entry_of ?w = entry_of w"
    by (simp add: entry_of_def uID_def same fun_eq_iff) (simp add: SetMute_def upd_member_def)
  then show ?thesis using assms by (simp add: chat_inv_def room_inv_def same)
qed

lemma okay_mute: "chat_inv low w \<Longrightarrow> okay low (cmd_mute e p body args w)"
  by (auto simp: cmd_mute_def IsOp_eq [OF chat_room] MemberByID_eq [OF chat_room] Let_def okay_intro chat_mute
      split: list.split option.split)


lemma room_ListPrefix:
  assumes "room_inv low w" and "permuting ord"
  shows "snd (ListPrefix ord now pre (Members (the_room w))) = Members (the_room w)"
    and "it \<in> set (fst (ListPrefix ord now pre (Members (the_room w)))) \<Longrightarrow> \<exists>k\<in>room_mids w. it = entry_of w k"
proof -
  show "snd (ListPrefix ord now pre (Members (the_room w))) = Members (the_room w)"
    using ListPrefix_state [of ord now pre "Members (the_room w)"] room_cleanups [OF assms(1)] by auto
  assume "it \<in> set (fst (ListPrefix ord now pre (Members (the_room w))))"
  then obtain key where "map_of (lookup (Members (the_room w))) key = Some it"
    by (auto simp: ListPrefix_set [OF assms(2)] live_eq_Some)
  with room_inv_entry [OF assms(1) this] show "\<exists>k\<in>room_mids w. it = entry_of w k"
    by (auto simp: room_mids_def)
qed

lemma those_total: "(\<And>x. x \<in> set xs \<Longrightarrow> f x = Some (g x)) \<Longrightarrow> those (map f xs) = Some (map g xs)"
  by (induction xs) simp_all

lemma okay_names:
  assumes "chat_inv low w" and "permuting (order e)"
  shows "okay low (cmd_names e p body args w)"
proof -
  let ?L = "ListPrefix (order e) (clock e) [] (Members (the_room w))"
  define k where "k it = (SOME k. it = entry_of w k)" for it
  have k: "it = entry_of w (k it)" if "it \<in> set (fst ?L)" for it
    unfolding k_def using room_ListPrefix(2) [OF chat_room [OF assms(1)] assms(2) that] by (metis (mono_tags) someI)
  have us: "those (map (\<lambda>it. map_option (\<lambda>k. users w (m_user (members w k))) (as_member (Value (clock e) it)))
      (sort_key Key (fst ?L))) = Some (map (\<lambda>it. users w (m_user (members w (k it)))) (sort_key Key (fst ?L)))"
    by (rule those_total) (metis k entry_Value option.simps(9) set_sort)
  have "\<exists>s. (case cfg_Theme (config_of w p) of None \<Rightarrow> Some (DisplayName (ident_of (users w q)))
      | Some theme \<Rightarrow> ColorName theme (users w q)) = Some s" for q
    using chat_config [OF assms(1), of p] chat_user [OF assms(1), of q] builtin_ColorName [of _ "users w q"]
    by (auto simp: user_wf_def split: option.split)
  then obtain nm where nm: "(case cfg_Theme (config_of w p) of None \<Rightarrow> Some (DisplayName (ident_of (users w q)))
      | Some theme \<Rightarrow> ColorName theme (users w q)) = Some (nm q)" for q by metis
  have "those (map (\<lambda>u. case cfg_Theme (config_of w p) of None \<Rightarrow> Some (DisplayName (ident_of u))
      | Some theme \<Rightarrow> ColorName theme u) (map (\<lambda>q. users w q) qs)) = Some (map nm qs)" for qs
    unfolding map_map by (rule those_total) (simp add: nm)
  from this [of "map (\<lambda>it. m_user (members w (k it))) (sort_key Key (fst ?L))"] us
  show ?thesis
    using okay_reply [OF assms(1)] room_ListPrefix(1) [OF chat_room [OF assms(1)] assms(2), of "clock e" "[]"]
    by (simp add: cmd_names_def case_prod_unfold comp_def)
qed


text \<open>The member that a user's name belongs to, which is found under its own name.\<close>

lemma member_own_name:
  assumes "room_inv low w" and "member_at w i = Some k"
  shows "member_at w (uID w (m_user (members w k))) = Some k"
proof -
  have e: "map_of (lookup (Members (the_room w))) (normalize low i) = Some (entry_of w k)"
    using assms(2) by (simp add: member_at_Some [OF assms(1)])
  then show ?thesis using room_key [OF assms(1) e] by (simp add: member_at_Some [OF assms(1)])
qed

lemma chat_recolour:
  assumes "chat_inv low w" and "0 \<le> rnd"
  shows "chat_inv low (upd_user p (setColorIdx rnd) w)"
  by (rule chat_upd_user [OF assms(1)])
     (use chat_user [OF assms(1), of p] assms(2) in \<open>simp_all add: user_wf_def setColorIdx_def\<close>)

text \<open>What \<open>/nick\<close> does when the name is another one: it is refused, and only the colour
  of the member is another one, or the member has the new name.\<close>

lemma nick_refused:
  assumes "chat_inv low w" and "member_at w (uID w p) = Some k" and "q = m_user (members w k)"
    and "new = Name name" and "new \<noteq> uID w q"
    and "new = [] \<or> normalize low new \<noteq> normalize low (uID w q) \<and> member_at w new \<noteq> None"
  shows "cmd_nick e p body [name] w =
    Some (Some (if new = [] then ErrInvalidName else ErrCollision), upd_user q (setColorIdx (rand2 e)) w)"
proof -
  have inv: "room_inv low w" by (rule chat_room [OF assms(1)])
  have q: "has_name w q" by (rule user_wf_name [OF chat_user [OF assms(1)]])
  have "Rename (clock e) (uID w q) k (set_name (rand1 e) new q w) =
      Some (Some (if new = [] then ErrInvalidName else ErrCollision), set_name (rand1 e) new q w)"
    using Rename_empty [OF q, of k] Rename_taken [OF inv q, of k new "uID w q"] assms(3,6) by auto
  with assms(2-5) show ?thesis
    by (simp add: cmd_nick_def MemberByID_eq [OF inv] Let_def set_name_back [OF q [unfolded assms(3)]])
qed

lemma nick_taken_over:
  assumes "chat_inv low w" and "member_at w (uID w p) = Some k" and "q = m_user (members w k)"
    and "new = Name name" and "new \<noteq> uID w q" and "0 \<le> rand1 e"
    and "new \<noteq> []" and "normalize low new = normalize low (uID w q) \<or> member_at w new = None"
  shows "\<exists>w'. cmd_nick e p body [name] w = Some (None, announced (clock e) (uID w q @ '' is now known as '' @ new @ ''.'') w') \<and>
    chat_inv low (announced (clock e) (uID w q @ '' is now known as '' @ new @ ''.'') w') \<and>
    users w' = users (set_name (rand1 e) new q w) \<and> members w' = members w \<and>
    broadcast (the_room w') = broadcast (the_room w) \<and>
    member_at w' = (\<lambda>i. if normalize low i = normalize low new then Some k
       else if normalize low i = normalize low (uID w q) then None else member_at w i)"
proof -
  have inv: "room_inv low w" and op: "closed (the_room w) = False" using assms(1) by (simp_all add: chat_inv_def)
  have q: "has_name w q" by (rule user_wf_name [OF chat_user [OF assms(1)]])
  have own: "member_at w (uID w q) = Some k" using member_own_name [OF inv assms(2)] assms(3) by simp
  obtain w' where w': "Rename (clock e) (uID w q) k (set_name (rand1 e) new q w) =
        Some (None, announced (clock e) (uID w q @ '' is now known as '' @ new @ ''.'') w')"
      "room_inv low w'" "users w' = users (set_name (rand1 e) new q w)" "members w' = members w"
      "broadcast (the_room w') = broadcast (the_room w)" "closed (the_room w') = closed (the_room w)" "spawned w' = spawned w"
      "member_at w' = (\<lambda>i. if normalize low i = normalize low new then Some k
         else if normalize low i = normalize low (uID w q) then None else member_at w i)"
    using Rename_free [OF inv q own _ assms(7,8), of "clock e" "rand1 e"] assms(3) op by auto
  have "chat_inv low (announced (clock e) (uID w q @ '' is now known as '' @ new @ ''.'') w')"
    using assms(1,6) w' room_inv_announced [OF w'(2)] chat_set_name [OF assms(1,6)]
    by (simp add: chat_inv_def no_nil_def)
  then show ?thesis
    using assms(2-5) w' by (intro exI [of _ w']) (simp add: cmd_nick_def MemberByID_eq [OF inv] Let_def)
qed

lemma okay_nick:
  assumes "chat_inv low w" and "0 \<le> rand1 e" and "0 \<le> rand2 e"
  shows "okay low (cmd_nick e p body args w)"
proof (cases "\<exists>name k. args = [name] \<and> member_at w (uID w p) = Some k \<and> Name name \<noteq> uID w (m_user (members w k))")
  case True
  then obtain name k where a: "args = [name]" "member_at w (uID w p) = Some k"
    "Name name \<noteq> uID w (m_user (members w k))" by blast
  show ?thesis
  proof (cases "Name name = [] \<or> normalize low (Name name) \<noteq> normalize low (uID w (m_user (members w k))) \<and>
      member_at w (Name name) \<noteq> None")
    case True
    then show ?thesis
      using nick_refused [OF assms(1) a(2) refl refl a(3) True] chat_recolour [OF assms(1,3)] by (simp add: a)
  next
    case False
    then have free: "Name name \<noteq> []"
      "normalize low (Name name) = normalize low (uID w (m_user (members w k))) \<or> member_at w (Name name) = None"
      by blast+
    show ?thesis
      using nick_taken_over [OF assms(1) a(2) refl refl a(3) assms(2) free, of body] by (elim exE) (simp add: a)
  qed
next
  case False
  then show ?thesis
    using assms(1)
    by (auto simp: cmd_nick_def MemberByID_eq [OF chat_room [OF assms(1)]] Let_def okay_fail split: list.split option.split)
qed

lemma okay_call:
  assumes "chat_inv low w" and "permuting (order e)" and "0 \<le> rand1 e" and "0 \<le> rand2 e"
  shows "okay low (chat_call h e p body args w)"
  using assms
  by (cases h) (simp_all add: okay_help okay_me okay_exit okay_nick okay_names okay_theme okay_quiet okay_slap
      okay_shrug okay_timestamp okay_ignore okay_unignore okay_focus okay_away okay_back okay_mute)

section \<open>Ignoring and focus\<close>

text \<open>What the broadcast asks about a user with the set \<open>s\<close> of ignored names.\<close>

lemma reply_state:
  assumes "chat_inv low w"
  shows "\<exists>m. reply e p s w = Some (None, upd_room (\<lambda>r. r\<lparr>broadcast := broadcast r @ [m]\<rparr>) w)"
  using assms by (simp add: reply_def Room_Send_def chat_inv_def) blast

lemma ignored_user [simp]:
  "users (upd_room f w) = users w"
  "Ignored (users (set_ignored p s w) p) = s" "normalizer (Ignored (users (set_focused p s w) q)) = normalizer (Ignored (users w q))"
  "Focused (users (set_focused p s w) p) = s"
  by (simp_all add: upd_room_def set_ignored_def set_focused_def)

lemma ignore_found:
  assumes "chat_inv low w" and "rest_of body ''/ignore'' = i" and "i \<noteq> []" and "i \<noteq> uID w p"
    and "member_at w i = Some k" and "live (clock e) (Ignored (users w p)) (normalize low i) = None"
  shows "\<exists>m. cmd_ignore e p body args w = Some (None, upd_room (\<lambda>r. r\<lparr>broadcast := broadcast r @ [m]\<rparr>)
    (set_ignored p ((Ignored (users w p))\<lparr>lookup := AList.update (normalize low i)
      (Itemize i (Some (MemberPtr k))) (lookup (Ignored (users w p)))\<rparr>) w))"
proof -
  let ?s = "(Ignored (users w p))\<lparr>lookup := AList.update (normalize low i)
      (Itemize i (Some (MemberPtr k))) (lookup (Ignored (users w p)))\<rparr>"
  have add: "Add (clock e) (Itemize i (Some (MemberPtr k))) (Ignored (users w p)) = (None, ?s)"
    using assms(6) chat_sets(2) [OF assms(1), of p] by (simp add: Add_fresh)
  have "set_inv ?s"
    using chat_sets [OF assms(1), of p] by (intro set_inv_update) simp_all
  then have "chat_inv low (set_ignored p ?s w)"
    using chat_sets(2) [OF assms(1), of p] by (intro chat_set_ignored [OF assms(1)]) simp_all
  from reply_state [OF this, of e p "''Ignoring: '' @ uName w (m_user (members w k))"] show ?thesis
    using assms(2-5) by (simp add: cmd_ignore_def MemberByID_eq [OF chat_room [OF assms(1)]] add)
qed

lemma unignore_found:
  assumes "chat_inv low w" and "rest_of body ''/unignore'' = i" and "i \<noteq> []"
    and "map_of (lookup (Ignored (users w p))) (normalize low i) \<noteq> None"
  shows "\<exists>m. cmd_unignore e p body args w = Some (None, upd_room (\<lambda>r. r\<lparr>broadcast := broadcast r @ [m]\<rparr>)
    (set_ignored p ((Ignored (users w p))\<lparr>lookup := AList.delete (normalize low i) (lookup (Ignored (users w p)))\<rparr>) w))"
proof -
  let ?s = "(Ignored (users w p))\<lparr>lookup := AList.delete (normalize low i) (lookup (Ignored (users w p)))\<rparr>"
  have rem: "Remove i (Ignored (users w p)) = (None, ?s)"
    using assms(4) chat_sets(2) [OF assms(1), of p] by (auto simp: Remove_def)
  have "chat_inv low (set_ignored p ?s w)"
    using chat_sets [OF assms(1), of p] by (intro chat_set_ignored [OF assms(1)] set_inv_delete) simp_all
  from reply_state [OF this, of e p "''No longer ignoring: '' @ i"] show ?thesis
    using assms(2,3) by (simp add: cmd_unignore_def rem)
qed

lemma live_Sets:
  "normalizer s = normalize low \<Longrightarrow>
    live now (fold (\<lambda>i s. snd (Set (Itemize i (Some ZeroValue)) s)) is s) key \<noteq> None \<longleftrightarrow>
    live now s key \<noteq> None \<or> key \<in> set (map (normalize low) is)"
proof (induction "is" arbitrary: s)
  case (Cons i "is")
  have "live now (snd (Set (Itemize i (Some ZeroValue)) s)) = (live now s)(normalize low i := Some (Itemize i (Some ZeroValue)))"
    using Cons.prems by (simp add: Set_state present_def)
  then show ?case using Cons.IH [of "snd (Set (Itemize i (Some ZeroValue)) s)"] Cons.prems by auto
qed simp

lemma Len_Sets:
  "Len (fold (\<lambda>i s. snd (Set (Itemize i (Some ZeroValue)) s)) is s) = 0 \<longleftrightarrow> Len s = 0 \<and> is = []"
proof (induction "is" arbitrary: s)
  case (Cons i "is")
  have "Len (snd (Set (Itemize i (Some ZeroValue)) s)) \<noteq> 0"
    by (auto simp: Len_def Set_def Let_def length_update map_of_eq_None_iff)
  then show ?case by (simp add: Cons.IH)
qed simp

section \<open>Help does not depend on the order of the map\<close>

definition shown_cmds :: "'h command list \<Rightarrow> string list \<Rightarrow> 'h command set" where
  "shown_cmds cs seen = {cmd \<in> set cs. Help_text cmd \<noteq> [] \<and> Prefix cmd \<notin> set seen}"

definition help_line :: "'h command \<Rightarrow> string \<times> string" where
  "help_line cmd = (Prefix cmd @ '' '' @ PrefixHelp cmd, Help_text cmd)"

lemma shown_Cons:
  assumes "inj_on Prefix (set (cmd # cs))"
  shows "shown_cmds (cmd # cs) seen = (if Help_text cmd = [] \<or> Prefix cmd \<in> set seen then shown_cmds cs seen
    else insert cmd (shown_cmds cs (Prefix cmd # seen)))"
  using assms by (auto simp: shown_cmds_def inj_on_def)

lemma shown_finite [simp]: "finite (shown_cmds cs seen)"
  by (simp add: shown_cmds_def)

lemma shown_new [simp]: "cmd \<notin> shown_cmds cs (Prefix cmd # seen)"
  by (simp add: shown_cmds_def)

lemma help_add_simps [simp]:
  "prefixWidth (help_add l h) = max (prefixWidth h) (length (fst l))" "items (help_add l h) = items h @ [l]"
  by (auto simp: help_add_def Let_def)

lemma help_loop:
  assumes "inj_on Prefix (set cs)"
  shows "mset (items (NewCommandsHelp_loop cs seen h)) =
      mset (items h) + image_mset help_line (mset_set (shown_cmds cs seen)) \<and>
    prefixWidth (NewCommandsHelp_loop cs seen h) =
      Max (insert (prefixWidth h) ((\<lambda>cmd. length (fst (help_line cmd))) ` shown_cmds cs seen))"
  using assms
proof (induction cs arbitrary: seen h)
  case Nil
  then show ?case by (simp add: shown_cmds_def)
next
  case (Cons cmd cs)
  have inj: "inj_on Prefix (set cs)" using Cons.prems by (auto simp: inj_on_def)
  note IH = Cons.IH [OF inj]
  show ?case
  proof (cases "Help_text cmd = [] \<or> Prefix cmd \<in> set seen")
    case True
    with IH [of seen h] show ?thesis by (auto simp: shown_Cons [OF Cons.prems])
  next
    case False
    then have "NewCommandsHelp_loop (cmd # cs) seen h =
        NewCommandsHelp_loop cs (Prefix cmd # seen) (help_add (help_line cmd) h)"
      by (simp add: help_line_def)
    moreover have "shown_cmds (cmd # cs) seen = insert cmd (shown_cmds cs (Prefix cmd # seen))"
      using False shown_Cons [OF Cons.prems] by simp
    moreover have "Max (insert (max a b) S) = Max (insert a (insert b S))" if "finite S" for a b :: nat and S
      using that by (cases "S = {}") (simp_all add: ac_simps)
    ultimately show ?thesis
      using IH [of "Prefix cmd # seen" "help_add (help_line cmd) h"] by simp
  qed
qed

lemma sort_map_mset:
  fixes f :: "'a \<Rightarrow> string"
  assumes "mset xs = mset ys"
  shows "sort (map f xs) = sort (map f ys)"
proof (rule properties_for_sort)
  show "mset (sort (map f ys)) = mset (map f xs)" by (simp only: mset_sort mset_map assms)
qed (rule sorted_sort)

lemma help_set:
  assumes "inj_on Prefix (set cs)" and "set ds = set cs"
  shows "help_String (NewCommandsHelp ds) = help_String (NewCommandsHelp cs)"
proof -
  let ?h = "\<lparr>items = [], prefixWidth = 0\<rparr>"
  have inj: "inj_on Prefix (set ds)" using assms by simp
  have "shown_cmds ds [] = shown_cmds cs []" using assms(2) by (simp add: shown_cmds_def)
  then have "mset (items (NewCommandsHelp ds)) = mset (items (NewCommandsHelp cs))"
    and "prefixWidth (NewCommandsHelp ds) = prefixWidth (NewCommandsHelp cs)"
    using help_loop [OF inj, of "[]" ?h] help_loop [OF assms(1), of "[]" ?h] by (simp_all add: NewCommandsHelp_def)
  then show ?thesis
    unfolding help_String_def by (simp only: sort_map_mset [of "items (NewCommandsHelp ds)" "items (NewCommandsHelp cs)"])
qed

lemma Run_okay:
  assumes "chat_inv low w" and "permuting (order e)" and "0 \<le> rand1 e" and "0 \<le> rand2 e"
  shows "\<exists>err w'. Commands_Run (\<lambda>h. chat_call h e) c m w = Some (err, w') \<and> chat_inv low w'"
proof (cases "\<exists>p cmd. From m = Some (Some p) \<and> map_of c (Command m) = Some cmd")
  case True
  then obtain p cmd where m: "From m = Some (Some p)" "map_of c (Command m) = Some cmd" by blast
  have "okay low (chat_call (Handler cmd) e p (Body m) (Args m) w)" by (rule okay_call [OF assms])
  then show ?thesis by (simp add: Commands_Run_def m okay_def split: option.splits prod.splits)
next
  case False
  then show ?thesis using assms(1) by (auto simp: Commands_Run_def split: option.split)
qed

section \<open>Properties\<close>

lemma ex_chat_inv: "chat_inv id ex_world"
  using ex_inv
  by (simp add: chat_inv_def) (simp add: user_wf_def ex_world_def NewUser_def builtin_def DefaultUserConfig_def set_inv_New)

definition ex_env :: env where
  "ex_env = \<lparr>clock = 7, order = (\<lambda>ks. ks), rand1 = 1, rand2 = 2,
     Parse_Duration = (\<lambda>s. Inr time_Second), help_for = (\<lambda>op. Commands_Help (\<lambda>ks. ks) defaultCommands op)\<rparr>"

lemma ex_env_simps [simp]:
  "clock ex_env = 7" "order ex_env = (\<lambda>ks. ks)" "rand1 ex_env = 1" "rand2 ex_env = 2"
  by (simp_all add: ex_env_def)

text \<open>no command stops the server. In every state with the invariant, whatever
  registry of chat commands, message, arguments and order of the members, running
  a command returns (an error or none), and the invariant holds again: the room's
  set stays consistent with the names of its members, every user keeps well
  formed sets and a built-in theme, and every queued message has its users.\<close>

theorem Run_safe:
  assumes "chat_inv low w" and "permuting (order e)" and "0 \<le> rand1 e" and "0 \<le> rand2 e"
  shows "\<exists>err w'. Commands_Run (\<lambda>h. chat_call h e) c m w = Some (err, w') \<and> chat_inv low w'"
  by (rule Run_okay [OF assms])

theorem Run_safe_witness:
  "\<exists>err w'. Commands_Run (\<lambda>h. chat_call h ex_env) defaultCommands
      (CommandMsg ''/nick al2'' 3 (Some 0) ''/nick'' [''al2'']) ex_world = Some (err, w') \<and> chat_inv id w'"
  using Run_safe [OF ex_chat_inv, of ex_env defaultCommands "CommandMsg ''/nick al2'' 3 (Some 0) ''/nick'' [''al2'']"]
  by simp

text \<open>C19: \<open>/nick\<close> renames or leaves everything as it was. It always returns with the
  invariant kept. Without an error the member has the sanitised name, alone is
  renamed, is found under the new name, and the change is announced; with an error
  every user has the name from before and is found under it, and nothing is
  announced, although the name was set before it was checked.\<close>

theorem nick_or_nothing:
  assumes "chat_inv low w" and "0 \<le> rand1 e" and "0 \<le> rand2 e" and "member_at w (uID w p) = Some k"
  shows "\<exists>err w'. cmd_nick e p body args w = Some (err, w') \<and> chat_inv low w' \<and>
    (case err of
       None \<Rightarrow> uID w' = (uID w)(m_user (members w k) := Name (hd args)) \<and> member_at w' (Name (hd args)) = Some k \<and>
         broadcast (the_room w') = broadcast (the_room w) @ [AnnounceMsg
           (uID w (m_user (members w k)) @ '' is now known as '' @ Name (hd args) @ ''.'') (clock e)]
     | Some x \<Rightarrow> uID w' = uID w \<and> member_at w' = member_at w \<and> broadcast (the_room w') = broadcast (the_room w))"
proof (cases "\<exists>name. args = [name] \<and> Name name \<noteq> uID w (m_user (members w k))")
  case True
  then obtain name where a: "args = [name]" "Name name \<noteq> uID w (m_user (members w k))" by blast
  let ?q = "m_user (members w k)"
  show ?thesis
  proof (cases "Name name = [] \<or> normalize low (Name name) \<noteq> normalize low (uID w ?q) \<and> member_at w (Name name) \<noteq> None")
    case True
    let ?w = "upd_user ?q (setColorIdx (rand2 e)) w"
    have "uID ?w = uID w" "member_at ?w = member_at w"
      by (simp_all add: upd_user_ident setColorIdx_def fun_eq_iff member_at_def)
    then show ?thesis
      using nick_refused [OF assms(1,4) refl refl a(2) True] chat_recolour [OF assms(1,3)] by (simp add: a)
  next
    case False
    then have free: "Name name \<noteq> []"
      "normalize low (Name name) = normalize low (uID w ?q) \<or> member_at w (Name name) = None" by blast+
    have "has_name w ?q" by (rule user_wf_name [OF chat_user [OF assms(1)]])
    then have "uID w' = (uID w)(?q := Name name)" if "users w' = users (set_name (rand1 e) (Name name) ?q w)" for w' :: "'a world_scheme"
      using that uID_set_name [of w ?q "rand1 e" "Name name"] by (auto simp: uID_def fun_eq_iff)
    then show ?thesis
      using nick_taken_over [OF assms(1,4) refl refl a(2) assms(2) free, of body] by (elim exE) (simp add: a)
  qed
next
  case False
  then have "\<exists>x. cmd_nick e p body args w = Some (Some x, w)"
    using assms(4)
    by (auto simp: cmd_nick_def MemberByID_eq [OF chat_room [OF assms(1)]] Let_def fail_def split: list.split)
  then show ?thesis using assms(1) by auto
qed

theorem nick_or_nothing_witness:
  "\<exists>w'. cmd_nick ex_env 0 ''/nick AL'' [''AL''] ex_world = Some (None, w') \<and> uID w' 0 = ''AL''"
proof -
  have al: "member_at ex_world (uID ex_world 0) = Some 0" by (simp add: ex_member_at ex_norm)
  have nm: "Name ''AL'' = ''AL''" "normalize id ''AL'' = ''al''" by code_simp+
  obtain w' where "cmd_nick ex_env 0 ''/nick AL'' [''AL''] ex_world = Some (None, w')"
    using nick_taken_over [OF ex_chat_inv al refl refl, of "''AL''" ex_env "''/nick AL''"]
    by (auto simp: nm ex_member_at ex_norm)
  then show ?thesis
    using nick_or_nothing [OF ex_chat_inv _ _ al, of ex_env "''/nick AL''" "[''AL'']"] by (auto simp: nm)
qed

text \<open>ignoring works until it is undone. After \<open>/ignore i\<close> for a member that is not
  ignored yet, no message to the room from a name that equals \<open>i\<close> up to case
  is wanted by the user, at any later time, and what the user ignores otherwise is
  as before; \<open>/unignore\<close> of any spelling of the name then succeeds and leaves exactly
  what was ignored before.\<close>

theorem ignore_unignore:
  assumes "chat_inv low w" and "rest_of body ''/ignore'' = i" and "i \<noteq> []" and "i \<noteq> uID w p"
    and "member_at w i = Some k" and "live (clock e) (Ignored (users w p)) (normalize low i) = None"
    and "clock e \<le> now" and "normalize low j = normalize low i" and "rest_of body' ''/unignore'' = j" and "j \<noteq> []"
  shows "\<exists>w1 w2. cmd_ignore e p body args w = Some (None, w1) \<and> wants now j m (users w1 p) = False \<and>
    live now (Ignored (users w1 p)) = (live now (Ignored (users w p)))(normalize low i := Some (Itemize i (Some (MemberPtr k)))) \<and>
    cmd_unignore e' p body' args' w1 = Some (None, w2) \<and> live now (Ignored (users w2 p)) = live now (Ignored (users w p))"
proof -
  let ?it = "Itemize i (Some (MemberPtr k))"
  let ?s = "(Ignored (users w p))\<lparr>lookup := AList.update (normalize low i) ?it (lookup (Ignored (users w p)))\<rparr>"
  obtain m where ig: "cmd_ignore e p body args w =
      Some (None, upd_room (\<lambda>r. r\<lparr>broadcast := broadcast r @ [m]\<rparr>) (set_ignored p ?s w))"
    using ignore_found [OF assms(1-6)] by blast
  let ?w = "upd_room (\<lambda>r. r\<lparr>broadcast := broadcast r @ [m]\<rparr>) (set_ignored p ?s w)"
  have inv: "chat_inv low ?w"
    using okay_ignore [OF assms(1), of e p body args] by (simp add: ig)
  have s: "Ignored (users ?w p) = ?s" by simp
  have n: "normalizer ?s = normalize low" using chat_sets(2) [OF assms(1), of p] by simp
  have live: "live now ?s = (live now (Ignored (users w p)))(normalize low i := Some ?it)"
    by (simp add: live_update present_def)
  have "map_of (lookup (Ignored (users ?w p))) (normalize low j) \<noteq> None" by (simp add: assms(8))
  then obtain m' where un: "cmd_unignore e' p body' args' ?w = Some (None, upd_room (\<lambda>r. r\<lparr>broadcast := broadcast r @ [m']\<rparr>)
      (set_ignored p ((Ignored (users ?w p))\<lparr>lookup := AList.delete (normalize low j) (lookup (Ignored (users ?w p)))\<rparr>) ?w))"
    using unignore_found [OF inv assms(9,10)] by blast
  have "live now (Ignored (users w p)) (normalize low i) = None"
    using assms(6,7) by (auto intro: live_expires)
  then have "live now (?s\<lparr>lookup := AList.delete (normalize low j) (lookup ?s)\<rparr>) = live now (Ignored (users w p))"
    unfolding live_delete live by (auto simp: assms(8) fun_eq_iff)
  then show ?thesis
    using ig un live n by (simp add: wants_def assms(8))
qed

theorem ignore_unignore_witness:
  "\<exists>w1 w2. cmd_ignore ex_env 1 ''/ignore al'' [''al''] ex_world = Some (None, w1) \<and>
    wants 9 ''AL'' (EmoteMsg ''waves'' 8 (Some 0)) (users w1 1) = False \<and>
    cmd_unignore ex_env 1 ''/unignore AL'' [''AL''] w1 = Some (None, w2)"
proof -
  have texts: "rest_of ''/ignore al'' ''/ignore'' = ''al''" "rest_of ''/unignore AL'' ''/unignore'' = ''AL''"
    by (simp_all add: rest_of_def TrimSpace_def TrimLeft_def str_eval IsSpace_def)
  have same: "normalize id ''AL'' = normalize id ''al''" by code_simp
  have "live 7 (Ignored (users ex_world 1)) = Map.empty"
    by (simp add: ex_world_def NewUser_def live_New)
  then have "\<exists>w1 w2. cmd_ignore ex_env 1 ''/ignore al'' [''al''] ex_world = Some (None, w1) \<and>
      wants 9 ''AL'' (EmoteMsg ''waves'' 8 (Some 0)) (users w1 1) = False \<and>
      live 9 (Ignored (users w1 1)) = (live 9 (Ignored (users ex_world 1)))(normalize id ''al'' \<mapsto> Itemize ''al'' (Some (MemberPtr 0))) \<and>
      cmd_unignore ex_env 1 ''/unignore AL'' [''AL''] w1 = Some (None, w2) \<and>
      live 9 (Ignored (users w2 1)) = live 9 (Ignored (users ex_world 1))"
    by (intro ignore_unignore [OF ex_chat_inv texts(1)] texts same) (simp_all add: ex_member_at ex_norm)
  then show ?thesis by blast
qed

text \<open>focus shows exactly the chosen users. After \<open>/focus\<close> with a list of names a
  user is in focus exactly when the name equals one of the sanitised names up to
  case (or none of them is left after sanitising, which shows everybody), whatever
  the focus was before.\<close>

theorem focus_chooses:
  assumes "chat_inv low w" and "rest_of body ''/focus'' = ids" and "ids \<noteq> []" and "ids \<noteq> ''$''"
    and "chosen = filter (\<lambda>i. i \<noteq> []) (map Name (Split ids (CHR '' '')))"
  shows "\<exists>w'. cmd_focus e p body args w = Some (None, w') \<and> chat_inv low w' \<and>
    (in_focus now j (users w' p) \<longleftrightarrow> chosen = [] \<or> normalize low j \<in> set (map (normalize low) chosen))"
proof -
  let ?s = "snd (Clear (Focused (users w p)))"
  let ?t = "fold (\<lambda>i s. snd (Set (Itemize i (Some ZeroValue)) s)) chosen ?s"
  have s: "normalizer ?s = normalize low" "set_inv ?s" "Len ?s = 0" "live now ?s = Map.empty"
    using set_inv_Clear [of "Focused (users w p)"] chat_sets [OF assms(1), of p]
    by (simp_all add: Clear_def Len_def live_def fun_eq_iff)
  have inv: "chat_inv low (set_focused p ?t w)"
    using s by (intro chat_set_focused [OF assms(1)] Sets_wf(1)) (simp_all add: Sets_wf(2))
  obtain m where "reply e p (''Focusing: '' @ GoStrings.Join chosen '', '') (set_focused p ?t w) =
      Some (None, upd_room (\<lambda>r. r\<lparr>broadcast := broadcast r @ [m]\<rparr>) (set_focused p ?t w))"
    using reply_state [OF inv] by blast
  note run = this
  have f: "cmd_focus e p body args w = Some (None, upd_room (\<lambda>r. r\<lparr>broadcast := broadcast r @ [m]\<rparr>) (set_focused p ?t w))"
    using run assms(2-5) by (simp add: cmd_focus_def Let_def case_prod_unfold focus_loop_eq)
  have "in_focus now j (users (upd_room (\<lambda>r. r\<lparr>broadcast := broadcast r @ [m]\<rparr>) (set_focused p ?t w)) p) \<longleftrightarrow>
      Len ?t = 0 \<or> live now ?t (normalize low j) \<noteq> None"
    using s by (simp add: in_focus_def Sets_wf(2))
  then show ?thesis
    using f okay_focus [OF assms(1), of e p body args] s Len_Sets [of chosen ?s] live_Sets [OF s(1), of now chosen "normalize low j"]
    by auto
qed

theorem focus_chooses_witness:
  "\<exists>w'. cmd_focus ex_env 1 ''/focus AL'' [''AL''] ex_world = Some (None, w') \<and>
    in_focus 9 ''al'' (users w' 1) \<and> (in_focus 9 ''zed'' (users w' 1) \<longleftrightarrow> False)"
proof -
  have body: "rest_of ''/focus AL'' ''/focus'' = ''AL''"
    by (simp add: rest_of_def TrimSpace_def TrimLeft_def str_eval IsSpace_def)
  have texts: "filter (\<lambda>i. i \<noteq> []) (map Name (Split ''AL'' (CHR '' ''))) = [''AL'']"
    "normalize id ''AL'' = ''al''" "normalize id ''al'' = ''al''" "normalize id ''zed'' = ''zed''" by code_simp+
  have "\<exists>w'. cmd_focus ex_env 1 ''/focus AL'' [''AL''] ex_world = Some (None, w') \<and> chat_inv id w' \<and>
      (in_focus 9 j (users w' 1) \<longleftrightarrow> [''AL''] = [] \<or> normalize id j \<in> set (map (normalize id) [''AL'']))" for j
    by (rule focus_chooses [OF ex_chat_inv body _ _ texts(1) [symmetric]]) simp_all
  from this [of "''al''"] this [of "''zed''"] show ?thesis by (auto simp: texts)
qed

lemma SetMute_simps [simp]:
  "users (SetMute k b w) = users w" "uID (SetMute k b w) = uID w"
  "m_user (members (SetMute k b w) j) = m_user (members w j)"
  "members (SetMute k b w) = (members w)(k := (members w k)\<lparr>isMuted := b\<rparr>)"
  by (simp_all add: SetMute_def upd_member_def uID_def fun_eq_iff)

lemma members_upd_room [simp]: "members (upd_room f w) = members w"
  by (simp add: upd_room_def)

text \<open>only an operator mutes. \<open>/mute\<close> of anybody who is not an operator of the room is
  refused and changes nothing; \<open>/mute i\<close> of an operator flips the mute of the member
  with the name \<open>i\<close>, and of nobody else, and touches no user.\<close>

theorem mute_needs_op:
  assumes "chat_inv low w" and "member_at w i = Some k"
  shows "if (case member_at w (uID w p) of Some k \<Rightarrow> m_user (members w k) = p \<and> is_op (members w k) | None \<Rightarrow> False)
    then \<exists>w'. cmd_mute e p body (i # args) w = Some (None, w') \<and> chat_inv low w' \<and> users w' = users w \<and>
      members w' = (members w)(k := (members w k)\<lparr>isMuted := \<not> isMuted (members w k)\<rparr>)
    else cmd_mute e p body (i # args) w = Some (Some (Errorf ''must be op''), w)"
proof (cases "case member_at w (uID w p) of Some k \<Rightarrow> m_user (members w k) = p \<and> is_op (members w k) | None \<Rightarrow> False")
  case True
  let ?w = "SetMute k (\<not> isMuted (members w k)) w"
  obtain s m where run: "reply e p s ?w = Some (None, upd_room (\<lambda>r. r\<lparr>broadcast := broadcast r @ [m]\<rparr>) ?w)"
    "s = (if isMuted (members w k) then ''Unmuted: '' else ''Muted: '') @ uID w (m_user (members w k))"
    using reply_state [OF chat_mute [OF assms(1)], of e p _ k "\<not> isMuted (members w k)"] by blast
  have "cmd_mute e p body (i # args) w = reply e p s ?w"
    using True assms(2) run(2)
    by (simp add: cmd_mute_def IsOp_eq [OF chat_room [OF assms(1)]] MemberByID_eq [OF chat_room [OF assms(1)]] IsMuted_def Let_def)
  then show ?thesis
    using True run(1) okay_mute [OF assms(1), of e p body "i # args"] by simp
next
  case False
  then show ?thesis
    by (simp add: cmd_mute_def IsOp_eq [OF chat_room [OF assms(1)]] fail_def split: option.splits)
qed

theorem mute_needs_op_witness:
  "cmd_mute ex_env 1 ''/mute al'' [''al''] ex_world = Some (Some (Errorf ''must be op''), ex_world)"
  using mute_needs_op [OF ex_chat_inv, of "''al''" 0 1 ex_env "''/mute al''" "[]"] by (simp add: ex_member_at ex_norm)

text \<open>the help text does not depend on the order in which the map of commands is
  visited: for a registry in which a name is registered once and every other entry
  is an alias of a registered command, any two orders give the same text, for
  operators and for others. An alias never appears as a line of its own.\<close>

theorem help_ignores_order:
  assumes "permuting ord" and "permuting ord'" and "distinct (map fst c)" and "inj_on Prefix (snd ` set c)"
  shows "Commands_Help ord c showOp = Commands_Help ord' c showOp"
proof -
  have cmds: "set (List.map_filter (map_of c) (ord (map fst c))) = snd ` set c" if "permuting ord" for ord
  proof -
    have "set (List.map_filter (map_of c) (ord (map fst c))) = {cmd. \<exists>k\<in>fst ` set c. map_of c k = Some cmd}"
      by (auto simp: map_filter_def permuting_set [OF that] image_iff) force+
    also have "\<dots> = snd ` set c"
      using assms(3) by (force simp: map_of_eq_Some_iff image_iff)
    finally show ?thesis .
  qed
  have "help_String (NewCommandsHelp (filter P (List.map_filter (map_of c) (ord (map fst c))))) =
      help_String (NewCommandsHelp (filter P (List.map_filter (map_of c) (ord' (map fst c)))))" for P
    using assms(4) by (intro help_set) (auto simp: cmds [OF assms(1)] cmds [OF assms(2)] inj_on_def)
  then show ?thesis by (simp add: Commands_Help_def Let_def)
qed

theorem help_ignores_order_witness:
  "Commands_Help rev defaultCommands True = Commands_Help (\<lambda>ks. ks) defaultCommands True"
proof -
  have "distinct (map fst defaultCommands)"
    by (simp add: defaultCommands_def InitCommands_def reg_def reg_alias_def Commands_Add_def Commands_Alias_def)
  moreover have "inj_on Prefix (snd ` set defaultCommands)"
    by (simp add: defaultCommands_def InitCommands_def reg_def reg_alias_def Commands_Add_def Commands_Alias_def)
  ultimately show ?thesis by (intro help_ignores_order) simp_all
qed

text \<open>away and back are inverse. \<open>/away\<close> with a reason makes the user away since that
  moment for that reason and says so to the room; \<open>/back\<close> then ends it; a second
  \<open>/back\<close> is refused and changes nothing.\<close>

theorem away_then_back:
  assumes "chat_inv low w" and "rest_of body ''/away'' = reason" and "reason \<noteq> []"
  shows "\<exists>w1 w2. cmd_away e p body args w = Some (None, w1) \<and>
    GetAway (users w1 p) = (True, clock e, reason) \<and>
    broadcast (the_room w1) = broadcast (the_room w) @ [EmoteMsg (''has gone away: '' @ reason) (clock e) (Some p)] \<and>
    cmd_back e' p body' args' w1 = Some (None, w2) \<and> GetAway (users w2 p) = (False, 0, []) \<and>
    cmd_back e'' p body'' args'' w2 = Some (Some (Errorf ''must be away to be back''), w2)"
proof -
  have op: "closed (the_room w) = False" using assms(1) by (simp add: chat_inv_def)
  let ?say = "\<lambda>m. upd_room (\<lambda>r. r\<lparr>broadcast := broadcast r @ [m]\<rparr>)"
  let ?w1 = "?say (EmoteMsg (''has gone away: '' @ reason) (clock e) (Some p)) (upd_user p (SetAway (clock e) reason) w)"
  let ?w2 = "?say (EmoteMsg ''is back.'' (clock e') (Some p)) (upd_user p (SetAway (clock e') []) ?w1)"
  have room: "the_room (upd_room f v) = f (the_room v)" "users (upd_room f v) = users v" for f v
    by (simp_all add: upd_room_def)
  have away: "GetAway (SetAway t s u) = (s \<noteq> [], if s = [] then 0 else t, s)" for t s u
    by (simp add: GetAway_def SetAway_def)
  have "cmd_away e p body args w = Some (None, ?w1)"
    using assms(2,3) op by (simp add: cmd_away_def Let_def emote_def Room_Send_def NewEmoteMsg_def)
  moreover have "cmd_back e' p body' args' ?w1 = Some (None, ?w2)"
    using assms(3) op by (simp add: cmd_back_def room away emote_def Room_Send_def NewEmoteMsg_def)
  moreover have "cmd_back e'' p body'' args'' ?w2 = Some (Some (Errorf ''must be away to be back''), ?w2)"
    by (simp add: cmd_back_def room away fail_def)
  ultimately show ?thesis using assms(3) by (simp add: room away)
qed

theorem away_then_back_witness:
  "\<exists>w1. cmd_away ex_env 1 ''/away tea'' [''tea''] ex_world = Some (None, w1) \<and> GetAway (users w1 1) = (True, 7, ''tea'')"
proof -
  have "rest_of ''/away tea'' ''/away'' = ''tea''"
    by (simp add: rest_of_def TrimSpace_def TrimLeft_def str_eval IsSpace_def)
  from away_then_back [OF ex_chat_inv this, of ex_env 1 "[''tea'']" ex_env "[]" "[]" ex_env "[]" "[]"] show ?thesis by auto
qed

text \<open>\<open>/me\<close> drops one byte, not one character, after the name of the command. A body
  that separates them by a space of two bytes (which ends the name of the command
  like any other space) is sent as an emote that begins with the second of them.\<close>

theorem me_splits_character:
  assumes "closed (the_room w) = False"
  shows "Fields (''/me'' @ [byte 0xC2, byte 0xA0] @ ''hi'') = [''/me'', ''hi''] \<and>
    cmd_me e p (''/me'' @ [byte 0xC2, byte 0xA0] @ ''hi'') [''hi''] w =
      Some (None, upd_room (\<lambda>r. r\<lparr>broadcast := broadcast r @ [EmoteMsg (byte 0xA0 # ''hi'') (clock e) (Some p)]\<rparr>) w)"
proof
  show "Fields (''/me'' @ [byte 0xC2, byte 0xA0] @ ''hi'') = [''/me'', ''hi'']"
    by (simp add: Fields_def IsSpace_def lead_def cont_byte_def bv_def byte_def char_of_def bit_0 bit_Suc)
  have "TrimLeft (''/me'' @ [byte 0xC2, byte 0xA0] @ ''hi'') ''/me'' = byte 0xC2 # byte 0xA0 # ''hi''"
    by (simp add: TrimLeft_def byte_def char_of_def bit_0 bit_Suc)
  then show "cmd_me e p (''/me'' @ [byte 0xC2, byte 0xA0] @ ''hi'') [''hi''] w =
      Some (None, upd_room (\<lambda>r. r\<lparr>broadcast := broadcast r @ [EmoteMsg (byte 0xA0 # ''hi'') (clock e) (Some p)]\<rparr>) w)"
    using assms by (simp add: cmd_me_def emote_def Room_Send_def NewEmoteMsg_def)
qed

theorem me_splits_character_witness:
  "Fields (''/me'' @ [byte 0xC2, byte 0xA0] @ ''hi'') = [''/me'', ''hi'']"
  using me_splits_character [of ex_world] by simp

end
