(* ===== verification/ChatRun.thy ===== *)
theory ChatRun
  imports Commands
begin

text \<open>
  The room in operation: the messages that users send to it, the turns of \<open>Serve\<close>,
  the goroutines that handle one message each, in any order, with the commands of
  \<open>chat/command.go\<close>, users that join and leave, and users that read their messages.
  Each of these is one step of \<open>chat_step\<close>; the invariant \<open>chat_inv\<close> holds in every
  reachable state, and no step can panic.
\<close>

section \<open>Steps\<close>

text \<open>What the consumer of a user does to it (\<open>ConsumeOne\<close>, \<open>HasMessages\<close>, \<open>Close\<close>,
  the time of the last message, the look-up in the focus).\<close>

inductive consumes :: "user \<Rightarrow> user \<Rightarrow> bool" where
  "ConsumeOne u = Some (m, u') \<Longrightarrow> consumes u u'"
| "consumes u (snd (HasMessages u))"
| "consumes u (Close u)"
| "consumes u (u\<lparr>lastMsg := t\<rparr>)"
| "consumes u (u\<lparr>Focused := snd (In now i (Focused u))\<rparr>)"

inductive chat_step :: "chat_handler commands \<Rightarrow> (go_error \<Rightarrow> string) \<Rightarrow> (Message \<Rightarrow> string) \<Rightarrow> (time \<Rightarrow> string)
    \<Rightarrow> 'w world_scheme \<Rightarrow> 'w world_scheme \<Rightarrow> bool"
  for c :: "chat_handler commands" and err_text line human where
  say: "no_nil m \<Longrightarrow> Room_Send m w = Some w' \<Longrightarrow> chat_step c err_text line human w w'"
| serve: "Serve_turn w = Some w' \<Longrightarrow> chat_step c err_text line human w w'"
| handle: "spawned w = xs @ m # ys \<Longrightarrow> permuting (order e) \<Longrightarrow> 0 \<le> rand1 e \<Longrightarrow> 0 \<le> rand2 e \<Longrightarrow>
    HandleMsg (Commands_Run (\<lambda>h. chat_call h e) c) err_text line (order e) pick (clock e) m (w\<lparr>spawned := xs @ ys\<rparr>) = Some w' \<Longrightarrow>
    chat_step c err_text line human w w'"
| join: "Room.Join pick now p w = Some (r, w') \<Longrightarrow> chat_step c err_text line human w w'"
| leave: "Leave human now p w = Some (r, w') \<Longrightarrow> chat_step c err_text line human w w'"
| consume: "consumes (users w p) u \<Longrightarrow> chat_step c err_text line human w (upd_user p (\<lambda>_. u) w)"
| topic: "chat_step c err_text line human w (SetTopic s w)"

section \<open>Every step keeps the invariant\<close>

lemma user_wf_Send: "user_wf low u \<Longrightarrow> user_wf low (snd (Send pick m u))"
  by (auto simp: user_wf_def Send_cases Close_def)

lemma user_wf_Sends: "user_wf low u \<Longrightarrow> user_wf low (fold (\<lambda>m u. snd (Send pick m u)) ms u)"
  by (induction ms arbitrary: u) (simp_all add: user_wf_Send)

lemma user_wf_In: "user_wf low u \<Longrightarrow> user_wf low (u\<lparr>Ignored := snd (In now i (Ignored u))\<rparr>)"
  by (simp add: user_wf_def set_inv_In)

lemma user_wf_offered: "user_wf low u \<Longrightarrow> user_wf low (offered now pick i m u)"
  using user_wf_In [of low u now i] by (auto simp: offered_def Let_def user_wf_Send split: prod.split)

lemma user_wf_mailed: "user_wf low u \<Longrightarrow> user_wf low (mailed now pick i m u)"
  using user_wf_In [of low u now i] by (auto simp: mailed_def Let_def user_wf_Send split: prod.split)

lemma user_wf_consumes: "consumes u u' \<Longrightarrow> user_wf low u \<Longrightarrow> user_wf low u' \<and> ident_of u' = ident_of u"
  by (erule consumes.cases)
     (auto simp: ConsumeOne_def HasMessages_def user_wf_def Close_def set_inv_In split: list.splits)

lemma upd_user_more [simp]: "world.more (upd_user p f w) = world.more w"
  by (simp add: upd_user_def)

lemma fold_more [simp]:
  "world.more (fold (\<lambda>p. upd_user p (f p)) ps w) = world.more w" "world.more (logged line m w) = world.more w"
  by (induction ps arbitrary: w) (simp_all add: logged_def upd_room_def)

lemma fold_config [simp]:
  assumes "\<And>p u. config (f p u) = config u"
  shows "config (users (fold (\<lambda>p. upd_user p (f p)) ps w) q) = config (users w q)"
  using assms by (induction ps arbitrary: w) simp_all

lemma users_logged [simp]: "users (logged line m w) = users w"
  by (simp add: logged_def upd_room_def)

lemma mailed_config [simp]: "config (mailed now pick i m u) = config u"
  by (simp add: mailed_def Let_def split: prod.split)

lemma chat_logged: "chat_inv low w \<Longrightarrow> chat_inv low (logged line m w)"
  by (simp add: chat_inv_def room_inv_logged)

lemma chat_offers:
  "chat_inv low w \<Longrightarrow> chat_inv low (fold (\<lambda>p. upd_user p (offered now (pick p) i m)) ps w)"
proof (induction ps arbitrary: w)
  case (Cons p ps)
  have "chat_inv low (upd_user p (offered now (pick p) i m) w)"
    by (rule chat_upd_user [OF Cons.prems]) (simp_all add: user_wf_offered chat_user [OF Cons.prems])
  then show ?case using Cons.IH by simp
qed simp

lemma chat_spawn: "chat_inv low w \<Longrightarrow> list_all no_nil ms \<Longrightarrow> chat_inv low (w\<lparr>spawned := ms\<rparr>)"
proof -
  assume a: "chat_inv low w" "list_all no_nil ms"
  have "entry_of (w\<lparr>spawned := ms\<rparr>) = entry_of w" by (simp add: entry_of_def uID_def fun_eq_iff)
  with a show ?thesis by (simp add: chat_inv_def room_inv_def)
qed

lemma no_nil_cases:
  assumes "no_nil m"
  obtains "to_all m" | q where "To m = Some (Some q)" | b t p c args where "m = CommandMsg b t (Some p) c args"
  using assms by (cases m) (auto simp: no_nil_def)

text \<open>What handling a message asks of the commands: in a state with the invariant, and with
  what the commands need besides (\<open>extra\<close>, of the part of the state that the room does
  not know), running one returns and keeps both; \<open>extra\<close> may also speak of the settings of users. \<open>good\<close> is what they ask of
  their environment.\<close>

locale runner =
  fixes run :: "'e \<Rightarrow> Message \<Rightarrow> 'w world_scheme \<Rightarrow> (go_error option \<times> 'w world_scheme) option"
    and good :: "'e \<Rightarrow> bool"
    and sched_of :: "'e \<Rightarrow> sched"
    and low :: "rune \<Rightarrow> rune"
    and extra :: "'w world_scheme \<Rightarrow> bool"
  assumes run_safe: "good e \<Longrightarrow> chat_inv low w \<Longrightarrow> extra w \<Longrightarrow>
      \<exists>err w'. run e m w = Some (err, w') \<and> chat_inv low w' \<and> extra w'"
    and extra_more: "world.more w' = world.more w \<Longrightarrow> (\<And>p. config (users w' p) = config (users w p)) \<Longrightarrow>
      extra w \<Longrightarrow> extra w'"
    and good_order: "good e \<Longrightarrow> permuting (sched_of e)"
begin

lemma HandleMsg_safe:
  assumes inv: "chat_inv low w" "extra w" and e: "good e" and m: "no_nil m"
  shows "\<exists>w'. HandleMsg (run e) err_text line (sched_of e) pick now m w = Some w' \<and> chat_inv low w' \<and> extra w'"
proof (cases "admitted w m")
  case (Some i)
  note handle = HandleMsg_admitted [OF chat_room [OF inv(1)] Some]
  from m show ?thesis
  proof (cases rule: no_nil_cases)
    case 1
    then show ?thesis
      using deliver_to_all [OF chat_room [OF inv(1)] good_order [OF e], of m "run e" err_text line pick now i]
        chat_offers [OF chat_logged [OF inv(1)]] extra_more [OF _ _ inv(2)] by (fastforce simp: handle)
  next
    case (2 q)
    have "chat_inv low (upd_user q (mailed now (pick q) i m) w)"
      by (rule chat_upd_user [OF inv(1)]) (simp_all add: user_wf_mailed chat_user [OF inv(1)])
    then show ?thesis using extra_more [OF _ _ inv(2)] by (simp add: handle deliver_to_one [OF 2])
  next
    case (3 b t p n args)
    obtain err w' where run: "run e m w = Some (err, w')" "chat_inv low w'" "extra w'"
      using run_safe [OF e inv] by blast
    have "chat_inv low (w'\<lparr>spawned := spawned w' @ [SystemMsg s now (Some p)]\<rparr>)" for s
      using run(2) by (intro chat_spawn) (simp_all add: chat_inv_def no_nil_def)
    then show ?thesis
      using run extra_more [OF _ _ run(3)] by (cases err) (simp_all add: handle [unfolded 3] deliver_def 3 NewSystemMsg_def)
  qed
next
  case None
  then obtain p where p: "From m = Some (Some p)" "uID w p \<noteq> []"
    using m by (auto simp: admitted_def no_nil_def split: option.splits if_splits)
  have "chat_inv low (upd_user q (\<lambda>u. snd (Send (pick q) m u)) w)" for q
    by (rule chat_upd_user [OF inv(1)]) (simp_all add: user_wf_Send chat_user [OF inv(1)])
  then show ?thesis
    unfolding guard_eq [OF chat_room [OF inv(1)] p None] using inv extra_more [OF _ _ inv(2)]
    by (auto split: option.split Message.split)
qed

end

text \<open>The commands of the chat ask nothing of the rest of the state.\<close>

definition env_good :: "env \<Rightarrow> bool" where
  "env_good e \<longleftrightarrow> permuting (order e) \<and> 0 \<le> rand1 e \<and> 0 \<le> rand2 e"

interpretation chat_runner: runner "\<lambda>e. Commands_Run (\<lambda>h. chat_call h e) c" env_good order low "\<lambda>x. True"
  for c low
  by unfold_locales (auto simp: env_good_def intro: Run_okay)

lemma Join_safe:
  assumes "chat_inv low w"
  shows "\<exists>r w'. Room.Join pick now p w = Some (r, w') \<and> chat_inv low w'"
proof -
  note inv = chat_room [OF assms]
  have alloc: "chat_inv low (alloc p w)"
    using assms by (simp add: chat_inv_def room_inv_alloc)
  show ?thesis
  proof (cases "uID w p = []")
    case True
    then show ?thesis using assms by (simp add: Room.Join_def)
  next
    case False
    show ?thesis
    proof (cases "member_at w (uID w p)")
      case None
      let ?f = "fold (\<lambda>m u. snd (Send (pick p) m u)) (rev (history_recent (r_history (the_room w))))"
      have "chat_inv low (seated low p w)"
        using assms room_inv_seated [OF inv] by (simp add: chat_inv_def) (simp add: seated_def)
      then have "chat_inv low (upd_user p ?f (seated low p w))"
        by (intro chat_upd_user) (simp_all add: user_wf_Sends chat_user)
      then have "chat_inv low (announced now s (upd_user p ?f (seated low p w)))" for s
        by (simp add: chat_inv_def room_inv_announced no_nil_def)
      then show ?thesis
        using Join_fresh [OF inv False None, of pick now] assms by (simp add: chat_inv_def)
    next
      case (Some k)
      then show ?thesis using Join_collision [OF inv False Some] alloc by simp
    qed
  qed
qed

lemma Leave_safe:
  assumes "chat_inv low w"
  shows "\<exists>r w'. Leave human now p w = Some (r, w') \<and> chat_inv low w'"
proof (cases "member_at w (uID w p)")
  case None
  then show ?thesis using Leave_missing [OF chat_room [OF assms]] assms by simp
next
  case (Some k)
  have "chat_inv low (announced now s (vacated low (uID w p) w))" for s
    using assms room_inv_announced [OF room_inv_vacated [OF chat_room [OF assms]]]
    by (simp add: chat_inv_def no_nil_def) (simp add: vacated_def)
  then show ?thesis
    using Leave_present [OF chat_room [OF assms] Some, of human now] assms by (simp add: chat_inv_def)
qed

lemma chat_upd_room:
  assumes "chat_inv low w" and "Members (f (the_room w)) = Members (the_room w)"
    and "r_history (f (the_room w)) = r_history (the_room w)" and "closed (f (the_room w)) = closed (the_room w)"
    and "list_all no_nil (broadcast (f (the_room w)))"
  shows "chat_inv low (upd_room f w)"
proof -
  have "entry_of (upd_room f w) = entry_of w" by (simp add: entry_of_def uID_def upd_room_def fun_eq_iff)
  then show ?thesis using assms by (simp add: chat_inv_def room_inv_def upd_room_def)
qed

lemma Serve_safe:
  assumes "chat_inv low w" and "Serve_turn w = Some w'"
  shows "chat_inv low w'"
proof -
  obtain m ms where b: "broadcast (the_room w) = m # ms" "w' = (upd_room (\<lambda>r. r\<lparr>broadcast := ms\<rparr>) w)\<lparr>spawned := spawned w @ [m]\<rparr>"
    using assms(2) by (auto simp: Serve_turn_def split: list.splits)
  have "chat_inv low (upd_room (\<lambda>r. r\<lparr>broadcast := ms\<rparr>) w)"
    using assms(1) b(1) by (intro chat_upd_room) (simp_all add: chat_inv_def)
  then show ?thesis
    unfolding b(2) using assms(1) b(1) by (intro chat_spawn) (simp_all add: chat_inv_def)
qed

lemma chat_unspawn: "chat_inv low w \<Longrightarrow> spawned w = xs @ m # ys \<Longrightarrow> no_nil m \<and> chat_inv low (w\<lparr>spawned := xs @ ys\<rparr>)"
  by (intro conjI chat_spawn) (simp_all add: chat_inv_def)

lemma chat_step_inv: "chat_step c err_text line human w w' \<Longrightarrow> chat_inv low w \<Longrightarrow> chat_inv low w'"
proof (induction rule: chat_step.induct)
  case (say m w w')
  then show ?case using chat_sent [of low w m] by simp
next
  case (serve w w')
  then show ?case by (blast intro: Serve_safe)
next
  case (handle w xs m ys e pick w')
  from chat_unspawn [OF handle.prems handle.hyps(1)] have "no_nil m" "chat_inv low (w\<lparr>spawned := xs @ ys\<rparr>)" by blast+
  moreover have "env_good e" using handle.hyps(2-4) by (simp add: env_good_def)
  ultimately show ?case
    using chat_runner.HandleMsg_safe [of low "w\<lparr>spawned := xs @ ys\<rparr>" e m c err_text line pick "clock e"] handle.hyps(5) by auto
next
  case (join pick now p w r w')
  then show ?case using Join_safe [of low w pick now p] by auto
next
  case (leave now p w r w')
  then show ?case using Leave_safe [of low w human now p] by auto
next
  case (consume w p u)
  then show ?case
    using chat_user [OF consume.prems, of p] by (intro chat_upd_user) (auto dest: user_wf_consumes)
next
  case (topic w s)
  then show ?case unfolding SetTopic_def by (intro chat_upd_room) (simp_all add: chat_inv_def)
qed

lemma chat_steps_inv: "(chat_step c err_text line human)\<^sup>*\<^sup>* w w' \<Longrightarrow> chat_inv low w \<Longrightarrow> chat_inv low w'"
  by (induction rule: rtranclp_induct) (auto intro: chat_step_inv)

lemma two_steps:
  "chat_step c err_text line human w w' \<Longrightarrow> chat_step c err_text line human w' w'' \<Longrightarrow>
    (chat_step c err_text line human)\<^sup>*\<^sup>* w w''"
  by auto

section \<open>Properties\<close>

text \<open>the chat never panics. From a room in its initial state with no members, after
  any number of messages, turns of \<open>Serve\<close>, messages handled in any order, commands
  of every kind, users joining, leaving and reading: every message that a goroutine
  still has to handle is handled without a panic, and so is every attempt to join,
  to leave and to send.\<close>

theorem chat_never_panics:
  assumes "the_room w0 = NewRoom low" and "spawned w0 = []" and "\<forall>p. user_wf low (users w0 p)"
    and "(chat_step c err_text line human)\<^sup>*\<^sup>* w0 w"
    and "spawned w = xs @ m # ys" and "permuting (order e)" and "0 \<le> rand1 e" and "0 \<le> rand2 e"
  shows "HandleMsg (Commands_Run (\<lambda>h. chat_call h e) c) err_text line (order e) pick (clock e) m (w\<lparr>spawned := xs @ ys\<rparr>) \<noteq> None
    \<and> Room.Join pick now p w \<noteq> None \<and> Leave human now p w \<noteq> None \<and> Room_Send m' w \<noteq> None"
proof -
  have "history_inv (NewHistory historyLen)" by (rule history_inv_New) (simp add: historyLen_def)
  then have "chat_inv low w0"
    using assms(1-3) by (simp add: chat_inv_def room_inv_def NewRoom_def NewHistory_def set_inv_New) (simp add: New_def)
  then have inv: "chat_inv low w" using chat_steps_inv [OF assms(4)] by simp
  from chat_unspawn [OF this assms(5)] have "no_nil m" "chat_inv low (w\<lparr>spawned := xs @ ys\<rparr>)" by blast+
  moreover have "env_good e" using assms(6-8) by (simp add: env_good_def)
  ultimately have "HandleMsg (Commands_Run (\<lambda>h. chat_call h e) c) err_text line (order e) pick (clock e) m (w\<lparr>spawned := xs @ ys\<rparr>) \<noteq> None"
    using chat_runner.HandleMsg_safe [of low "w\<lparr>spawned := xs @ ys\<rparr>" e m c err_text line pick "clock e"] by auto
  then show ?thesis
    using inv Join_safe [OF inv, of pick now p] Leave_safe [OF inv, of human now p] by (auto simp: Room_Send_def chat_inv_def)
qed


theorem chat_never_panics_witness:
  "\<exists>w :: world. spawned w = [PublicMsg ''hi'' 3 (Some 0)] \<and>
    HandleMsg (Commands_Run (\<lambda>h. chat_call h ex_env) defaultCommands) (\<lambda>e. []) (\<lambda>m. []) (order ex_env) (\<lambda>p. False)
      (clock ex_env) (PublicMsg ''hi'' 3 (Some 0)) (w\<lparr>spawned := [] @ []\<rparr>) \<noteq> None"
proof -
  let ?m = "PublicMsg ''hi'' 3 (Some 0)" and ?w0 = "ex_world\<lparr>the_room := NewRoom id\<rparr>"
  let ?w1 = "upd_room (\<lambda>r. r\<lparr>broadcast := broadcast r @ [?m]\<rparr>) ?w0"
  let ?w2 = "(upd_room (\<lambda>r. r\<lparr>broadcast := []\<rparr>) ?w1)\<lparr>spawned := spawned ?w1 @ [?m]\<rparr>"
  let ?step = "chat_step defaultCommands (\<lambda>e. []) (\<lambda>m. []) (\<lambda>t. [])"
  have s1: "?step ?w0 ?w1"
    by (rule chat_step.say [of ?m]) (simp_all add: no_nil_def Room_Send_def NewRoom_def)
  have s2: "?step ?w1 ?w2"
    by (rule chat_step.serve) (simp add: Serve_turn_def upd_room_def NewRoom_def)
  have steps: "?step\<^sup>*\<^sup>* ?w0 ?w2"
    by (rule two_steps [OF s1 s2])
  have "\<forall>p. user_wf id (users ?w0 p)" using ex_chat_inv by (simp add: chat_inv_def)
  then have "HandleMsg (Commands_Run (\<lambda>h. chat_call h ex_env) defaultCommands) (\<lambda>e. []) (\<lambda>m. []) (order ex_env) (\<lambda>p. False)
      (clock ex_env) ?m (?w2\<lparr>spawned := [] @ []\<rparr>) \<noteq> None"
    using chat_never_panics [OF _ _ _ steps, where low = id and xs = "[]" and m = ?m and ys = "[]" and e = ex_env
        and pick = "\<lambda>p. False"]
    by (simp add: upd_room_def)
  moreover have "spawned ?w2 = [?m]" by (simp add: upd_room_def)
  ultimately show ?thesis by blast
qed

end
