(* ===== verification/Complete.thy ===== *)
theory Complete
  imports ChatRun TermEdit
begin

text \<open>
  Completion of names and commands (\<open>host.go\<close>: \<open>completeName\<close>, \<open>completeCommand\<close>,
  \<open>AutoCompleteFunction\<close>, \<open>GetUser\<close>), the callback that the host gives to the
  terminal. Positions are byte offsets into the line, as the terminal passes them.
\<close>

section \<open>Definitions\<close>

text \<open>\<open>strings.Replace(s, old, new, 1)\<close>; an empty \<open>old\<close> is found at the start.\<close>

fun Replace1 :: "string \<Rightarrow> string \<Rightarrow> string \<Rightarrow> string" where
  "Replace1 s old new =
    (if HasPrefix s old then new @ drop (length old) s
     else case s of [] \<Rightarrow> [] | c # cs \<Rightarrow> c # Replace1 cs old new)"

declare Replace1.simps [simp del]

definition GetUser :: "time \<Rightarrow> string \<Rightarrow> 'w world_scheme \<Rightarrow> (uid option \<times> 'w world_scheme) option" where
  "GetUser now name w = do {
     (found, w) \<leftarrow> MemberByID now name w;
     Some (map_option (\<lambda>k. m_user (members w k)) found, w)
   }"

type_synonym user_sort = "(user \<Rightarrow> user \<Rightarrow> bool) \<Rightarrow> user list \<Rightarrow> user list"

definition completeName :: "user_sort \<Rightarrow> env \<Rightarrow> string \<Rightarrow> string \<Rightarrow> 'w world_scheme
    \<Rightarrow> (string \<times> 'w world_scheme) option" where
  "completeName srt e partial skipName w = do {
     (ns, w) \<leftarrow> NamesPrefix srt (order e) (clock e) partial w;
     Some (case ns of
       [] \<Rightarrow> ([], w)
     | name # rest \<Rightarrow>
         if name \<noteq> skipName then (name, w)
         else (case rest of [] \<Rightarrow> ([], w) | n # _ \<Rightarrow> (n, w)))
   }"

definition completeCommand :: "sched \<Rightarrow> 'h commands \<Rightarrow> string \<Rightarrow> string" where
  "completeCommand ord c partial =
    (case find (\<lambda>cmd. HasPrefix cmd partial) (ord (map fst c)) of None \<Rightarrow> [] | Some cmd \<Rightarrow> cmd)"

text \<open>The command under the cursor; \<open>/reply\<close> becomes \<open>/msg\<close> to whom one would reply.\<close>

definition completed_command :: "env \<Rightarrow> 'h commands \<Rightarrow> uid \<Rightarrow> string \<Rightarrow> 'w world_scheme
    \<Rightarrow> (string \<times> 'w world_scheme) option" where
  "completed_command e c p partial w =
    (let completed = completeCommand (order e) c partial in
     if completed \<noteq> ''/reply'' then Some (completed, w)
     else case replyTo (users w p) of
       None \<Rightarrow> Some (completed, w)
     | Some q \<Rightarrow> do {
         let name = uID w q;
         (found, w) \<leftarrow> GetUser (clock e) name w;
         Some (if found \<noteq> None then (''/msg '' @ name, w) else (completed, upd_user p (SetReplyTo None) w))
       })"

text \<open>The line with the completion in the place of the word, and the cursor behind it.\<close>

definition place :: "string \<Rightarrow> nat \<Rightarrow> string \<Rightarrow> string \<Rightarrow> string \<times> int" where
  "place ln ps partial completed =
    (let completed = completed @ '' '';
         posPartial = ps - length partial;
         newLine = take posPartial ln @ Replace1 (drop posPartial ln) partial completed;
         newPos = int ps + (int (length completed) - int (length partial)) in
     (newLine, newPos))"

text \<open>The new line and cursor, or \<open>None\<close> for no completion; the outer option is a
  panic.\<close>

definition AutoComplete :: "user_sort \<Rightarrow> env \<Rightarrow> 'h commands \<Rightarrow> uid \<Rightarrow> string \<Rightarrow> nat \<Rightarrow> rune \<Rightarrow> 'w world_scheme
    \<Rightarrow> ((string \<times> int) option \<times> 'w world_scheme) option" where
  "AutoComplete srt e c p ln ps key w =
    (if key \<noteq> 9 then Some (None, w)
     else if ln = [] then Some (None, w)
     else if length ln < ps then None
     else if HasSuffix (take ps ln) '' '' then Some (None, w)
     else
       let fields = Fields (take ps ln);
           isFirst = (length fields < 2);
           partial = (if fields = [] then [] else last fields) in
       if ps < length partial then None
       else
         if isFirst \<and> HasPrefix ln ''/'' then do {
           (completed, w) \<leftarrow> completed_command e c p partial w;
           Some (Some (place ln ps partial completed), w)
         }
         else do {
           (completed, w) \<leftarrow> completeName srt e partial (uName w p) w;
           Some (if completed = [] then (None, w)
             else (Some (place ln ps partial (if isFirst then completed @ '':'' else completed)), w))
         })"

section \<open>Lemmas\<close>

lemma Replace1_front: "HasPrefix s old \<Longrightarrow> Replace1 s old new = new @ drop (length old) s"
  by (subst Replace1.simps) simp

text \<open>A line that does not end in a space ends in its last field.\<close>

lemma last_field:
  "xs \<noteq> [] \<or> cur \<noteq> [] \<Longrightarrow> (xs \<noteq> [] \<Longrightarrow> \<not> IsSpace (fst (last xs)) \<and> snd (last xs) \<noteq> []) \<Longrightarrow>
    fields_from xs cur \<noteq> [] \<and> (\<exists>pre. cur @ concat (map snd xs) = pre @ last (fields_from xs cur))"
proof (induction xs arbitrary: cur)
  case Nil
  then show ?case by simp
next
  case (Cons x xs)
  obtain r b where x: "x = (r, b)" by fastforce
  show ?case
  proof (cases "IsSpace r")
    case True
    then have "xs \<noteq> []" using Cons.prems(2) x by auto
    then have "fields_from xs [] \<noteq> []" "\<exists>pre. concat (map snd xs) = pre @ last (fields_from xs [])"
      using Cons.IH [of "[]"] Cons.prems(2) by auto
    then show ?thesis using True x by (metis append.assoc concat.simps(2) fields_from.simps(2) last_ConsR list.distinct(1) list.simps(9) snd_conv)
  next
    case False
    have "xs \<noteq> [] \<or> cur @ b \<noteq> []" using Cons.prems x by auto
    then have "fields_from xs (cur @ b) \<noteq> [] \<and> (\<exists>pre. (cur @ b) @ concat (map snd xs) = pre @ last (fields_from xs (cur @ b)))"
      using Cons.prems(2) by (intro Cons.IH) (simp_all split: if_splits)
    then show ?thesis using False x by simp
  qed
qed

lemma chunks_nonempty_parts: "(r, b) \<in> set (chunks s) \<Longrightarrow> b \<noteq> []"
proof (induction s rule: chunks.induct)
  case (2 c cs)
  obtain x n where d: "DecodeRune (c # cs) = (x, n)" by fastforce
  then have "1 \<le> n" using DecodeRune_width [of "c # cs"] by (simp del: DecodeRune.simps)
  moreover have "(r, b) = (x, take n (c # cs)) \<or> (r, b) \<in> set (chunks (drop (n - 1) cs))"
    using 2(2) by (simp add: d del: DecodeRune.simps)
  ultimately show ?case using 2(1) [OF d [symmetric] refl] by auto
qed simp

definition ends_in_space :: "string \<Rightarrow> bool" where
  "ends_in_space s \<longleftrightarrow> s \<noteq> [] \<and> IsSpace (last (to_runes s))"

lemma Fields_last:
  assumes "s \<noteq> []" and "\<not> ends_in_space s"
  shows "Fields s \<noteq> [] \<and> (\<exists>pre. s = pre @ last (Fields s))"
proof -
  have ne: "chunks s \<noteq> []" by (rule chunks_nonempty [OF assms(1)])
  then have "\<not> IsSpace (fst (last (chunks s)))" using assms by (simp add: ends_in_space_def to_runes_def last_map)
  moreover have "snd (last (chunks s)) \<noteq> []"
    using chunks_nonempty_parts [of "fst (last (chunks s))" "snd (last (chunks s))" s] last_in_set [OF ne] by simp
  ultimately show ?thesis
    using last_field [of "chunks s" "[]"] ne chunks_bytes [of s] by (simp add: Fields_def)
qed


lemma NamesPrefix_eq:
  assumes "room_inv low w" and "permuting ord"
  shows "\<exists>ks. distinct ks \<and> set ks = {k \<in> room_mids w. HasPrefix (normalize low (uID w (m_user (members w k)))) (normalize low pre)} \<and>
    NamesPrefix srt ord now pre w =
      Some (map (\<lambda>u. ID (ident_of u)) (srt RecentActive_Less (map (\<lambda>k. users w (m_user (members w k))) ks)), w)"
proof -
  let ?s = "Members (the_room w)"
  let ?L = "fst (ListPrefix ord now pre ?s)"
  define f where "f it = (the (as_member (Value now it)) :: mid)" for it
  define ks where "ks = map f ?L"
  have n: "normalizer ?s = normalize low" by (rule room_normalizer [OF assms(1)])
  have inv: "set_inv ?s" using assms(1) by (simp add: room_inv_def)
  have k: "it = entry_of w (f it)" if "it \<in> set ?L" for it
    using room_ListPrefix(2) [OF assms that] by (auto simp: f_def)
  have "inj_on f (set ?L)" using k by (metis inj_onI)
  moreover have "distinct ?L"
  proof -
    let ?es = "entries ord ?s"
    have "inj_on snd (set ?es)"
    proof (rule inj_onI, clarsimp)
      fix a b a' assume "(a, b) \<in> set ?es" "(a', b) \<in> set ?es"
      then show "a = a'"
        using set_inv_key [OF inv] by (metis entries_mem [OF assms(2)])
    qed
    moreover have "distinct ?es" using entries_distinct [OF assms(2) inv] by (simp add: distinct_map)
    ultimately show ?thesis
      by (auto simp: ListPrefix_result distinct_map intro: inj_on_subset)
  qed
  ultimately have "distinct ks" by (simp add: ks_def distinct_map)
  moreover have "set ks = {k \<in> room_mids w. HasPrefix (normalize low (uID w (m_user (members w k)))) (normalize low pre)}"
  proof -
    have "set ?L = entry_of w ` {k \<in> room_mids w. HasPrefix (normalize low (uID w (m_user (members w k)))) (normalize low pre)}"
    proof -
      have "it \<in> set ?L \<longleftrightarrow> (\<exists>key. map_of (lookup ?s) key = Some it \<and> Value now it \<noteq> None \<and> HasPrefix key (normalize low pre))" for it
        by (auto simp: ListPrefix_set [OF assms(2)] live_eq_Some n)
      moreover have "(\<exists>key. map_of (lookup ?s) key = Some it \<and> Value now it \<noteq> None \<and> HasPrefix key (normalize low pre)) \<longleftrightarrow>
          (\<exists>k. it = entry_of w k \<and> k \<in> room_mids w \<and> HasPrefix (normalize low (uID w (m_user (members w k)))) (normalize low pre))" for it
        using room_inv_entry [OF assms(1)] room_key [OF assms(1)] by (fastforce simp: room_mids_def)
      ultimately show ?thesis by auto
    qed
    then show ?thesis by (simp add: ks_def f_def image_image)
  qed
  moreover have "those (map (\<lambda>it. map_option (\<lambda>k. users w (m_user (members w k))) (as_member (Value now it))) ?L) =
      Some (map (\<lambda>it. users w (m_user (members w (f it)))) ?L)"
    by (rule those_total) (metis k entry_Value option.simps(9))
  ultimately show ?thesis
    using room_ListPrefix(1) [OF assms, of now pre]
    by (intro exI [of _ ks]) (simp add: NamesPrefix_def case_prod_unfold ks_def comp_def)
qed

lemma completeName_total:
  assumes "room_inv low w" and "permuting (order e)"
  shows "\<exists>n. completeName srt e partial skip w = Some (n, w)"
  using NamesPrefix_eq [OF assms, of partial srt "clock e"]
  by (auto simp: completeName_def split: list.split)

lemma completed_command_total:
  assumes "chat_inv low w"
  shows "\<exists>s w'. completed_command e c p partial w = Some (s, w') \<and> chat_inv low w'"
proof -
  have "chat_inv low (upd_user p (SetReplyTo None) w)"
    by (rule chat_upd_user [OF assms]) (use chat_user [OF assms, of p] in \<open>simp_all add: user_wf_def SetReplyTo_def\<close>)
  then show ?thesis
    using assms by (auto simp: completed_command_def Let_def GetUser_def MemberByID_eq [OF chat_room [OF assms]] split: option.split)
qed

text \<open>What is put in the place of the word before the cursor.\<close>

definition word_at :: "string \<Rightarrow> nat \<Rightarrow> string" where
  "word_at ln ps = (if Fields (take ps ln) = [] then [] else last (Fields (take ps ln)))"

lemma word_at_place:
  assumes "ps \<le> length ln" and "\<not> ends_in_space (take ps ln)"
  shows "length (word_at ln ps) \<le> ps" and "HasPrefix (drop (ps - length (word_at ln ps)) ln) (word_at ln ps)"
    and "drop (length (word_at ln ps)) (drop (ps - length (word_at ln ps)) ln) = drop ps ln"
proof -
  obtain pre where pre: "take ps ln = pre @ word_at ln ps"
    using Fields_last [OF _ assms(2)] by (cases "take ps ln = []") (auto simp: word_at_def Fields_def)
  then have len: "length pre + length (word_at ln ps) = ps"
    using assms(1) by (metis length_append length_take min.absorb2)
  then show "length (word_at ln ps) \<le> ps" by simp
  have "ln = pre @ word_at ln ps @ drop ps ln" using pre by (metis append.assoc append_take_drop_id)
  moreover have "ps - length (word_at ln ps) = length pre" using len by simp
  ultimately have d: "drop (ps - length (word_at ln ps)) ln = word_at ln ps @ drop ps ln" by (metis append_eq_conv_conj)
  show "HasPrefix (drop (ps - length (word_at ln ps)) ln) (word_at ln ps)"
    unfolding d by (simp add: HasPrefix_def)
  show "drop (length (word_at ln ps)) (drop (ps - length (word_at ln ps)) ln) = drop ps ln"
    unfolding d by simp
qed

section \<open>Properties\<close>



text \<open>the names offered are the members'. For any sorting that only reorders,
  \<open>NamesPrefix\<close> returns each member whose name has the prefix up to case once, nobody
  else, and changes nothing.\<close>

theorem NamesPrefix_members:
  assumes "room_inv low w" and "permuting ord" and "\<forall>l us. mset (srt l us) = mset us"
  shows "\<exists>ns. NamesPrefix srt ord now pre w = Some (ns, w) \<and>
    mset ns = image_mset (uID w) (mset_set {p \<in> room_users w. HasPrefix (normalize low (uID w p)) (normalize low pre)})"
proof -
  let ?K = "{k \<in> room_mids w. HasPrefix (normalize low (uID w (m_user (members w k)))) (normalize low pre)}"
  let ?u = "\<lambda>k. m_user (members w k)"
  obtain ks where ks: "distinct ks" "set ks = ?K"
    "NamesPrefix srt ord now pre w = Some (map (\<lambda>u. ID (ident_of u)) (srt RecentActive_Less (map (\<lambda>k. users w (?u k)) ks)), w)"
    using NamesPrefix_eq [OF assms(1,2), of pre srt now] by blast
  have "mset (map (\<lambda>u. ID (ident_of u)) (srt RecentActive_Less (map (\<lambda>k. users w (?u k)) ks))) =
      image_mset (\<lambda>u. ID (ident_of u)) (mset (map (\<lambda>k. users w (?u k)) ks))"
    using assms(3) by simp
  also have "\<dots> = image_mset (uID w) (image_mset ?u (mset ks))"
    by (simp add: uID_def image_mset.compositionality comp_def)
  also have "mset ks = mset_set ?K" using ks(1,2) by (metis mset_set_set)
  also have "image_mset ?u (mset_set ?K) = mset_set (?u ` ?K)"
    by (rule image_mset_mset_set, rule inj_on_subset [OF room_mids_inj [OF assms(1)]]) simp
  also have "?u ` ?K = {p \<in> room_users w. HasPrefix (normalize low (uID w p)) (normalize low pre)}"
    by (auto simp: room_users_mids)
  finally show ?thesis using ks(3) by auto
qed

theorem NamesPrefix_members_witness:
  "\<exists>ns. NamesPrefix (\<lambda>l us. us) rev 3 ''A'' ex_world = Some (ns, ex_world) \<and> mset ns = {#''al''#}"
proof -
  have "normalize id ''A'' = ''a''" by code_simp
  then have "{p \<in> room_users ex_world. HasPrefix (normalize id (uID ex_world p)) (normalize id ''A'')} = {0}"
    unfolding ex_users by (auto simp: ex_norm HasPrefix_def)
  moreover have "\<forall>l us. mset ((\<lambda>l us. us) l us) = mset (us :: user list)" by simp
  ultimately show ?thesis
    using NamesPrefix_members [OF ex_inv permuting_rev, of "\<lambda>l us. us" 3 "''A''"] by simp
qed

lemma four: "Suc (Suc (Suc (Suc 0))) = 4"
  by simp

text \<open>completion can leave the line. When the text before the cursor ends in a
  space other than the blank, here U+00A0 in two bytes, the word is looked for
  behind its place: nothing is replaced, and the cursor that is returned lies
  behind the end of the line. A terminal with that callback panics on the tabulator.\<close>

theorem completion_leaves_line:
  assumes "completeName srt e ''al'' (uName w p) w = Some (name, w')" and "name \<noteq> []"
    and "AutoCompleteCallback t = Some (\<lambda>l ps key. case AutoComplete srt e c p l (nat ps) key w of Some (r, v) \<Rightarrow> r | None \<Rightarrow> None)"
    and "line t = [97, 108, 0xA0]" and "pos t = 3" and "pasteActive t = False"
  shows "AutoComplete srt e c p (''al'' @ [byte 0xC2, byte 0xA0]) 4 9 w =
      Some (Some (''al'' @ [byte 0xC2, byte 0xA0], int (length name) + 4), w') \<and>
    handleKey_default wd 9 t = None"
proof -
  let ?ln = "''al'' @ [byte 0xC2, byte 0xA0]"
  have "Fields ?ln = [''al'']"
    by (simp add: Fields_def IsSpace_def lead_def cont_byte_def bv_def byte_def char_of_def bit_0 bit_Suc)
  moreover have "HasSuffix ?ln '' '' = False" "HasPrefix ?ln ''/'' = False"
    by (simp_all add: HasSuffix_def HasPrefix_def suffix_def byte_def char_of_def bit_0 bit_Suc)
  moreover have "Replace1 [byte 0xC2, byte 0xA0] ''al'' x = [byte 0xC2, byte 0xA0]" for x
    by (simp add: Replace1.simps HasPrefix_def byte_def char_of_def bit_0 bit_Suc)
  ultimately have a: "AutoComplete srt e c p ?ln 4 9 w = Some (Some (?ln, int (length name) + 4), w')"
    using assms(1,2) by (simp add: AutoComplete_def place_def)
  have "of_runes [97, 108, 0xA0] = ?ln" "of_runes [] = []"
    by (simp_all add: of_runes_def encode_rune_def valid_rune_def surrogate_def byte_def char_of_def bit_0 bit_Suc)
  then have "handleKey_default wd 9 t = None"
    using assms(2-6) a by (simp add: handleKey_default_def four Let_def)
  then show ?thesis using a by blast
qed


lemma ex_completeName: "completeName (\<lambda>l us. us) ex_env ''al'' (uName ex_world 1) ex_world = Some (''al'', ex_world)"
proof -
  obtain ks where ks: "distinct ks" "set ks = {k \<in> room_mids ex_world. HasPrefix (normalize id (uID ex_world (m_user (members ex_world k)))) (normalize id ''al'')}"
    "NamesPrefix (\<lambda>l us. us) (order ex_env) (clock ex_env) ''al'' ex_world =
      Some (map (\<lambda>u. ID (ident_of u)) (map (\<lambda>k. users ex_world (m_user (members ex_world k))) ks), ex_world)"
    using NamesPrefix_eq [OF ex_inv, of "order ex_env" "''al''" "\<lambda>l us. us" "clock ex_env"] by auto
  have "room_mids ex_world = {0}"
    using ex_users by (auto simp: room_users_mids)
  then have "set ks = {0}" using ks(2) by (auto simp: ex_norm HasPrefix_def)
  then have "ks = [0]" using ks(1) by (cases ks; cases "tl ks") auto
  moreover have "uName ex_world 1 = ''bob''" by (simp add: uName_def ex_world_def NewUser_def)
  ultimately show ?thesis
    using ks(3) by (simp add: completeName_def uID_ID)
qed

theorem completion_leaves_line_witness:
  "\<exists>t. handleKey_default (\<lambda>r. False) 9 t = None"
proof -
  let ?f = "\<lambda>l ps key. case AutoComplete (\<lambda>l us. us) ex_env defaultCommands 1 l (nat ps) key ex_world of Some (r, v) \<Rightarrow> r | None \<Rightarrow> None"
  let ?t = "(NewTerminal [])\<lparr>AutoCompleteCallback := Some ?f, line := [97, 108, 0xA0], pos := 3\<rparr>"
  have "handleKey_default (\<lambda>r. False) 9 ?t = None"
    using completion_leaves_line [OF ex_completeName, of ?t defaultCommands "\<lambda>r. False"] by (simp add: NewTerminal_def)
  then show ?thesis by blast
qed

text \<open>a command that does not exist is erased: with no command that begins with the
  word before the cursor, the tabulator replaces the word by a blank.\<close>

theorem unknown_command_erased:
  assumes "Fields (''/'' @ s) = [''/'' @ s]" and "HasSuffix (''/'' @ s) '' '' = False" and "completeCommand (order e) c (''/'' @ s) = []"
  shows "AutoComplete srt e c p (''/'' @ s) (length s + 1) 9 w = Some (Some ('' '', 1), w)"
  using assms
  by (simp add: AutoComplete_def HasPrefix_def completed_command_def place_def Replace1_front)

theorem unknown_command_erased_witness:
  "AutoComplete (\<lambda>l us. us) ex_env defaultCommands 1 ''/foo'' 4 9 ex_world = Some (Some ('' '', 1), ex_world)"
proof -
  have "Fields (''/'' @ ''foo'') = [''/'' @ ''foo'']"
    by (simp add: Fields_def IsSpace_def str_eval)
  moreover have "HasSuffix (''/'' @ ''foo'') '' '' = False" by (simp add: HasSuffix_def suffix_def)
  moreover have "completeCommand (order ex_env) defaultCommands (''/'' @ ''foo'') = []" unfolding ex_env_simps by code_simp
  ultimately show ?thesis
    using unknown_command_erased [of "''foo''" ex_env defaultCommands "\<lambda>l us. us" 1 ex_world] by (simp add: four)
qed

end
