(* ===== verification/Host.thy ===== *)
theory Host
  imports Complete AuthDb
begin

text \<open>
  The host (\<open>host.go\<close>, the whois texts of \<open>identity.go\<close>): its own commands, which
  act on the room and on the authentication database, and the life of a connection.

  The state \<open>host\<close> extends the state of the chat. \<open>conn_of\<close> gives, for a user, the
  connection behind its \<open>*Identity\<close>. A handler of the host is like one of the chat,
  over this state. \<open>OnChange\<close> sets the prompt and the highlight of a user, which
  nothing here reads; it is not part of the state. A theme that users share with
  the host by pointer is copied; \<open>SetTheme\<close> is called before the host serves.
\<close>

section \<open>State\<close>

record conn =
  c_name :: string
  c_key :: "pubkey option"
  c_addr :: netaddr
  c_version :: string
  c_created :: time

record host = world +
  auth_db :: auth
  conn_of :: "uid \<Rightarrow> conn"
  Version :: string
  h_motd :: string
  h_count :: nat
  h_theme :: Theme
  GetMOTD :: "(time \<Rightarrow> go_error + string) option"

text \<open>What the handlers read from outside, besides \<open>env\<close>: the library of the
  database, the text of the time since a moment, \<open>ssh.ParseAuthorizedKey\<close>, and the time
  the host was made.\<close>

record henv =
  base :: env
  hlib :: golib
  since :: "time \<Rightarrow> string"
  ParseKey :: "string \<Rightarrow> go_error + pubkey"
  started :: time

type_synonym hcmd = "henv \<Rightarrow> uid \<Rightarrow> string \<Rightarrow> string list \<Rightarrow> host \<Rightarrow> (go_error option \<times> host) option"

definition now_of :: "henv \<Rightarrow> time" where
  "now_of e = clock (base e)"

definition upd_auth :: "(auth \<Rightarrow> auth) \<Rightarrow> host \<Rightarrow> host" where
  "upd_auth f w = w\<lparr>auth_db := f (auth_db w)\<rparr>"

text \<open>The type assertion \<open>Identifier.(*Identity)\<close>.\<close>

definition as_identity :: "host \<Rightarrow> uid \<Rightarrow> conn option" where
  "as_identity w p = (case ident_of (users w p) of Identity i s \<Rightarrow> Some (conn_of w p) | SimpleID i \<Rightarrow> None)"

definition announce :: "henv \<Rightarrow> string \<Rightarrow> host \<Rightarrow> host option" where
  "announce e s w = Room_Send (NewAnnounceMsg (now_of e) s) w"

definition tell :: "henv \<Rightarrow> uid \<Rightarrow> string \<Rightarrow> host \<Rightarrow> host option" where
  "tell e q s w = Room_Send (NewSystemMsg (now_of e) s (Some q)) w"

definition ok :: "host option \<Rightarrow> (go_error option \<times> host) option" where
  "ok r = map_option (\<lambda>w. (None, w)) r"

text \<open>Every operator command begins with this test.\<close>

definition op_only :: "henv \<Rightarrow> uid \<Rightarrow> (host \<Rightarrow> (go_error option \<times> host) option) \<Rightarrow> host
    \<Rightarrow> (go_error option \<times> host) option" where
  "op_only e p f w = do {
     (op, w) \<leftarrow> Room_IsOp (now_of e) p w;
     if \<not> op then fail ''must be op'' w else f w
   }"

section \<open>Private messages\<close>

definition sendPM :: "henv \<Rightarrow> string \<Rightarrow> uid \<Rightarrow> uid \<Rightarrow> host \<Rightarrow> (go_error option \<times> host) option" where
  "sendPM e body p target w = do {
     w \<leftarrow> Room_Send (PrivateMsg_ptr body (now_of e) (Some p) (Some target)) w;
     let txt = ''[Sent PM to '' @ uName w target @ '']'';
     let txt = (case GetAway (users w target) of (isAway, t, reason) \<Rightarrow>
       if isAway then txt @ '' Away: '' @ reason else txt);
     w \<leftarrow> tell e p txt w;
     Some (None, upd_user target (SetReplyTo (Some p)) w)
   }"

definition host_msg :: hcmd where
  "host_msg e p body args w =
    (case args of
       [] \<Rightarrow> fail ''must specify user'' w
     | [_] \<Rightarrow> fail ''must specify message'' w
     | name # rest \<Rightarrow> do {
         (found, w) \<leftarrow> GetUser (now_of e) name w;
         (case found of
            None \<Rightarrow> fail ''user not found'' w
          | Some target \<Rightarrow> sendPM e (GoStrings.Join rest '' '') p target w)
       })"

definition host_reply :: hcmd where
  "host_reply e p body args w =
    (if args = [] then fail ''must specify message'' w
     else case replyTo (users w p) of
       None \<Rightarrow> fail ''no message to reply to'' w
     | Some target \<Rightarrow> do {
         (found, w) \<leftarrow> GetUser (now_of e) (uID w target) w;
         (if found = None then fail ''user not found'' w
          else sendPM e (GoStrings.Join args '' '') p target w)
       })"

section \<open>Whois\<close>

definition fingerprint_text :: "henv \<Rightarrow> conn \<Rightarrow> string" where
  "fingerprint_text e c = (case c_key c of None \<Rightarrow> ''(no public key)'' | Some k \<Rightarrow> Fingerprint (hlib e) k)"

definition away_text :: "henv \<Rightarrow> user \<Rightarrow> string" where
  "away_text e u =
    (case GetAway u of (isAway, t, awayMessage) \<Rightarrow>
       if isAway then Newline @ '' > away: ('' @ since e t @ '' ago) '' @ awayMessage else [])"

definition Whois :: "henv \<Rightarrow> uid \<Rightarrow> conn \<Rightarrow> host \<Rightarrow> (string \<times> host) option" where
  "Whois e q c w = do {
     (found, w) \<leftarrow> MemberByID (now_of e) (uID w q) w;
     let awayMsg = (case found of Some k \<Rightarrow> away_text e (users w (m_user (members w k))) | None \<Rightarrow> []);
     Some (''name: '' @ uName w q @ Newline @ '' > fingerprint: '' @ fingerprint_text e c @ Newline @
       '' > client: '' @ Data (c_version c) 64 @ Newline @ '' > joined: '' @ since e (c_created c) @ '' ago'' @ awayMsg, w)
   }"

definition WhoisAdmin :: "henv \<Rightarrow> uid \<Rightarrow> conn \<Rightarrow> host \<Rightarrow> (string \<times> host) option" where
  "WhoisAdmin e q c w = do {
     let txt = ''name: '' @ uName w q @ Newline @ '' > ip: '' @ SplitHost (c_addr c) @ Newline @
       '' > fingerprint: '' @ fingerprint_text e c @ Newline @ '' > client: '' @ Data (c_version c) 64 @ Newline @
       '' > joined: '' @ since e (c_created c) @ '' ago'';
     (found, w) \<leftarrow> MemberByID (now_of e) (uID w q) w;
     (case found of
        None \<Rightarrow> Some (txt, w)
      | Some k \<Rightarrow> do {
          let m = m_user (members w k);
          let txt = txt @ away_text e (users w m);
          let txt = (if lastMsg (users w m) \<noteq> 0
            then txt @ Newline @ '' > room/messaged: '' @ since e (lastMsg (users w m)) @ '' ago'' else txt);
          (op, w) \<leftarrow> Room_IsOp (now_of e) m w;
          Some (if op then txt @ Newline @ '' > room/op: true'' else txt, w)
        })
   }"

definition host_whois :: hcmd where
  "host_whois e p body args w =
    (case args of
       [] \<Rightarrow> fail ''must specify user'' w
     | name # _ \<Rightarrow> do {
         (found, w) \<leftarrow> GetUser (now_of e) name w;
         (case found of
            None \<Rightarrow> fail ''user not found'' w
          | Some target \<Rightarrow> do {
              c \<leftarrow> as_identity w target;
              (op, w) \<leftarrow> Room_IsOp (now_of e) p w;
              (txt, w) \<leftarrow> (if op then WhoisAdmin e target c w else Whois e target c w);
              ok (tell e p txt w)
            })
       })"

definition host_version :: hcmd where
  "host_version e p body args w = ok (tell e p (Version w) w)"

definition host_uptime :: hcmd where
  "host_uptime e p body args w = ok (tell e p (since e (started e)) w)"

section \<open>Operator commands\<close>

definition host_kick :: hcmd where
  "host_kick e p body args w = op_only e p (\<lambda>w.
    (case args of
       [] \<Rightarrow> fail ''must specify user'' w
     | name # _ \<Rightarrow> do {
         (found, w) \<leftarrow> GetUser (now_of e) name w;
         (case found of
            None \<Rightarrow> fail ''user not found'' w
          | Some target \<Rightarrow> do {
              w \<leftarrow> announce e (uName w target @ '' was kicked by '' @ uName w p @ ''.'') w;
              Some (None, upd_user target Close w)
            })
       })) w"

text \<open>An error of \<open>ParseDuration\<close> leaves the duration at zero.\<close>

definition duration_arg :: "henv \<Rightarrow> string list \<Rightarrow> duration" where
  "duration_arg e args =
    (case args of _ # d # _ \<Rightarrow> (case Parse_Duration (base e) d of Inr until \<Rightarrow> until | Inl err \<Rightarrow> 0) | _ \<Rightarrow> 0)"

definition panicking :: "go_error option \<Rightarrow> bool" where
  "panicking err = (case err of Some (GoPanic s) \<Rightarrow> True | _ \<Rightarrow> False)"

definition host_ban :: hcmd where
  "host_ban e p body args w = op_only e p (\<lambda>w.
    (case args of
       [] \<Rightarrow> fail ''must specify user'' w
     | query # _ \<Rightarrow> do {
         (found, w) \<leftarrow> GetUser (now_of e) query w;
         (case found of
            None \<Rightarrow>
              let query = GoStrings.Join args '' '' in
              if ContainsByte query (CHR ''='') then
                (case BanQuery (hlib e) (now_of e) query (auth_db w) of
                   (err, a) \<Rightarrow> if panicking err then None else Some (err, upd_auth (\<lambda>_. a) w))
              else fail ''user not found'' w
          | Some target \<Rightarrow> do {
              let until = duration_arg e args;
              c \<leftarrow> as_identity w target;
              let w = upd_auth (Ban (hlib e) (now_of e) (c_key c) until) w;
              let w = upd_auth (BanAddr (now_of e) (Some (c_addr c)) until) w;
              w \<leftarrow> announce e (uName w target @ '' was banned by '' @ uName w p @ ''.'') w;
              Some (None, upd_user target Close w)
            })
       })) w"

definition quoted_lines :: "string \<Rightarrow> string list \<Rightarrow> string" where
  "quoted_lines field keys =
    concat (map (\<lambda>key. [byte 10] @ ''   '' @ [byte 34] @ field @ ''='' @ key @ [byte 34]) keys)"

definition host_banned :: hcmd where
  "host_banned e p body args w = op_only e p (\<lambda>w.
    (case Banned (order (base e)) (now_of e) (auth_db w) of
       ((ips, fingerprints, clients), a) \<Rightarrow>
         ok (tell e p (''Banned:'' @ quoted_lines ''ip'' ips @ quoted_lines ''fingerprint'' fingerprints @
           quoted_lines ''client'' clients) (upd_auth (\<lambda>_. a) w)))) w"

definition SetMotd :: "string \<Rightarrow> host \<Rightarrow> host" where
  "SetMotd s w = w\<lparr>h_motd := s\<rparr>"

definition SetTheme :: "Theme \<Rightarrow> host \<Rightarrow> host" where
  "SetTheme t w = w\<lparr>h_theme := t\<rparr>"

definition host_motd :: hcmd where
  "host_motd e p body args w =
    (if args = [] then ok (tell e p (h_motd w) w)
     else do {
       (op, w) \<leftarrow> Room_IsOp (now_of e) p w;
       (if \<not> op then fail ''must be OP to modify the MOTD'' w
        else
          let s = GoStrings.Join args '' '' in
          (case (if s = ''@'' then
                   (case GetMOTD w of
                      None \<Rightarrow> Inl (Errorf ''motd reload not set'')
                    | Some get \<Rightarrow> get (now_of e))
                 else Inr s) of
             Inl err \<Rightarrow> Some (Some err, w)
           | Inr s \<Rightarrow>
               ok (announce e (''New message of the day set by '' @ uName w p @ '':'' @ Newline @ ''-> '' @ s) (SetMotd s w))))
     })"

definition host_op :: hcmd where
  "host_op e p body args w = op_only e p (\<lambda>w.
    (case args of
       [] \<Rightarrow> fail ''must specify user'' w
     | name # rest \<Rightarrow> do {
         let remove = (case rest of r # _ \<Rightarrow> r = ''remove'' | [] \<Rightarrow> False);
         let until = (if remove then 1 else duration_arg e args);
         (found, w) \<leftarrow> MemberByID (now_of e) name w;
         (case found of
            None \<Rightarrow> fail ''user not found'' w
          | Some k \<Rightarrow> do {
              let w = upd_member k (\<lambda>m. m\<lparr>is_op := \<not> remove\<rparr>) w;
              c \<leftarrow> as_identity w (m_user (members w k));
              let w = upd_auth (Op (hlib e) (now_of e) (c_key c) until) w;
              ok (tell e (m_user (members w k))
                ((if \<not> remove then ''Made op by '' else ''Removed op by '') @ uName w p @ ''.'') w)
            })
       })) w"


text \<open>\<open>SetSymbol\<close> of the identity of a user. Its quoted form is the verb \<open>%q\<close>.\<close>

definition set_symbol :: "string \<Rightarrow> uid \<Rightarrow> host \<Rightarrow> host" where
  "set_symbol s p w = upd_user p (\<lambda>u. u\<lparr>ident_of := SetSymbol s (ident_of u)\<rparr>) w"

definition host_rename :: hcmd where
  "host_rename e p body args w = op_only e p (\<lambda>w.
    (case args of
       user_arg # name_arg # rest \<Rightarrow> do {
         (found, w) \<leftarrow> MemberByID (now_of e) user_arg w;
         (case found of
            None \<Rightarrow> fail ''user not found'' w
          | Some k \<Rightarrow>
              let q = m_user (members w k);
                  symbolSet = (length args = 3) in
              if symbolSet \<and> as_identity w q = None then fail ''user does not support setting symbol'' w
              else do {
                w \<leftarrow> (if symbolSet
                  then tell e q (''Assigned symbol '' @ Quote (hlib e) (rest ! 0) @ '' by '' @ uName (set_symbol (rest ! 0) q w) p @ ''.'')
                    (set_symbol (rest ! 0) q w)
                  else Some w);
                let oldID = uID w q;
                let newID = Name name_arg;
                (if newID = oldID \<and> \<not> symbolSet then fail ''new name is the same as the original'' w
                 else if (newID = [] \<or> newID = oldID) \<and> symbolSet then Some (None, w)
                 else do {
                   let w = set_name (rand1 (base e)) newID q w;
                   (err, w) \<leftarrow> Rename (now_of e) oldID k w;
                   (case err of
                      Some err \<Rightarrow> Some (Some err, set_name (rand2 (base e)) oldID q w)
                    | None \<Rightarrow> ok (announce e (oldID @ '' was renamed by '' @ uName w p @ ''.'') w))
                 })
              })
       }
     | _ \<Rightarrow> fail ''must specify user and new name'' w)) w"

section \<open>The allowlist command\<close>

text \<open>A loop over the connected users, with the state \<open>'s\<close> of the callback and the host. An
  error of the callback ends the loop. \<open>None\<close> is a panic of a type assertion.\<close>

definition forConnectedUsers :: "henv \<Rightarrow> (mid \<Rightarrow> pubkey option \<Rightarrow> 's \<Rightarrow> host \<Rightarrow> go_error option \<times> 's \<times> host) \<Rightarrow> 's \<Rightarrow> host
    \<Rightarrow> (go_error option \<times> 's \<times> host) option" where
  "forConnectedUsers e cmd st w =
    (case Each (order (base e)) (now_of e)
        (\<lambda>key it r. case r of
           None \<Rightarrow> (None, None)
         | Some (s, w) \<Rightarrow>
             if Value (now_of e) it = None then (None, Some (s, w))
             else (case as_member (Value (now_of e) it) of
                None \<Rightarrow> (None, None)
              | Some k \<Rightarrow>
                  (case as_identity w (m_user (members w k)) of
                     None \<Rightarrow> (None, None)
                   | Some c \<Rightarrow> (case cmd k (c_key c) s w of (err, s, w) \<Rightarrow> (err, Some (s, w))))))
        (Members (the_room w)) (Some (st, w)) of
       (err, r, ms) \<Rightarrow> map_option (\<lambda>(s, w). (err, s, set_Members ms w)) r)"

text \<open>\<open>%v\<close> of a list of strings.\<close>

definition show_list :: "string list \<Rightarrow> string" where
  "show_list xs = ''['' @ GoStrings.Join xs '' '' @ '']''"

text \<open>The loop of \<open>forPubkeyUser\<close>: the state is the pending type of a key, the invalid users, the
  invalid keys and the users without a key.\<close>

fun pubkey_loop :: "henv \<Rightarrow> (pubkey \<Rightarrow> host \<Rightarrow> host) \<Rightarrow> string list \<Rightarrow> string \<Rightarrow> string list \<times> string list \<times> string list
    \<Rightarrow> host \<Rightarrow> ((string list \<times> string list \<times> string list) \<times> host) option" where
  "pubkey_loop e cmd [] keyType acc w = Some (acc, w)"
| "pubkey_loop e cmd (v # vs) keyType (invalidUsers, invalidKeys, noKeyUsers) w =
    (if keyType \<noteq> [] then
       (case ParseKey e (keyType @ '' '' @ v) of
          Inr pk \<Rightarrow> pubkey_loop e cmd vs [] (invalidUsers, invalidKeys, noKeyUsers) (cmd pk w)
        | Inl err \<Rightarrow> pubkey_loop e cmd vs [] (invalidUsers, invalidKeys @ [keyType @ '' '' @ v], noKeyUsers) w)
     else if HasPrefix v ''ssh-'' then pubkey_loop e cmd vs v (invalidUsers, invalidKeys, noKeyUsers) w
     else do {
       (found, w) \<leftarrow> GetUser (now_of e) v w;
       (case found of
          None \<Rightarrow> pubkey_loop e cmd vs [] (invalidUsers @ [v], invalidKeys, noKeyUsers) w
        | Some q \<Rightarrow> do {
            c \<leftarrow> as_identity w q;
            (case c_key c of
               None \<Rightarrow> pubkey_loop e cmd vs [] (invalidUsers, invalidKeys, noKeyUsers @ [uName w q]) w
             | Some pk \<Rightarrow> pubkey_loop e cmd vs [] (invalidUsers, invalidKeys, noKeyUsers) (cmd pk w))
          })
     })"

definition line_if :: "string list \<Rightarrow> string \<Rightarrow> string list" where
  "line_if xs s = (if xs \<noteq> [] then [s @ show_list xs] else [])"

definition forPubkeyUser :: "henv \<Rightarrow> (pubkey \<Rightarrow> host \<Rightarrow> host) \<Rightarrow> string list \<Rightarrow> host \<Rightarrow> (string list \<times> host) option" where
  "forPubkeyUser e cmd args w = do {
     ((invalidUsers, invalidKeys, noKeyUsers), w) \<leftarrow> pubkey_loop e cmd args [] ([], [], []) w;
     Some (line_if noKeyUsers ''users without a public key: '' @ line_if invalidUsers ''invalid users: '' @
       line_if invalidKeys ''invalid keys: '', w)
   }"

definition allowlistHelptext :: "string list" where
  "allowlistHelptext =
    [''Usage: /allowlist help | on | off | add {PUBKEY|USER}... | remove {PUBKEY|USER}... | import [AGE] | reload {keep|flush} | reverify | status'',
     ''help: this help message'',
     ''on, off: set allowlist mode (applies to new connections)'',
     ''add, remove: add or remove keys from the allowlist'',
     ''import: add all keys of users connected since AGE (default 0) ago to the allowlist'',
     ''reload: re-read the allowlist file and keep or discard entries in the current allowlist but not in the file'',
     ''reverify: kick all users not in the allowlist if allowlisting is enabled'',
     ''status: show status information'']"

text \<open>The subcommands: their lines (\<open>None\<close> is \<open>nil\<close>) and error, and the host after them.\<close>

definition import_user :: "henv \<Rightarrow> time \<Rightarrow> mid \<Rightarrow> pubkey option \<Rightarrow> string list \<Rightarrow> host \<Rightarrow> go_error option \<times> string list \<times> host" where
  "import_user e cutoff k pk noKeyUsers w =
    (None,
     if joined (users w (m_user (members w k))) < cutoff then
       (case pk of
          None \<Rightarrow> (noKeyUsers @ [uName w (m_user (members w k))], w)
        | Some key \<Rightarrow> (noKeyUsers, upd_auth (Allowlist (hlib e) (now_of e) pk 0) w))
     else (noKeyUsers, w))"

definition allowlistImport :: "henv \<Rightarrow> string list \<Rightarrow> host \<Rightarrow> ((string list \<times> go_error option) \<times> host) option" where
  "allowlistImport e args w =
    (case (case args of [] \<Rightarrow> Inr 0 | d # _ \<Rightarrow> Parse_Duration (base e) d) of
       Inl err \<Rightarrow> Some (([], Some err), w)
     | Inr age \<Rightarrow> do {
         (_, noKeyUsers, w) \<leftarrow> forConnectedUsers e (import_user e (now_of e - age)) [] w;
         Some ((line_if noKeyUsers ''users without a public key: '', None), w)
       })"

definition allowlistReload :: "henv \<Rightarrow> string list \<Rightarrow> host \<Rightarrow> go_error option \<times> host" where
  "allowlistReload e args w =
    (case args of
       mode # _ \<Rightarrow>
         if mode = ''keep'' \<or> mode = ''flush'' then
           let w = (if mode = ''flush'' then upd_auth (\<lambda>a. a\<lparr>allowlist := snd (Clear (allowlist a))\<rparr>) w else w) in
           (case ReloadAllowlist (hlib e) (now_of e) (auth_db w) of (err, a) \<Rightarrow> (err, upd_auth (\<lambda>_. a) w))
         else (Some (Errorf ''must specify whether to keep or flush current entries''), w)
     | [] \<Rightarrow> (Some (Errorf ''must specify whether to keep or flush current entries''), w))"

definition reverify_user :: "henv \<Rightarrow> mid \<Rightarrow> pubkey option \<Rightarrow> string list \<Rightarrow> host \<Rightarrow> go_error option \<times> string list \<times> host" where
  "reverify_user e k pk kicked w =
    (case CheckPublicKey (hlib e) (now_of e) pk (auth_db w) of
       (err, a) \<Rightarrow>
         let w = upd_auth (\<lambda>_. a) w in
         (None,
          if err \<noteq> None \<and> \<not> is_op (members w k)
          then (kicked @ [uName w (m_user (members w k))], upd_user (m_user (members w k)) Close w)
          else (kicked, w)))"

definition allowlistReverify :: "henv \<Rightarrow> host \<Rightarrow> (string list \<times> host) option" where
  "allowlistReverify e w =
    (if \<not> allowlistMode (auth_db w) then Some ([''allowlist is disabled, so nobody will be kicked''], w)
     else do {
       (_, kicked, w) \<leftarrow> forConnectedUsers e (reverify_user e) [] w;
       w \<leftarrow> (if kicked \<noteq> [] then announce e (''Kicked during pubkey reverification: '' @ GoStrings.Join kicked '', '') w
             else Some w);
       Some ([], w)
     })"

definition status_user :: "henv \<Rightarrow> string \<Rightarrow> mid \<Rightarrow> pubkey option \<Rightarrow> string list \<Rightarrow> host \<Rightarrow> go_error option \<times> string list \<times> host" where
  "status_user e keyFP k pk us w =
    (case pk of
       Some key \<Rightarrow>
         if Fingerprint (hlib e) key = keyFP then (Some IoEOF, us @ [uName w (m_user (members w k))], w)
         else (None, us, w)
     | None \<Rightarrow> (None, us, w))"

definition status_key :: "henv \<Rightarrow> string \<Rightarrow> (string list \<times> string list \<times> host) option \<Rightarrow> (string list \<times> string list \<times> host) option" where
  "status_key e keyFP st = do {
     (us, keys, w) \<leftarrow> st;
     (err, us, w) \<leftarrow> forConnectedUsers e (status_user e keyFP) us w;
     Some (us, if err = None then keys @ [keyFP] else keys, w)
   }"

definition allowlistStatus :: "henv \<Rightarrow> host \<Rightarrow> (string list \<times> host) option" where
  "allowlistStatus e w =
    (case Each (order (base e)) (now_of e) (\<lambda>key it st. (None, status_key e (Key it) st))
        (allowlist (auth_db w)) (Some ([], [], w)) of
       (_, st, s) \<Rightarrow> do {
         (us, keys, w) \<leftarrow> st;
         Some ((if allowlistMode (auth_db w) then ''allowlist enabled'' else ''allowlist disabled'') #
           (if us \<noteq> [] then [''Connected users on the allowlist: '' @ GoStrings.Join us '', ''] else []) @
           (if keys \<noteq> [] then [''Keys on the allowlist without connected user: '' @ GoStrings.Join keys '', ''] else []),
           upd_auth (\<lambda>a. a\<lparr>allowlist := s\<rparr>) w)
       })"

definition allowlist_sub :: "henv \<Rightarrow> string \<Rightarrow> string list \<Rightarrow> host \<Rightarrow> ((string list \<times> go_error option) \<times> host) option" where
  "allowlist_sub e sub args w =
    (if sub = ''help'' then Some ((allowlistHelptext, None), w)
     else if sub = ''on'' then Some (([], None), upd_auth (SetAllowlistMode True) w)
     else if sub = ''off'' then Some (([], None), upd_auth (SetAllowlistMode False) w)
     else if sub = ''add'' then
       map_option (\<lambda>(ls, w). ((ls, None), w))
         (forPubkeyUser e (\<lambda>pk. upd_auth (Allowlist (hlib e) (now_of e) (Some pk) 0)) args w)
     else if sub = ''remove'' then
       map_option (\<lambda>(ls, w). ((ls, None), w))
         (forPubkeyUser e (\<lambda>pk. upd_auth (Allowlist (hlib e) (now_of e) (Some pk) 1)) args w)
     else if sub = ''import'' then allowlistImport e args w
     else if sub = ''reload'' then (case allowlistReload e args w of (err, w) \<Rightarrow> Some (([], err), w))
     else if sub = ''reverify'' then map_option (\<lambda>(ls, w). ((ls, None), w)) (allowlistReverify e w)
     else if sub = ''status'' then map_option (\<lambda>(ls, w). ((ls, None), w)) (allowlistStatus e w)
     else Some (([], Some (Errorf (''invalid subcommand: '' @ sub))), w))"

definition host_allowlist :: hcmd where
  "host_allowlist e p body args w = op_only e p (\<lambda>w. do {
     let args = (if args = [] then [''help''] else args);
     ((replyLines, err), w) \<leftarrow> allowlist_sub e (hd args) (tl args) w;
     (if err = None \<and> replyLines \<noteq> [] then ok (tell e p (GoStrings.Join replyLines Newline) w)
      else Some (err, w))
   }) w"


section \<open>The table of the host\<close>

datatype host_handler =
    Chat chat_handler
  | H_msg | H_reply | H_whois | H_version | H_uptime
  | H_kick | H_ban | H_banned | H_motd | H_op | H_rename | H_allowlist

fun host_call :: "host_handler \<Rightarrow> hcmd" where
  "host_call (Chat h) = (\<lambda>e. chat_call h (base e))"
| "host_call H_msg = host_msg"
| "host_call H_reply = host_reply"
| "host_call H_whois = host_whois"
| "host_call H_version = host_version"
| "host_call H_uptime = host_uptime"
| "host_call H_kick = host_kick"
| "host_call H_ban = host_ban"
| "host_call H_banned = host_banned"
| "host_call H_motd = host_motd"
| "host_call H_op = host_op"
| "host_call H_rename = host_rename"
| "host_call H_allowlist = host_allowlist"

definition Host_InitCommands :: "host_handler commands \<Rightarrow> host_handler commands" where
  "Host_InitCommands c = fold (\<lambda>f. f)
    [reg ''/msg'' ''USER MESSAGE'' ''Send MESSAGE to USER.'' False H_msg,
     reg ''/reply'' ''MESSAGE'' ''Reply with MESSAGE to the previous private message.'' False H_reply,
     reg ''/whois'' ''USER'' ''Information about USER.'' False H_whois,
     reg ''/version'' [] [] False H_version,
     reg ''/uptime'' [] [] False H_uptime,
     reg ''/kick'' ''USER'' ''Kick USER from the server.'' True H_kick,
     reg ''/ban'' ''QUERY [DURATION]''
       (''Ban from the server. QUERY can be a username to ban the fingerprint and ip, or quoted '' @ [byte 34] @
        ''key=value'' @ [byte 34] @ '' pairs with keys like ip, fingerprint, client.'') True H_ban,
     reg ''/banned'' [] ''List the current ban conditions.'' True H_banned,
     reg ''/motd'' ''[MESSAGE]'' ''Set a new MESSAGE of the day, or print the motd if no MESSAGE.'' True H_motd,
     reg ''/op'' ''USER [DURATION|remove]'' ''Set USER as admin. Duration only applies to pubkey reconnects.'' True H_op,
     reg ''/rename'' ''USER NEW_NAME [SYMBOL]'' ''Rename USER to NEW_NAME, add optional SYMBOL prefix'' True H_rename,
     reg ''/allowlist'' ''COMMAND [ARGS...]''
       ''Modify the allowlist or allowlist state. See /allowlist help for subcommands'' True H_allowlist] c"

text \<open>\<open>NewHost\<close>: the registry of the chat, then the host's commands over it.\<close>

definition host_commands :: "host_handler commands" where
  "host_commands = Host_InitCommands (InitCommands Chat [])"

text \<open>The host it returns, over the heaps \<open>us\<close>, \<open>ms\<close> and \<open>cs\<close>, in which nothing is allocated.
  The theme is the zero value, which \<open>SetTheme\<close> replaces before the host serves.\<close>

definition NewHost :: "(rune \<Rightarrow> rune) \<Rightarrow> auth \<Rightarrow> (uid \<Rightarrow> user) \<Rightarrow> (mid \<Rightarrow> member) \<Rightarrow> (uid \<Rightarrow> conn) \<Rightarrow> host" where
  "NewHost low a us ms cs =
    \<lparr>users = us, members = ms, next_mid = 0, the_room = NewRoom low, spawned = [],
     auth_db = a, conn_of = cs, Version = [], h_motd = [], h_count = 0,
     h_theme = \<lparr>theme_id = [], sys = None, pm = None, highlight = None, names = None, useID = False\<rparr>,
     GetMOTD = None\<rparr>"

text \<open>What the logs print is a parameter of each message: \<open>io\<close> holds the text of an
  error, the line of the history's log and the choices of \<open>select\<close>.\<close>

record io =
  err_string :: "go_error \<Rightarrow> string"
  log_line :: "Message \<Rightarrow> string"
  select :: "uid \<Rightarrow> bool"

definition Host_HandleMsg :: "henv \<Rightarrow> io \<Rightarrow> Message \<Rightarrow> host \<Rightarrow> host option" where
  "Host_HandleMsg e i m w =
    HandleMsg (Commands_Run (\<lambda>h. host_call h e) host_commands) (err_string i) (log_line i) (order (base e))
      (select i) (now_of e) m w"

section \<open>A connection\<close>

definition GetPrompt :: "user \<Rightarrow> string option" where
  "GetPrompt u = do {
     name \<leftarrow> (case cfg_Theme (config u) of None \<Rightarrow> Some (DisplayName (ident_of u)) | Some t \<Rightarrow> ColorName t u);
     Some (''['' @ name @ ''] '')
   }"

definition NewIdentity :: "conn \<Rightarrow> Identifier" where
  "NewIdentity c = Identity (Name (c_name c)) []"

definition Host_isOp :: "henv \<Rightarrow> conn \<Rightarrow> host \<Rightarrow> bool \<times> host" where
  "Host_isOp e c w =
    (if c_key c = None then (False, w)
     else case IsOp (hlib e) (now_of e) (c_key c) (auth_db w) of (b, a) \<Rightarrow> (b, upd_auth (\<lambda>_. a) w))"

text \<open>The user of a new connection; \<open>low\<close> is the lower case of runes, \<open>rnd\<close> its colour.\<close>

definition connect_user :: "(rune \<Rightarrow> rune) \<Rightarrow> int \<Rightarrow> time \<Rightarrow> conn \<Rightarrow> bool \<Rightarrow> Theme \<Rightarrow> user" where
  "connect_user low rnd now c apiMode theme =
    (let u = (NewUserScreen low now rnd (NewIdentity c))\<lparr>OnChange := True\<rparr>;
         cfg = config u in
     fst (SetConfig (if apiMode then cfg\<lparr>cfg_Theme := Some MonoTheme, Echo := False\<rparr>
                     else cfg\<lparr>cfg_Theme := Some theme\<rparr>) u))"

text \<open>\<open>SetName\<close> of the identity alone.\<close>

definition set_id :: "string \<Rightarrow> uid \<Rightarrow> host \<Rightarrow> host" where
  "set_id s p w = upd_user p (\<lambda>u. u\<lparr>ident_of := SetID s (ident_of u)\<rparr>) w"

text \<open>The two attempts to join: under the name, then as a guest with the number of
  the connection.\<close>

definition join_or_guest :: "henv \<Rightarrow> io \<Rightarrow> nat \<Rightarrow> uid \<Rightarrow> host \<Rightarrow> ((go_error + mid) \<times> host) option" where
  "join_or_guest e i n p w = do {
     (r, w) \<leftarrow> Room.Join (select i) (now_of e) p w;
     (case r of
        Inr k \<Rightarrow> Some (Inr k, w)
      | Inl err \<Rightarrow> Room.Join (select i) (now_of e) p (set_id (''Guest'' @ Itoa n) p w))
   }"

definition run_env :: "henv \<Rightarrow> io \<Rightarrow> uid \<Rightarrow> string \<times> string \<Rightarrow> host \<Rightarrow> host option" where
  "run_env e i p kv w =
    (let run = (\<lambda>cmd w. do {
       m \<leftarrow> ParseCommand cmd (now_of e) (Some p);
       (case m of Some m \<Rightarrow> Host_HandleMsg e i m w | None \<Rightarrow> Some w)
     }) in
     if fst kv = ''SSHCHAT_TIMESTAMP'' then
       (if snd kv \<noteq> [] \<and> snd kv \<noteq> ''0'' then
          run (if snd kv \<noteq> ''1'' then ''/timestamp'' @ '' '' @ snd kv else ''/timestamp'') w
        else Some w)
     else if fst kv = ''SSHCHAT_THEME'' then run (''/theme '' @ snd kv) w
     else Some w)"

fun run_envs :: "henv \<Rightarrow> io \<Rightarrow> uid \<Rightarrow> (string \<times> string) list \<Rightarrow> host \<Rightarrow> host option" where
  "run_envs e i p [] w = Some w"
| "run_envs e i p (kv # kvs) w = do { w \<leftarrow> run_env e i p kv w; run_envs e i p kvs w }"

text \<open>\<open>Connect\<close> up to its loop, for the address \<open>p\<close> of the new user: the member it
  joined as, or \<open>None\<close>, after which \<open>Connect\<close> returns and closes the user.\<close>

definition Connect_start :: "henv \<Rightarrow> io \<Rightarrow> (rune \<Rightarrow> rune) \<Rightarrow> conn \<Rightarrow> string \<Rightarrow> (string \<times> string) list \<Rightarrow> uid \<Rightarrow> host
    \<Rightarrow> (mid option \<times> host) option" where
  "Connect_start e i low c term envs p w =
    (let apiMode = (ToLower low term = ''bot'');
         u = connect_user low (rand1 (base e)) (now_of e) c apiMode (h_theme w);
         w = w\<lparr>users := (users w)(p := u), conn_of := (conn_of w)(p := c)\<rparr>;
         motd = h_motd w;
         n = h_count w;
         w = w\<lparr>h_count := n + 1\<rparr>;
         w = (if motd \<noteq> [] \<and> \<not> apiMode then send_user (select i) p (NewAnnounceMsg (now_of e) motd) w else w) in
     do {
       (r, w) \<leftarrow> join_or_guest e i n p w;
       (case r of
          Inl err \<Rightarrow> Some (None, upd_user p Close w)
        | Inr k \<Rightarrow> do {
            w \<leftarrow> run_envs e i p envs w;
            let (op, w) = Host_isOp e c w;
            Some (Some k, if op then upd_member k (\<lambda>m. m\<lparr>is_op := True\<rparr>) w else w)
          })
     })"

definition maxInputLength :: nat where
  "maxInputLength = 1024"

text \<open>A turn of the loop for a line that was read: \<open>limited\<close> says that the limiter refused
  it, \<open>written\<close> that the screen took the echo of a command, \<open>tf\<close> formats times.\<close>

definition Connect_line :: "henv \<Rightarrow> io \<Rightarrow> (string \<Rightarrow> int \<Rightarrow> time \<Rightarrow> string) \<Rightarrow> bool \<Rightarrow> bool \<Rightarrow> bool \<Rightarrow> uid \<Rightarrow> string
    \<Rightarrow> host \<Rightarrow> host option" where
  "Connect_line e i tf apiMode limited written p ln w =
    (let say = (\<lambda>s. send_user (select i) p (NewSystemMsg (now_of e) s (Some p)) w) in
     if limited then Some (say ''Message rejected: Rate limiting is in effect.'')
     else if length ln > maxInputLength then Some (say ''Message rejected: Input too long.'')
     else if ln = [] then Some w
     else do {
       m \<leftarrow> ParseInput (now_of e) ln (Some p);
       w \<leftarrow> (case m of
         CommandMsg b t f c args \<Rightarrow>
           if apiMode then Some w
           else do {
             (_, u) \<leftarrow> render tf (now_of e) (users w) p m (users w p);
             Some (upd_user p (\<lambda>_. if written then u else Close u) w)
           }
       | _ \<Rightarrow> Some w);
       Host_HandleMsg e i m w
     })"

text \<open>The end of the loop, with the deferred \<open>Close\<close> of the user.\<close>

definition Connect_end :: "henv \<Rightarrow> uid \<Rightarrow> host \<Rightarrow> (go_error option \<times> host) option" where
  "Connect_end e p w = do {
     (err, w) \<leftarrow> Leave (since e) (now_of e) p w;
     Some (err, upd_user p Close w)
   }"

end
