(* ===== verification/Races.thy ===== *)
theory Races
  imports Host
begin

text \<open>
  Goroutines in the room (\<open>chat/room.go\<close>, \<open>chat/command.go\<close>, \<open>host.go\<close>). Every connection has a
  goroutine of its own, and each of them calls \<open>Join\<close>, \<open>Leave\<close> and the commands without a
  lock of the room. Only the set of the members, the fields of a user and the channel have locks. The
  other theories take such a call as one step; here its critical sections are the steps, and
  those of different goroutines alternate as they like.

  The points between \<open>Found\<close> and \<open>Refused\<close> are those of \<open>/nick\<close> and, with the same code, of an operator's
  \<open>/rename\<close> without a symbol; \<open>Room.Rename\<close> is the part from \<open>Named\<close> to \<open>Replaced\<close>.

  \<open>pc\<close> says where the goroutine of a connection is, with the local variables it still needs. A run
  of one goroutine alone is the call as one step (\<open>nick_alone\<close>, \<open>rename_alone\<close>, \<open>join_alone\<close>,
  \<open>leave_alone\<close>).
\<close>

section \<open>Where a goroutine is\<close>

text \<open>The last component of the points inside a renaming is the operator whose \<open>/rename\<close> it is.\<close>

datatype pc =
    Outside
  | Added mid
  | Idle
  | Allowed string string
  | Found mid string "uid option"
  | Chosen mid string string "uid option"
  | Named mid string "uid option"
  | Checked mid string "uid option"
  | Keyed mid string string "uid option"
  | Replaced mid string "uid option"
  | Refused mid string
  | Telling string uid
  | Removed

section \<open>The first section of each call\<close>

definition join_start :: "env \<Rightarrow> uid \<Rightarrow> 'w world_scheme \<Rightarrow> (pc \<times> 'w world_scheme) option" where
  "join_start e p w =
    (if uID w p = [] then Some (Outside, w)
     else
       let k = next_mid w; w = alloc p w in
       case Add (clock e) (Itemize (uID w p) (Some (MemberPtr k))) (Members (the_room w)) of
         (Some err, s) \<Rightarrow> Some (Outside, set_Members s w)
       | (None, s) \<Rightarrow> Some (Added k, set_Members s w))"

definition leave_start :: "uid \<Rightarrow> 'w world_scheme \<Rightarrow> (pc \<times> 'w world_scheme) option" where
  "leave_start p w =
    (case Remove (uID w p) (Members (the_room w)) of
       (Some err, s) \<Rightarrow> Some (Outside, set_Members s w)
     | (None, s) \<Rightarrow> Some (Removed, set_Members s w))"

definition nick_start :: "env \<Rightarrow> uid \<Rightarrow> string \<Rightarrow> 'w world_scheme \<Rightarrow> (pc \<times> 'w world_scheme) option" where
  "nick_start e p name w = do {
     (found, w) \<leftarrow> MemberByID (clock e) (uID w p) w;
     Some (case found of None \<Rightarrow> Idle | Some k \<Rightarrow> Found k (Name name) None, w)
   }"

definition rename_start :: "env \<Rightarrow> uid \<Rightarrow> string \<Rightarrow> string \<Rightarrow> 'w world_scheme \<Rightarrow> (pc \<times> 'w world_scheme) option" where
  "rename_start e p user_arg name_arg w = do {
     (op, w) \<leftarrow> Room_IsOp (clock e) p w;
     Some (if op then Allowed user_arg name_arg else Idle, w)
   }"

section \<open>The next section of a call\<close>

text \<open>\<open>None\<close> is a panic. \<open>pick\<close> chooses the outcome of a full mailbox, \<open>human\<close> is the text of
  a time.\<close>

fun advance :: "(time \<Rightarrow> string) \<Rightarrow> (uid \<Rightarrow> bool) \<Rightarrow> env \<Rightarrow> uid \<Rightarrow> pc \<Rightarrow> 'w world_scheme \<Rightarrow> (pc \<times> 'w world_scheme) option" where
  "advance human pick e p Outside w = Some (Outside, w)"
| "advance human pick e p Idle w = Some (Idle, w)"
| "advance human pick e p (Added k) w = do {
     w \<leftarrow> Room_History pick p w;
     w \<leftarrow> Room_Send (NewAnnounceMsg (clock e)
       (uName w p @ '' joined. (Connected: '' @ Itoa (Len (Members (the_room w))) @ '')'')) w;
     Some (Idle, w)
   }"
| "advance human pick e p (Allowed user_arg name_arg) w = do {
     (found, w) \<leftarrow> MemberByID (clock e) user_arg w;
     Some (case found of None \<Rightarrow> Idle | Some k \<Rightarrow> Found k (Name name_arg) (Some p), w)
   }"
| "advance human pick e p (Found k newID by) w =
    (let q = m_user (members w k); oldID = uID w q in
     Some (if newID = oldID then Idle else Chosen k oldID newID by, w))"
| "advance human pick e p (Chosen k oldID newID by) w =
    Some (Named k oldID by, set_name (rand1 e) newID (m_user (members w k)) w)"
| "advance human pick e p (Named k oldID by) w =
    Some (if uID w (m_user (members w k)) = [] then Refused k oldID else Checked k oldID by, w)"
| "advance human pick e p (Checked k oldID by) w = Some (Keyed k oldID (uID w (m_user (members w k))) by, w)"
| "advance human pick e p (Keyed k oldID newID by) w =
    (case Replace oldID (Itemize newID (Some (MemberPtr k))) (Members (the_room w)) of
       (Some err, s) \<Rightarrow> Some (Refused k oldID, set_Members s w)
     | (None, s) \<Rightarrow> Some (Replaced k oldID by, set_Members s w))"
| "advance human pick e p (Replaced k oldID by) w = do {
     w \<leftarrow> Room_Send (NewAnnounceMsg (clock e)
       (oldID @ '' is now known as '' @ uID w (m_user (members w k)) @ ''.'')) w;
     Some (case by of None \<Rightarrow> Idle | Some p \<Rightarrow> Telling oldID p, w)
   }"
| "advance human pick e p (Refused k oldID) w =
    Some (Idle, set_name (rand2 e) oldID (m_user (members w k)) w)"
| "advance human pick e p (Telling oldID oper) w = do {
     w \<leftarrow> Room_Send (NewAnnounceMsg (clock e) (oldID @ '' was renamed by '' @ uName w oper @ ''.'')) w;
     Some (Idle, w)
   }"
| "advance human pick e p Removed w = do {
     w \<leftarrow> Room_Send (NewAnnounceMsg (clock e)
       (uName w p @ '' left. (After '' @ human (joined (users w p)) @ '')'')) w;
     Some (Outside, w)
   }"

section \<open>One goroutine alone\<close>

fun alone :: "nat \<Rightarrow> (time \<Rightarrow> string) \<Rightarrow> (uid \<Rightarrow> bool) \<Rightarrow> env \<Rightarrow> uid \<Rightarrow> (pc \<times> 'w world_scheme) option \<Rightarrow> (pc \<times> 'w world_scheme) option" where
  "alone 0 human pick e p r = r"
| "alone (Suc n) human pick e p r = alone n human pick e p (do { (c, w) \<leftarrow> r; advance human pick e p c w })"

lemma alone_None [simp]: "alone n human pick e p None = None"
  by (induction n) simp_all

lemma alone_rest [simp]: "alone n human pick e p (Some (Idle, w)) = Some (Idle, w)" "alone n human pick e p (Some (Outside, w)) = Some (Outside, w)"
  by (induction n) simp_all

lemma uName_set_Members [simp]: "uName (set_Members s w) = uName w"
  by (simp add: uName_def fun_eq_iff)

lemma nick_alone:
  "alone 6 human pick e p (nick_start e p name w) = map_option (\<lambda>(err, w). (Idle, w)) (cmd_nick e p body [name] w)"
  by (auto simp: cmd_nick_def nick_start_def Rename_def Let_def fail_def numeral_eq_Suc map_option_bind comp_def
      split: option.split prod.split intro!: bind_option_cong)

lemma rename_alone:
  "alone 8 human pick (base e) p (rename_start (base e) p user_arg name_arg w) =
    map_option (\<lambda>(err, w). (Idle, w)) (host_rename e p body [user_arg, name_arg] w)"
  by (auto simp: host_rename_def op_only_def rename_start_def Rename_def Let_def fail_def ok_def announce_def now_of_def
      option.map_comp map_conv_bind_option numeral_eq_Suc map_option_bind comp_def split: option.split prod.split intro!: bind_option_cong)

lemma join_alone:
  "alone 1 human pick e p (join_start e p w) =
    map_option (\<lambda>(r, w). (case r of Inl err \<Rightarrow> Outside | Inr k \<Rightarrow> Idle, w)) (Join pick (clock e) p w)"
  by (auto simp: Join_alt join_start_def Let_def map_option_bind comp_def split: option.split prod.split)

lemma leave_alone:
  "alone 1 human pick e p (leave_start p w) = map_option (\<lambda>(err, w). (Outside, w)) (Leave human (clock e) p w)"
  by (auto simp: Leave_def leave_start_def Let_def map_option_bind comp_def split: option.split prod.split)

section \<open>All goroutines\<close>

text \<open>What everything else does (messages, consumers, other commands, the end of a goroutine
  of \<open>Serve\<close>): names, members and their set stay.\<close>

definition history_ok :: "'w world_scheme \<Rightarrow> bool" where
  "history_ok w \<longleftrightarrow> history_inv (r_history (the_room w)) \<and> length (history.entries (r_history (the_room w))) = historyLen"

definition same_book :: "'w world_scheme \<Rightarrow> 'w world_scheme \<Rightarrow> bool" where
  "same_book w w' \<longleftrightarrow> (\<forall>p. ident_of (users w' p) = ident_of (users w p)) \<and>
    Members (the_room w') = Members (the_room w) \<and> (\<forall>k. m_user (members w' k) = m_user (members w k)) \<and>
    next_mid w' = next_mid w \<and> closed (the_room w') = closed (the_room w) \<and> (history_ok w \<longrightarrow> history_ok w')"

type_synonym 'w races = "(uid \<Rightarrow> pc) \<times> 'w world_scheme"

text \<open>Whether operators rename others is the parameter. Before it joins, a connection makes its user and
  takes the name of a guest.\<close>

inductive race_step :: "bool \<Rightarrow> 'w races \<Rightarrow> 'w races \<Rightarrow> bool" for renames where
  join: "pc p = Outside \<Longrightarrow> join_start e p w = Some (c, w') \<Longrightarrow> race_step renames (pc, w) (pc(p := c), w')"
| nick: "pc p = Idle \<Longrightarrow> nick_start e p name w = Some (c, w') \<Longrightarrow> race_step renames (pc, w) (pc(p := c), w')"
| rename: "renames \<Longrightarrow> pc p = Idle \<Longrightarrow> rename_start e p user_arg name_arg w = Some (c, w') \<Longrightarrow>
    race_step renames (pc, w) (pc(p := c), w')"
| leave: "pc p = Idle \<Longrightarrow> leave_start p w = Some (c, w') \<Longrightarrow> race_step renames (pc, w) (pc(p := c), w')"
| next_section: "advance human pick e p (pc p) w = Some (c, w') \<Longrightarrow> race_step renames (pc, w) (pc(p := c), w')"
| other: "same_book w w' \<Longrightarrow> race_step renames (pc, w) (pc, w')"
| dress: "pc p = Outside \<Longrightarrow> has_name (upd_user p f w) p \<Longrightarrow> race_step renames (pc, w) (pc, upd_user p f w)"

section \<open>What holds with operators too\<close>

text \<open>The set is well formed and holds members only.\<close>

definition book_inv :: "(rune \<Rightarrow> rune) \<Rightarrow> 'w world_scheme \<Rightarrow> bool" where
  "book_inv low w \<longleftrightarrow>
    set_inv (Members (the_room w)) \<and> normalizer (Members (the_room w)) = normalize low \<and>
    (\<forall>key it. map_of (lookup (Members (the_room w))) key = Some it \<longrightarrow>
      (\<exists>s k. it = Itemize s (Some (MemberPtr k)) \<and> k < next_mid w)) \<and>
    history_ok w \<and> closed (the_room w) = False \<and> (\<forall>p. has_name w p)"

text \<open>The members a goroutine holds exist.\<close>

fun pc_ok :: "mid \<Rightarrow> pc \<Rightarrow> bool" where
  "pc_ok n (Added k) = (k < n)"
| "pc_ok n (Found k new by) = (k < n)"
| "pc_ok n (Chosen k old new by) = (k < n)"
| "pc_ok n (Named k old by) = (k < n)"
| "pc_ok n (Checked k old by) = (k < n)"
| "pc_ok n (Keyed k old new by) = (k < n)"
| "pc_ok n (Replaced k old by) = (k < n)"
| "pc_ok n (Refused k old) = (k < n)"
| "pc_ok n c = True"

lemma pc_ok_mono: "pc_ok n c \<Longrightarrow> n \<le> m \<Longrightarrow> pc_ok m c"
  by (cases c) auto

lemma book_entry:
  "book_inv low w \<Longrightarrow> map_of (lookup (Members (the_room w))) key = Some it \<Longrightarrow>
    \<exists>s k. it = Itemize s (Some (MemberPtr k)) \<and> k < next_mid w \<and> key = normalize low s"
  unfolding book_inv_def by (metis set_inv_key Key.simps(1))

lemma book_MemberByID:
  assumes "book_inv low w"
  shows "\<exists>found. MemberByID now i w = Some (found, w) \<and>
    (case found of None \<Rightarrow> map_of (lookup (Members (the_room w))) (normalize low i) = None
     | Some k \<Rightarrow> k < next_mid w \<and>
        (\<exists>s. map_of (lookup (Members (the_room w))) (normalize low i) = Some (Itemize s (Some (MemberPtr k)))))"
proof (cases "map_of (lookup (Members (the_room w))) (normalize low i)")
  case (Some it)
  then obtain s k where "it = Itemize s (Some (MemberPtr k))" "k < next_mid w" using book_entry [OF assms] by blast
  then show ?thesis using Some assms by (simp add: MemberByID_def Get_def Let_def book_inv_def)
qed (use assms in \<open>simp add: MemberByID_def Get_def Let_def book_inv_def\<close>)

text \<open>Updates of the set by the operations that rename, add and remove.\<close>

lemma book_set:
  assumes "book_inv low w" and "set_inv s" and "normalizer s = normalize low"
    and "\<And>key it. map_of (lookup s) key = Some it \<Longrightarrow> map_of (lookup (Members (the_room w))) key = Some it \<or>
      (\<exists>t k. it = Itemize t (Some (MemberPtr k)) \<and> k < next_mid w)"
  shows "book_inv low (set_Members s w)"
proof -
  have "\<exists>t k. it = Itemize t (Some (MemberPtr k)) \<and> k < next_mid w" if "map_of (lookup s) key = Some it" for key it
    using assms(4) [OF that] book_entry [OF assms(1)] by blast
  then show ?thesis using assms(1-3) by (simp add: book_inv_def history_ok_def has_name_def)
qed

lemma book_same: "book_inv low w \<Longrightarrow> same_book w w' \<Longrightarrow> book_inv low w'"
  by (auto simp: book_inv_def same_book_def has_name_def)

lemma book_upd_user: "book_inv low w \<Longrightarrow> has_name (upd_user p f w) p \<Longrightarrow> book_inv low (upd_user p f w)"
  by (auto simp: book_inv_def history_ok_def has_name_def)

lemma book_set_name: "book_inv low w \<Longrightarrow> book_inv low (set_name rnd new p w)"
  using book_upd_user [of low w p "\<lambda>u. fst (User_SetID rnd new u)"] has_name_set_name [of rnd new p w p]
  by (simp add: set_name_def book_inv_def)

lemma book_announced: "book_inv low w \<Longrightarrow> same_book w (announced now txt w)"
  by (simp add: same_book_def history_ok_def)

lemma book_alloc: "book_inv low w \<Longrightarrow> book_inv low (alloc p w)"
  by (fastforce simp: book_inv_def history_ok_def has_name_def)

text \<open>The steps called \<open>other\<close>: messages are delivered while names change, and delivery, like the other
  operations of the room, leaves the book alone.\<close>

lemma same_book_refl [simp]: "same_book w w"
  by (simp add: same_book_def)

lemma same_book_trans: "same_book u v \<Longrightarrow> same_book v w \<Longrightarrow> same_book u w"
  by (simp add: same_book_def)

lemma same_book_user: "ident_of (f (users w p)) = ident_of (users w p) \<Longrightarrow> same_book w (upd_user p f w)"
  by (simp add: same_book_def history_ok_def)

lemma same_book_simps:
  "same_book w (upd_member k (\<lambda>m. m\<lparr>is_op := b\<rparr>) w)" "same_book w (SetMute k b w)"
  "Room_Send m w = Some w' \<Longrightarrow> same_book w w'" "Serve_turn w = Some w' \<Longrightarrow> same_book w w'" "same_book w (SetTopic t w)"
  by (auto simp: same_book_def history_ok_def SetMute_def upd_member_def Room_Send_def Serve_turn_def SetTopic_def upd_room_def
      split: if_splits list.splits)

lemma same_book_logged: "book_inv low w \<Longrightarrow> same_book w (logged lg m w)"
  by (simp add: same_book_def history_ok_def history_inv_push logged_def upd_room_def)

lemma book_offers:
  assumes "book_inv low w" and "permuting ord" and "Members (the_room v) = Members (the_room w)"
  shows "\<exists>v'. Each ord now (\<lambda>key it st. (None, broadcast_fn now pick i m key it st)) (Members (the_room w)) (Some v) =
    (None, Some v', Members (the_room w)) \<and> same_book v v'"
proof -
  let ?s = "Members (the_room w)" and ?f = "broadcast_fn now pick i m"
  have "cleanup now key ?s = ?s" for key
    using book_entry [OF assms(1)] by (fastforce simp: cleanup_def split: option.split)
  then have clean: "foldl (\<lambda>s k. cleanup now k s) ?s ks = ?s" for ks by (induction ks) simp_all
  have "\<exists>v'. fold (\<lambda>(key, it) st. ?f key it st) es (Some v) = Some v' \<and> same_book v v'" if "set es \<subseteq> set (entries ord ?s)" for es
    using that
  proof (induction es arbitrary: v)
    case (Cons e es)
    obtain key it where e: "e = (key, it)" by fastforce
    then have "map_of (lookup ?s) key = Some it" using Cons.prems by (simp add: entries_mem [OF assms(2)])
    then obtain t k where k: "it = Itemize t (Some (MemberPtr k))" using book_entry [OF assms(1)] by blast
    have "same_book v (offer now pick i m (m_user (members v k)) v)" by (simp add: offer_eq same_book_user)
    moreover obtain v' where "fold (\<lambda>(key, it) st. ?f key it st) es (Some (offer now pick i m (m_user (members v k)) v)) = Some v'"
      "same_book (offer now pick i m (m_user (members v k)) v) v'"
      using Cons.IH [of "offer now pick i m (m_user (members v k)) v"] Cons.prems by auto
    ultimately show ?case using e k same_book_trans by (auto simp: broadcast_fn_def)
  qed simp
  note all = this [of "filter (\<lambda>(k, it). Value now it \<noteq> None) (entries ord ?s)", OF filter_is_subset]
  obtain ks where "Each ord now (\<lambda>key it st. (None, ?f key it st)) ?s (Some v) =
    (None, fold (\<lambda>(key, it) st. ?f key it st) (filter (\<lambda>(k, it). Value now it \<noteq> None) (entries ord ?s)) (Some v),
     foldl (\<lambda>s k. cleanup now k s) ?s ks)"
    using Each_total [of "\<lambda>key it st. (None, ?f key it st)" ?f ord now ?s "Some v", OF refl] by blast
  then show ?thesis using all by (simp add: clean)
qed

definition is_command :: "Message \<Rightarrow> bool" where
  "is_command m \<longleftrightarrow> (case m of CommandMsg b t f c args \<Rightarrow> True | _ \<Rightarrow> False)"

lemma book_deliver:
  assumes "book_inv low w" and "permuting ord" and "no_nil m" and "\<not> is_command m"
  shows "\<exists>w'. deliver run err_text lg ord pick now i m w = Some w' \<and> same_book w w'"
proof (cases "To m")
  case None
  let ?w = "logged lg m w"
  have l: "same_book w ?w" by (rule same_book_logged [OF assms(1)])
  then obtain v where v: "Each ord now (\<lambda>key it st. (None, broadcast_fn now pick i m key it st)) (Members (the_room w)) (Some ?w) =
      (None, Some v, Members (the_room w))" "same_book ?w v"
    using book_offers [OF assms(1,2), of ?w now pick i m] by (auto simp: same_book_def)
  have hist: "History_Add lg m (r_history (the_room w)) = Inr (history_push lg m (r_history (the_room w)))"
    using assms(1) by (simp add: book_inv_def history_ok_def History_Add_Inr)
  have "set_Members (Members (the_room w)) v = v"
    using l v(2) set_Members_same [of v] by (simp add: same_book_def)
  then have "deliver run err_text lg ord pick now i m w = Some v"
    using None v(1) hist assms(4) by (cases m) (simp_all add: is_command_def deliver_def logged_fold Let_def)
  then show ?thesis using same_book_trans [OF l v(2)] by blast
next
  case (Some to)
  then obtain q where q: "to = Some q" using assms(3) by (cases to) (auto simp: no_nil_def)
  then have "deliver run err_text lg ord pick now i m w = Some (upd_user q (mailed now (pick q) i m) w)"
    using Some deliver_to_one [of m q] by simp
  then show ?thesis by (simp add: same_book_user)
qed

lemma book_HandleMsg:
  assumes "book_inv low w" and "permuting ord" and "no_nil m" and "\<not> is_command m"
  shows "\<exists>w'. HandleMsg run err_text lg ord pick now m w = Some w' \<and> same_book w w'"
proof -
  obtain i where i: "(case From m of None \<Rightarrow> Some [] | Some f \<Rightarrow> from_ID (users w) f) = Some i"
    using assms(3) by (cases "From m") (auto simp: no_nil_def from_ID_def)
  note d = book_deliver [OF assms, of run err_text lg pick now i]
  show ?thesis
  proof (cases "i = [] \<or> map_of (lookup (Members (the_room w))) (normalize low i) = None")
    case True
    then show ?thesis using i d assms(1) by (auto simp: HandleMsg_def Get_def Let_def book_inv_def)
  next
    case False
    then obtain it where it: "map_of (lookup (Members (the_room w))) (normalize low i) = Some it" "i \<noteq> []" by auto
    then obtain t k where "it = Itemize t (Some (MemberPtr k))" using book_entry [OF assms(1)] by blast
    moreover have "same_book w (send_user pick p m w)" for p by (simp add: send_user_def same_book_user)
    ultimately show ?thesis
      using i d it assms(1,4) by (cases m) (auto simp: is_command_def HandleMsg_def Get_def Let_def book_inv_def)
  qed
qed

definition stepped :: "(rune \<Rightarrow> rune) \<Rightarrow> 'w world_scheme \<Rightarrow> (pc \<times> 'w world_scheme) option \<Rightarrow> bool" where
  "stepped low w r \<longleftrightarrow> (\<exists>c w'. r = Some (c, w') \<and> book_inv low w' \<and> next_mid w \<le> next_mid w' \<and> pc_ok (next_mid w') c)"

lemma stepped_Some [simp]:
  "stepped low w (Some (c, w')) \<longleftrightarrow> book_inv low w' \<and> next_mid w \<le> next_mid w' \<and> pc_ok (next_mid w') c"
  by (simp add: stepped_def)

lemma next_mid_upd [simp]: "next_mid (set_name rnd new p w) = next_mid w" "next_mid (upd_user p f w) = next_mid w"
  by simp_all

lemma set_name_member [simp]: "closed (the_room (set_name rnd new p w)) = closed (the_room w)"
  by simp

lemma book_open: "book_inv low w \<Longrightarrow> \<not> closed (the_room w)"
  by (simp add: book_inv_def)

lemma book_History:
  assumes "book_inv low w"
  shows "\<exists>w'. Room_History pick p w = Some w' \<and> same_book w w'"
  using assms
  by (simp add: Room_History_eq book_inv_def history_ok_def send_users_eq same_book_def upd_user_ident)

lemma join_fine: "book_inv low w \<Longrightarrow> stepped low w (join_start e p w)"
proof -
  assume w: "book_inv low w"
  let ?it = "Itemize (uID w p) (Some (MemberPtr (next_mid w)))"
  have s: "set_inv (Members (the_room w))" "normalizer (Members (the_room w)) = normalize low"
    using w by (simp_all add: book_inv_def)
  have "book_inv low (set_Members (snd (Add (clock e) ?it (Members (the_room w)))) (alloc p w))"
    by (rule book_set [OF book_alloc [OF w]])
       (use s in \<open>auto simp: Add_def Let_def set_wf split: option.splits if_splits\<close>)
  then show ?thesis using w by (auto simp: join_start_def Let_def split: prod.split option.split)
qed

lemma leave_fine: "book_inv low w \<Longrightarrow> stepped low w (leave_start p w)"
proof -
  assume w: "book_inv low w"
  have s: "set_inv (Members (the_room w))" "normalizer (Members (the_room w)) = normalize low"
    using w by (simp_all add: book_inv_def)
  have "book_inv low (set_Members (snd (Remove (uID w p) (Members (the_room w)))) w)"
    by (rule book_set [OF w]) (use s in \<open>auto simp: Remove_def Let_def set_wf delete_conv' split: option.splits if_splits\<close>)
  then show ?thesis by (auto simp: leave_start_def split: prod.split option.split)
qed

lemma nick_fine: "book_inv low w \<Longrightarrow> stepped low w (nick_start e p name w)"
  using book_MemberByID [of low w "clock e" "uID w p"] by (auto simp: nick_start_def split: option.splits)

lemma rename_fine: "book_inv low w \<Longrightarrow> stepped low w (rename_start e p user_arg name_arg w)"
  using book_MemberByID [of low w "clock e" "uID w p"]
  by (auto simp: rename_start_def Room_IsOp_def Room_Member_def split: option.splits)

lemma advance_fine:
  assumes w: "book_inv low w" and c: "pc_ok (next_mid w) c"
  shows "stepped low w (advance human pick e p c w)"
proof (cases c)
  case (Added k)
  obtain w1 where "Room_History pick p w = Some w1" "same_book w w1" using book_History [OF w] by blast
  then show ?thesis
    using Added c book_same [OF w, of w1] book_open [of low w1] book_same [OF _ book_announced, of low w1]
    by (simp add: Send_announce same_book_def)
next
  case (Allowed user_arg name_arg)
  then show ?thesis using book_MemberByID [OF w, of "clock e" user_arg] w by (auto split: option.splits)
next
  case (Keyed k old key who)
  let ?it = "Itemize key (Some (MemberPtr k))"
  have s: "set_inv (Members (the_room w))" "normalizer (Members (the_room w)) = normalize low"
    using w by (simp_all add: book_inv_def)
  have "book_inv low (set_Members (snd (Replace old ?it (Members (the_room w)))) w)"
    by (rule book_set [OF w set_inv_Replace [OF s(1)]])
       (use s c Keyed in \<open>auto simp: Replace_def Let_def delete_conv' split: option.splits if_splits\<close>)
  then show ?thesis using Keyed c by (auto split: prod.split option.split)
qed (use w c in \<open>auto simp: Let_def book_set_name Send_announce book_open book_same [OF w book_announced [OF w]] split: option.splits\<close>)

text \<open>Where all goroutines are, and the invariant of every reachable state.\<close>

definition races_inv :: "(rune \<Rightarrow> rune) \<Rightarrow> 'w races \<Rightarrow> bool" where
  "races_inv low s \<longleftrightarrow> book_inv low (snd s) \<and> (\<forall>p. pc_ok (next_mid (snd s)) (fst s p))"

lemma races_fine:
  assumes "races_inv low (pc, w)" and "stepped low w (Some (c, w'))"
  shows "races_inv low (pc(p := c), w')"
  using assms by (auto simp: races_inv_def intro: pc_ok_mono)

lemma race_step_inv: "race_step renames s s' \<Longrightarrow> races_inv low s \<Longrightarrow> races_inv low s'"
proof (induction rule: race_step.induct)
  case (join pc p e w c w')
  then show ?case using races_fine join_fine [of low w e p] by (metis races_inv_def snd_conv)
next
  case (nick pc p e name w c w')
  then show ?case using races_fine nick_fine [of low w e p name] by (metis races_inv_def snd_conv)
next
  case (rename pc p e user_arg name_arg w c w')
  then show ?case using races_fine rename_fine [of low w e p user_arg name_arg] by (metis races_inv_def snd_conv)
next
  case (leave pc p w c w')
  then show ?case using races_fine leave_fine [of low w p] by (metis races_inv_def snd_conv)
next
  case (next_section human pick e p pc w c w')
  then show ?case using races_fine advance_fine [of low w "pc p" human pick e p] by (metis races_inv_def fst_conv snd_conv)
next
  case (other w w' pc)
  then show ?case using book_same by (fastforce simp: races_inv_def same_book_def)
next
  case (dress pc p f w)
  then show ?case using book_upd_user by (fastforce simp: races_inv_def)
qed

section \<open>Without operators that rename\<close>

text \<open>The name under which the member of a goroutine is in the set: while it is being renamed, the old
  one. \<open>own\<close>: what a goroutine holds is its own member, under its own name.\<close>

fun held :: "pc \<Rightarrow> string \<Rightarrow> string" where
  "held (Named k old by) i = old"
| "held (Checked k old by) i = old"
| "held (Keyed k old new by) i = old"
| "held (Refused k old) i = old"
| "held c i = i"

fun own :: "pc \<Rightarrow> mid \<Rightarrow> string \<Rightarrow> bool" where
  "own Outside k i = False"
| "own Removed k i = False"
| "own (Added k') k i = (k' = k)"
| "own Idle k i = True"
| "own (Allowed u n) k i = False"
| "own (Found k' new by) k i = (k' = k \<and> by = None)"
| "own (Chosen k' old new by) k i = (k' = k \<and> by = None \<and> old = i)"
| "own (Named k' old by) k i = (k' = k \<and> by = None)"
| "own (Checked k' old by) k i = (k' = k \<and> by = None)"
| "own (Keyed k' old new by) k i = (k' = k \<and> by = None \<and> new = i)"
| "own (Replaced k' old by) k i = (k' = k \<and> by = None)"
| "own (Refused k' old) k i = (k' = k)"
| "own (Telling old p) k i = False"

definition inside :: "pc \<Rightarrow> bool" where
  "inside c \<longleftrightarrow> c \<noteq> Outside \<and> c \<noteq> Removed"

definition seat :: "(rune \<Rightarrow> rune) \<Rightarrow> pc \<Rightarrow> 'w world_scheme \<Rightarrow> uid \<Rightarrow> mid \<Rightarrow> bool" where
  "seat low c w p k \<longleftrightarrow> own c k (uID w p) \<and> k < next_mid w \<and> m_user (members w k) = p \<and>
    map_of (lookup (Members (the_room w))) (normalize low (held c (uID w p))) =
      Some (Itemize (held c (uID w p)) (Some (MemberPtr k)))"

text \<open>Everybody inside has a seat, and every entry of the set is somebody's seat.\<close>

definition seats_inv :: "(rune \<Rightarrow> rune) \<Rightarrow> 'w races \<Rightarrow> bool" where
  "seats_inv low s \<longleftrightarrow> (case s of (pc, w) \<Rightarrow> races_inv low (pc, w) \<and>
    (\<forall>p. inside (pc p) \<longrightarrow> (\<exists>k. seat low (pc p) w p k)) \<and>
    (\<forall>key it. map_of (lookup (Members (the_room w))) key = Some it \<longrightarrow>
      (\<exists>p. inside (pc p) \<and> key = normalize low (held (pc p) (uID w p)))))"

lemma own_inside: "own c k i \<Longrightarrow> inside c"
  by (cases c) (simp_all add: inside_def)

lemma seats_book: "seats_inv low (pc, w) \<Longrightarrow> book_inv low w"
  by (simp add: seats_inv_def races_inv_def)

text \<open>Two goroutines never have the same key.\<close>

lemma seat_unique:
  assumes "seat low c w p k" and "seat low c' w q j"
    and "normalize low (held c (uID w p)) = normalize low (held c' (uID w q))"
  shows "p = q"
  using assms by (auto simp: seat_def)

text \<open>A goroutine takes a step: the others keep their seats when their entries stay, and what is
  in the set is an entry of another, or the own seat.\<close>

lemma seats_step:
  assumes inv: "seats_inv low (pc, w)" and races: "races_inv low (pc(p := c), w')"
    and same: "\<And>q. q \<noteq> p \<Longrightarrow> uID w' q = uID w q" "\<And>k. k < next_mid w \<Longrightarrow> m_user (members w' k) = m_user (members w k)"
      "next_mid w \<le> next_mid w'"
    and stay: "\<And>q. q \<noteq> p \<Longrightarrow> inside (pc q) \<Longrightarrow>
      map_of (lookup (Members (the_room w'))) (normalize low (held (pc q) (uID w q))) =
      map_of (lookup (Members (the_room w))) (normalize low (held (pc q) (uID w q)))"
    and own_seat: "inside c \<Longrightarrow> \<exists>k. seat low c w' p k"
    and rest: "\<And>key it. map_of (lookup (Members (the_room w'))) key = Some it \<Longrightarrow>
      \<not> (inside c \<and> key = normalize low (held c (uID w' p))) \<Longrightarrow>
      \<exists>q. q \<noteq> p \<and> inside (pc q) \<and> key = normalize low (held (pc q) (uID w q))"
  shows "seats_inv low (pc(p := c), w')"
proof -
  have "\<exists>k. seat low ((pc(p := c)) q) w' q k" if "inside ((pc(p := c)) q)" for q
  proof (cases "q = p")
    case False
    then obtain k where "seat low (pc q) w q k" using inv \<open>inside ((pc(p := c)) q)\<close> by (auto simp: seats_inv_def)
    then have "seat low (pc q) w' q k"
      using same(1) [OF False] same(2) [of k] same(3) stay [OF False] own_inside [of "pc q"] False by (auto simp: seat_def)
    then show ?thesis using False by auto
  qed (use that own_seat in simp)
  moreover have "\<exists>q. inside ((pc(p := c)) q) \<and> key = normalize low (held ((pc(p := c)) q) (uID w' q))"
    if "map_of (lookup (Members (the_room w'))) key = Some it" for key it
    using rest [OF that] same(1) by (metis fun_upd_other fun_upd_same)
  ultimately show ?thesis using races unfolding seats_inv_def prod.case by blast
qed

text \<open>A step that leaves the set alone.\<close>

lemma seats_stay:
  assumes inv: "seats_inv low (pc, w)" and races: "races_inv low (pc(p := c), w')"
    and same: "\<And>q. q \<noteq> p \<Longrightarrow> uID w' q = uID w q" "\<And>k. k < next_mid w \<Longrightarrow> m_user (members w' k) = m_user (members w k)"
      "next_mid w \<le> next_mid w'" "Members (the_room w') = Members (the_room w)"
    and held: "inside c = inside (pc p)" "inside c \<Longrightarrow> held c (uID w' p) = held (pc p) (uID w p)"
    and own: "\<And>k. seat low (pc p) w p k \<Longrightarrow> own c k (uID w' p)"
  shows "seats_inv low (pc(p := c), w')"
proof (rule seats_step [OF inv races same(1)])
  assume "inside c"
  then obtain k where "seat low (pc p) w p k" using inv held(1) by (auto simp: seats_inv_def)
  then have "seat low c w' p k" using own [of k] held(2) [OF \<open>inside c\<close>] same by (simp add: seat_def)
  then show "\<exists>k. seat low c w' p k" ..
next
  fix key it
  assume "map_of (lookup (Members (the_room w'))) key = Some it" "\<not> (inside c \<and> key = normalize low (held c (uID w' p)))"
  moreover from this(1) obtain q where "inside (pc q)" "key = normalize low (held (pc q) (uID w q))"
    using inv same(4) by (auto simp: seats_inv_def)
  ultimately show "\<exists>q. q \<noteq> p \<and> inside (pc q) \<and> key = normalize low (held (pc q) (uID w q))"
    using held by metis
qed (use same in simp_all)

lemma seats_seat:
  assumes "seats_inv low (pc, w)" and "inside (pc p)"
  obtains k where "seat low (pc p) w p k"
  using assms by (auto simp: seats_inv_def)

lemma seats_entry:
  assumes "seats_inv low (pc, w)" and "map_of (lookup (Members (the_room w))) key = Some it"
  obtains q where "inside (pc q)" "key = normalize low (held (pc q) (uID w q))"
  using assms unfolding seats_inv_def by blast

lemma seats_key:
  assumes "seats_inv low (pc, w)" and "inside (pc q)"
  shows "map_of (lookup (Members (the_room w))) (normalize low (held (pc q) (uID w q))) \<noteq> None"
  by (rule seats_seat [OF assms]) (simp add: seat_def)

lemma seats_other_key:
  assumes "seats_inv low (pc, w)" and "inside (pc p)" and "inside (pc q)" and "q \<noteq> p"
  shows "normalize low (held (pc q) (uID w q)) \<noteq> normalize low (held (pc p) (uID w p))"
  by (rule seats_seat [OF assms(1,2)], rule seats_seat [OF assms(1,3)]) (use assms(4) seat_unique in blast)

lemma seats_join:
  assumes inv: "seats_inv low (pc, w)" and p: "pc p = Outside" and j: "join_start e p w = Some (c, w')"
  shows "seats_inv low (pc(p := c), w')"
proof -
  have races: "races_inv low (pc(p := c), w')"
    using races_fine [of low pc w c w'] join_fine [OF seats_book [OF inv], of e p] inv j by (simp add: seats_inv_def)
  have b: "book_inv low w" by (rule seats_book [OF inv])
  then have n: "normalizer (Members (the_room w)) = normalize low" by (simp add: book_inv_def)
  let ?it = "Itemize (uID w p) (Some (MemberPtr (next_mid w)))" and ?key = "normalize low (uID w p)"
  show ?thesis
  proof (cases "uID w p = [] \<or> map_of (lookup (Members (the_room w))) ?key \<noteq> None")
    case True
    have "c = Outside \<and> (w' = w \<or> w' = alloc p w)"
    proof (cases "uID w p = []")
      case False
      then obtain it where it: "map_of (lookup (Members (the_room w))) ?key = Some it" using True by auto
      then obtain s k where "it = Itemize s (Some (MemberPtr k))" using book_entry [OF b it] by blast
      then have "Add (clock e) ?it (Members (the_room w)) = (Some ErrCollision, Members (the_room w))"
        using it by (simp add: Add_def Let_def n)
      then show ?thesis using j False set_Members_same [of "alloc p w"] by (simp add: join_start_def Let_def)
    qed (use j in \<open>simp add: join_start_def\<close>)
    then show ?thesis using seats_stay [OF inv races] p by (auto simp: seat_def alloc_def uID_def)
  next
    case False
    then have new: "uID w p \<noteq> []" "map_of (lookup (Members (the_room w))) ?key = None" by simp_all
    then have cw: "c = Added (next_mid w)" "w' = set_Members ((Members (the_room w))\<lparr>lookup :=
        AList.update ?key ?it (lookup (Members (the_room w)))\<rparr>) (alloc p w)"
      using j by (simp_all add: join_start_def Let_def Add_def n)
    have key: "normalize low (held (pc q) (uID w q)) \<noteq> ?key" if "inside (pc q)" for q
      using seats_key [OF inv that] new(2) by metis
    show ?thesis
    proof (rule seats_step [OF inv races])
      show "\<exists>k. seat low c w' p k" by (intro exI [of _ "next_mid w"]) (simp add: cw seat_def)
    next
      fix key' it
      assume e: "map_of (lookup (Members (the_room w'))) key' = Some it" "\<not> (inside c \<and> key' = normalize low (held c (uID w' p)))"
      then have "map_of (lookup (Members (the_room w))) key' = Some it" by (auto simp: cw inside_def split: if_splits)
      then show "\<exists>q. q \<noteq> p \<and> inside (pc q) \<and> key' = normalize low (held (pc q) (uID w q))"
        using p seats_entry [OF inv] inside_def by metis
    qed (use key in \<open>auto simp: cw\<close>, simp add: alloc_def)
  qed
qed

lemma seats_leave:
  assumes inv: "seats_inv low (pc, w)" and p: "pc p = Idle" and l: "leave_start p w = Some (c, w')"
  shows "seats_inv low (pc(p := c), w')"
proof -
  have races: "races_inv low (pc(p := c), w')"
    using races_fine [of low pc w c w'] leave_fine [OF seats_book [OF inv], of p] inv l by (simp add: seats_inv_def)
  have n: "normalizer (Members (the_room w)) = normalize low" using seats_book [OF inv] by (simp add: book_inv_def)
  have ins: "inside (pc p)" by (simp add: p inside_def)
  have "map_of (lookup (Members (the_room w))) (normalize low (uID w p)) \<noteq> None"
    using seats_key [OF inv ins] p by simp
  then have cw: "c = Removed" "w' = set_Members ((Members (the_room w))\<lparr>lookup :=
      AList.delete (normalize low (uID w p)) (lookup (Members (the_room w)))\<rparr>) w"
    using l by (auto simp: leave_start_def Remove_def Let_def n)
  show ?thesis
  proof (rule seats_step [OF inv races])
    fix q assume "q \<noteq> p" "inside (pc q)"
    then show "map_of (lookup (Members (the_room w'))) (normalize low (held (pc q) (uID w q))) =
        map_of (lookup (Members (the_room w))) (normalize low (held (pc q) (uID w q)))"
      using seats_other_key [OF inv ins, of q] p by (simp add: cw)
  next
    fix key it
    assume "map_of (lookup (Members (the_room w'))) key = Some it"
    then have "map_of (lookup (Members (the_room w))) key = Some it" "key \<noteq> normalize low (uID w p)"
      by (auto simp: cw delete_conv' split: if_splits)
    then show "\<exists>q. q \<noteq> p \<and> inside (pc q) \<and> key = normalize low (held (pc q) (uID w q))"
      using seats_entry [OF inv] p held.simps by metis
  qed (simp_all add: cw inside_def)
qed

lemma seats_nick:
  assumes inv: "seats_inv low (pc, w)" and p: "pc p = Idle" and s: "nick_start e p name w = Some (c, w')"
  shows "seats_inv low (pc(p := c), w')"
proof -
  have races: "races_inv low (pc(p := c), w')"
    using races_fine [of low pc w c w'] nick_fine [OF seats_book [OF inv], of e p name] inv s by (simp add: seats_inv_def)
  obtain k where k: "seat low (pc p) w p k" using seats_seat [OF inv, of p] p by (auto simp: inside_def)
  then have own: "map_of (lookup (Members (the_room w))) (normalize low (uID w p)) = Some (Itemize (uID w p) (Some (MemberPtr k)))"
    using p by (simp add: seat_def)
  obtain found where found: "MemberByID (clock e) (uID w p) w = Some (found, w)"
      "case found of None \<Rightarrow> map_of (lookup (Members (the_room w))) (normalize low (uID w p)) = None
       | Some k \<Rightarrow> k < next_mid w \<and>
          (\<exists>s. map_of (lookup (Members (the_room w))) (normalize low (uID w p)) = Some (Itemize s (Some (MemberPtr k))))"
    using book_MemberByID [OF seats_book [OF inv], of "clock e" "uID w p"] by blast
  then have "found = Some k" using own by (cases found) auto
  then have cw: "c = Found k (Name name) None" "w' = w" using s found(1) by (simp_all add: nick_start_def)
  have "k' = k" if "seat low (pc p) w p k'" for k' using that k by (simp add: seat_def)
  then show ?thesis using seats_stay [OF inv races] p by (simp add: cw inside_def)
qed

lemma seats_replace:
  assumes inv: "seats_inv low (pc, w)" and p: "pc p = Keyed k old new by" and s: "advance human pick e p (pc p) w = Some (c, w')"
  shows "seats_inv low (pc(p := c), w')"
proof -
  have races: "races_inv low (pc(p := c), w')"
    using races_fine [of low pc w c w'] advance_fine [OF seats_book [OF inv], of "pc p" human pick e p] inv s
    by (simp add: seats_inv_def races_inv_def)
  have n: "normalizer (Members (the_room w)) = normalize low" using seats_book [OF inv] by (simp add: book_inv_def)
  have ins: "inside (pc p)" by (simp add: p inside_def)
  obtain k' where "seat low (pc p) w p k'" by (rule seats_seat [OF inv ins])
  then have k: "seat low (pc p) w p k" "new = uID w p" "by = None" "m_user (members w k) = p" "k < next_mid w"
    using p by (auto simp: seat_def)
  let ?it = "Itemize new (Some (MemberPtr k))" and ?s = "Members (the_room w)"
  obtain err s' where r: "Replace old ?it ?s = (err, s')" by (cases "Replace old ?it ?s")
  show ?thesis
  proof (cases err)
    case (Some x)
    then have "s' = ?s" using r Replace_error [of old ?it ?s x] by simp
    then have cw: "c = Refused k old" "w' = w" using r Some s p set_Members_same [of w] by simp_all
    show ?thesis
      by (rule seats_stay [OF inv races]) (use p k in \<open>auto simp: cw inside_def seat_def\<close>)
  next
    case None
    then have cw: "c = Replaced k old by" "w' = set_Members s' w" using r s p by simp_all
    have look: "map_of (lookup s') = (map_of (lookup ?s))(normalize low old := None, normalize low new \<mapsto> ?it)"
      using Replace_lookup [of old ?it ?s] r None by (simp add: n)
    have free: "normalize low new = normalize low old \<or> map_of (lookup ?s) (normalize low new) = None"
      using r None by (auto simp: Replace_def Let_def n split: if_splits)
    have other: "normalize low (held (pc q) (uID w q)) \<noteq> normalize low old"
      "normalize low (held (pc q) (uID w q)) \<noteq> normalize low new" if "q \<noteq> p" "inside (pc q)" for q
    proof -
      show *: "normalize low (held (pc q) (uID w q)) \<noteq> normalize low old"
        using seats_other_key [OF inv ins that(2,1)] p by simp
      show "normalize low (held (pc q) (uID w q)) \<noteq> normalize low new"
        using seats_key [OF inv that(2)] free * by metis
    qed
    show ?thesis
    proof (rule seats_step [OF inv races])
      show "\<exists>k. seat low c w' p k" by (rule exI [of _ k]) (use k look in \<open>simp add: cw seat_def\<close>)
    next
      fix key it
      assume "map_of (lookup (Members (the_room w'))) key = Some it" "\<not> (inside c \<and> key = normalize low (held c (uID w' p)))"
      then have "map_of (lookup ?s) key = Some it" "key \<noteq> normalize low old"
        using k look by (auto simp: cw inside_def split: if_splits)
      then show "\<exists>q. q \<noteq> p \<and> inside (pc q) \<and> key = normalize low (held (pc q) (uID w q))"
        using seats_entry [OF inv] p held.simps(3) by metis
    qed (use other look in \<open>auto simp: cw\<close>)
  qed
qed

lemma seats_advance:
  assumes inv: "seats_inv low (pc, w)" and s: "advance human pick e p (pc p) w = Some (c, w')"
  shows "seats_inv low (pc(p := c), w')"
proof -
  have b: "book_inv low w" by (rule seats_book [OF inv])
  have name: "has_name w q" for q using b by (simp add: book_inv_def)
  have races: "races_inv low (pc(p := c), w')"
    using races_fine [of low pc w c w'] advance_fine [OF b, of "pc p" human pick e p] inv s
    by (simp add: seats_inv_def races_inv_def)
  have k: "\<exists>k. seat low (pc p) w p k" if "inside (pc p)" using seats_seat [OF inv that] by blast
  note stay = seats_stay [OF inv races]
  show ?thesis
  proof (cases "pc p")
    case (Added k)
    obtain w1 where h: "Room_History pick p w = Some w1" "same_book w w1" using book_History [OF b] by blast
    then have "c = Idle" "same_book w w'"
      using s Added book_open [OF book_same [OF b h(2)]] book_announced [OF book_same [OF b h(2)]]
      by (auto simp: Send_announce same_book_def)
    then show ?thesis by (intro stay) (auto simp: same_book_def uID_def Added inside_def)
  next
    case (Found k new who)
    then have q: "m_user (members w k) = p" "who = None" using k by (auto simp: inside_def seat_def)
    then have "c = (if new = uID w p then Idle else Chosen k (uID w p) new None)" "w' = w"
      using s Found by (auto simp: Let_def)
    then show ?thesis using Found by (intro stay) (auto simp: inside_def seat_def)
  next
    case (Chosen k old new who)
    then have "m_user (members w k) = p" "who = None" "old = uID w p" using k by (auto simp: inside_def seat_def)
    then have "c = Named k (uID w p) None" "w' = set_name (rand1 e) new p w" using s Chosen by simp_all
    then show ?thesis using Chosen name by (intro stay) (auto simp: inside_def uID_set_name seat_def)
  next
    case (Named k old who)
    then have "who = None" using k by (auto simp: inside_def seat_def)
    then have "c = (if uID w (m_user (members w k)) = [] then Refused k old else Checked k old None)" "w' = w"
      using s Named by auto
    then show ?thesis using Named by (intro stay) (auto simp: inside_def seat_def)
  next
    case (Checked k old who)
    then have "m_user (members w k) = p" "who = None" using k by (auto simp: inside_def seat_def)
    then have "c = Keyed k old (uID w p) None" "w' = w" using s Checked by auto
    then show ?thesis using Checked by (intro stay) (auto simp: inside_def seat_def)
  next
    case (Keyed k old new who)
    then show ?thesis using seats_replace [OF inv Keyed s] by simp
  next
    case (Replaced k old who)
    then have "who = None" using k by (auto simp: inside_def seat_def)
    then have "c = Idle" "same_book w w'"
      using s Replaced book_announced [OF b] book_open [OF b] by (auto simp: Send_announce)
    then show ?thesis by (intro stay) (auto simp: same_book_def uID_def Replaced inside_def)
  next
    case (Refused k old)
    then have "m_user (members w k) = p" using k by (auto simp: inside_def seat_def)
    then have "c = Idle" "w' = set_name (rand2 e) old p w" using s Refused by simp_all
    then show ?thesis using Refused name by (intro stay) (auto simp: inside_def uID_set_name)
  next
    case Removed
    then have "c = Outside" "same_book w w'"
      using s book_announced [OF b] book_open [OF b] by (auto simp: Send_announce)
    then show ?thesis by (intro stay) (auto simp: same_book_def uID_def Removed inside_def seat_def)
  next
    case Outside
    then have "c = pc p" "w' = w" using s by simp_all
    then show ?thesis using inv by (simp only: fun_upd_triv)
  next
    case Idle
    then have "c = pc p" "w' = w" using s by simp_all
    then show ?thesis using inv by (simp only: fun_upd_triv)
  qed (use k in \<open>simp_all add: inside_def seat_def\<close>)
qed

text \<open>Every step but those of a \<open>/rename\<close>.\<close>

lemma seats_race: "race_step False s s' \<Longrightarrow> seats_inv low s \<Longrightarrow> seats_inv low s'"
proof (induction rule: race_step.induct)
  case (other w w' pc)
  have "races_inv low (pc, w')" using race_step_inv [OF race_step.other [OF other.hyps]] other.prems by (simp add: seats_inv_def)
  then show ?case using other by (simp add: seats_inv_def seat_def same_book_def uID_def)
next
  case (dress pc p f w)
  have "races_inv low (pc, upd_user p f w)"
    using race_step_inv [OF race_step.dress [of pc p f w False, OF dress.hyps], of low] dress.prems by (simp add: seats_inv_def)
  then have races: "races_inv low (pc(p := pc p), upd_user p f w)" by (simp only: fun_upd_triv)
  have "seats_inv low (pc(p := pc p), upd_user p f w)"
    by (rule seats_stay [OF dress.prems races]) (use dress in \<open>auto simp: uID_def seat_def inside_def\<close>)
  then show ?case by (simp only: fun_upd_triv)
qed (simp_all add: seats_join seats_nick seats_leave seats_advance)

lemma seats_reachable: "(race_step False)\<^sup>*\<^sup>* s s' \<Longrightarrow> seats_inv low s \<Longrightarrow> seats_inv low s'"
  by (induction rule: rtranclp_induct) (simp_all add: seats_race)

lemma races_reachable: "(race_step renames)\<^sup>*\<^sup>* s s' \<Longrightarrow> races_inv low s \<Longrightarrow> races_inv low s'"
  by (induction rule: rtranclp_induct) (simp_all add: race_step_inv)

section \<open>Schedules\<close>

text \<open>A run as a list: which goroutine does what next.\<close>

datatype act = DoJoin | DoNick string | DoRename string string | DoLeave | DoNext

fun do_act :: "env \<Rightarrow> uid \<Rightarrow> act \<Rightarrow> pc \<Rightarrow> 'w world_scheme \<Rightarrow> (pc \<times> 'w world_scheme) option" where
  "do_act e p DoJoin c w = (if c = Outside then join_start e p w else None)"
| "do_act e p (DoNick name) c w = (if c = Idle then nick_start e p name w else None)"
| "do_act e p (DoRename user_arg name_arg) c w = (if c = Idle then rename_start e p user_arg name_arg w else None)"
| "do_act e p DoLeave c w = (if c = Idle then leave_start p w else None)"
| "do_act e p DoNext c w = advance (\<lambda>t. []) (\<lambda>q. True) e p c w"

fun schedule :: "env \<Rightarrow> (uid \<times> act) list \<Rightarrow> 'w races \<Rightarrow> 'w races option" where
  "schedule e [] s = Some s"
| "schedule e ((p, a) # as) (pc, w) = do { (c, w) \<leftarrow> do_act e p a (pc p) w; schedule e as (pc(p := c), w) }"

definition is_rename :: "act \<Rightarrow> bool" where
  "is_rename a \<longleftrightarrow> (case a of DoRename u n \<Rightarrow> True | _ \<Rightarrow> False)"

lemma do_act_step:
  "do_act e p a (pc p) w = Some (c, w') \<Longrightarrow> is_rename a \<longrightarrow> renames \<Longrightarrow> race_step renames (pc, w) (pc(p := c), w')"
  by (cases a) (auto simp: is_rename_def split: if_splits intro: race_step.intros)

lemma schedule_steps:
  "schedule e as s = Some s' \<Longrightarrow> list_all (\<lambda>(p, a). is_rename a \<longrightarrow> renames) as \<Longrightarrow> (race_step renames)\<^sup>*\<^sup>* s s'"
proof (induction e as s rule: schedule.induct)
  case (2 e p a as pc w)
  then obtain c w1 where c: "do_act e p a (pc p) w = Some (c, w1)" "schedule e as (pc(p := c), w1) = Some s'"
    by (auto simp: bind_eq_Some_conv)
  then have "(race_step renames)\<^sup>*\<^sup>* (pc(p := c), w1) s'" using 2 by simp
  then show ?case using do_act_step [of e p a pc w, OF c(1)] 2(3) by (auto intro: converse_rtranclp_into_rtranclp)
qed simp

definition ex_pc :: "uid \<Rightarrow> pc" where
  "ex_pc = (\<lambda>p. if p = 0 then Idle else Outside)"

text \<open>\<open>al\<close> asks for the name of \<open>bob\<close>, has taken it, and then \<open>bob\<close> joins.\<close>

definition ex_nick :: "(uid \<times> act) list" where
  "ex_nick = [(0, DoNick ''bob''), (0, DoNext), (0, DoNext), (1, DoJoin), (0, DoNext), (1, DoNext), (0, DoNext),
     (0, DoNext), (0, DoNext)]"

lemma ex_nick_run:
  "case schedule ex_env ex_nick (ex_pc, ex_world) of None \<Rightarrow> False
   | Some (pc, w) \<Rightarrow> pc 0 = Idle \<and> pc 1 = Idle \<and> uID w 0 = ''al'' \<and> uID w 1 = ''bob''"
  by code_simp

text \<open>Three members; \<open>al\<close>, an operator, renames \<open>tom\<close> to \<open>bob\<close>, and \<open>tom\<close> is disconnected when
  it has that name and is not in the set under it yet.\<close>

definition ev_world :: world where
  "ev_world = set_name 0 ''tom'' 1 (upd_member 0 (\<lambda>m. m\<lparr>is_op := True\<rparr>) ex_world)"

definition ev_joined :: "(uid \<times> act) list" where
  "ev_joined = [(1, DoJoin), (1, DoNext), (2, DoJoin), (2, DoNext)]"

definition ev_race :: "(uid \<times> act) list" where
  "ev_race = [(0, DoRename ''tom'' ''bob''), (0, DoNext), (0, DoNext), (0, DoNext), (1, DoLeave), (1, DoNext),
     (0, DoNext), (0, DoNext), (0, DoNext), (0, DoNext), (0, DoNext)]"

lemma ev_run:
  "case schedule ex_env (ev_joined @ ev_race) (ex_pc, ev_world) of None \<Rightarrow> False
   | Some (pc, w) \<Rightarrow> pc 0 = Idle \<and> pc 1 = Outside \<and> pc 2 = Idle \<and> uID w 2 = ''bob'' \<and>
       map (\<lambda>(key, it). (key, map_option (\<lambda>k. m_user (members w k)) (as_member (Value 0 it)))) (lookup (Members (the_room w))) =
         [(''al'', Some 0), (''bob'', Some 1)]"
  by code_simp

section \<open>Properties\<close>

text \<open>Everybody in the room before anybody moves.\<close>

lemma seats_start:
  assumes "chat_inv low w" and "\<And>p. pc p = (if p \<in> room_users w then Idle else Outside)"
  shows "seats_inv low (pc, w)"
proof -
  have inv: "room_inv low w" by (rule chat_room [OF assms(1)])
  have n: "normalizer (Members (the_room w)) = normalize low" by (rule room_normalizer [OF inv])
  have entry: "\<exists>k<next_mid w. it = entry_of w k \<and> key = normalize low (uID w (m_user (members w k)))"
    if "map_of (lookup (Members (the_room w))) key = Some it" for key it
    using room_inv_entry [OF inv that] room_key [OF inv] that by blast
  have "book_inv low w"
    unfolding book_inv_def history_ok_def
    using assms(1) entry user_wf_name chat_user [OF assms(1)] by (fastforce simp: chat_inv_def room_inv_def entry_of_def)
  then have "races_inv low (pc, w)" by (auto simp: races_inv_def assms(2))
  moreover have "\<exists>k. seat low (pc p) w p k" if "inside (pc p)" for p
  proof -
    have "p \<in> room_users w" using that assms(2) [of p] by (auto simp: inside_def split: if_splits)
    then obtain k key where k: "p = m_user (members w k)" "map_of (lookup (Members (the_room w))) key = Some (entry_of w k)"
      by (auto simp: room_users_def)
    then have "seat low (pc p) w p k"
      using entry [OF k(2)] room_key [OF inv k(2)] assms(2) [of p] \<open>p \<in> room_users w\<close> by (auto simp: seat_def entry_of_def)
    then show ?thesis ..
  qed
  moreover have "\<exists>p. inside (pc p) \<and> key = normalize low (held (pc p) (uID w p))"
    if it: "map_of (lookup (Members (the_room w))) key = Some it" for key it
  proof -
    obtain k where k: "it = entry_of w k" "key = normalize low (uID w (m_user (members w k)))" using entry [OF it] by blast
    then have "m_user (members w k) \<in> room_users w" using it by (auto simp: room_users_def)
    then show ?thesis
      using k(2) assms(2) [of "m_user (members w k)"] by (intro exI [of _ "m_user (members w k)"]) (simp add: inside_def)
  qed
  ultimately show ?thesis unfolding seats_inv_def prod.case by blast
qed

lemma seats_member:
  assumes "seats_inv low (pc, w)" and "pc p = Idle"
  shows "\<exists>k. member_at w (uID w p) = Some k \<and> m_user (members w k) = p"
proof -
  obtain k where "seat low (pc p) w p k" using seats_seat [OF assms(1), of p] assms(2) by (auto simp: inside_def)
  then show ?thesis
    using seats_book [OF assms(1)] assms(2) by (auto simp: seat_def member_at_def book_inv_def intro!: exI [of _ k])
qed

lemma seats_quiet:
  assumes "seats_inv low (pc, w)" and "\<And>p. pc p = Idle \<or> pc p = Outside"
  shows "room_inv low w \<and> room_users w = {p. pc p = Idle}"
proof -
  have b: "book_inv low w" by (rule seats_book [OF assms(1)])
  have entry: "\<exists>k<next_mid w. it = entry_of w k \<and> pc (m_user (members w k)) = Idle"
    if it: "map_of (lookup (Members (the_room w))) key = Some it" for key it
  proof -
    obtain q where q: "inside (pc q)" "key = normalize low (held (pc q) (uID w q))" by (rule seats_entry [OF assms(1) it])
    then have "pc q = Idle" using assms(2) [of q] by (auto simp: inside_def)
    moreover obtain k where "seat low (pc q) w q k" by (rule seats_seat [OF assms(1) q(1)])
    ultimately show ?thesis using it q(2) by (auto simp: seat_def entry_of_def)
  qed
  then have inv: "room_inv low w" using b by (auto simp: room_inv_def book_inv_def history_ok_def)
  have "p \<in> room_users w" if "pc p = Idle" for p
    using seats_member [OF assms(1) that] unfolding room_users_eq [OF inv] by blast
  moreover have "pc p = Idle" if "p \<in> room_users w" for p
    using that entry by (fastforce simp: room_users_def entry_of_def)
  ultimately show ?thesis using inv by blast
qed

text \<open>C17: names survive races. Let everybody in the room call \<open>/nick\<close> and leave, and others join, each
  critical section at any moment between those of the others. Then whoever has no call running is a member under
  its own name, and when no call runs the set holds exactly the connections that are in the room,
  each once and under its name.\<close>

theorem names_survive:
  assumes "chat_inv low w0" and "\<And>p. pc0 p = (if p \<in> room_users w0 then Idle else Outside)"
    and "(race_step False)\<^sup>*\<^sup>* (pc0, w0) (pc, w)"
  shows "(pc p = Idle \<longrightarrow> (\<exists>k. member_at w (uID w p) = Some k \<and> m_user (members w k) = p)) \<and>
    ((\<forall>q. pc q = Idle \<or> pc q = Outside) \<longrightarrow> room_inv low w \<and> room_users w = {q. pc q = Idle})"
  using seats_reachable [OF assms(3) seats_start [OF assms(1,2)]] seats_member seats_quiet by blast

theorem names_survive_witness:
  "case schedule ex_env ex_nick (ex_pc, ex_world) of None \<Rightarrow> False
   | Some (pc, w) \<Rightarrow> (\<exists>k. member_at w ''al'' = Some k \<and> m_user (members w k) = 0) \<and>
      (\<exists>k. member_at w ''bob'' = Some k \<and> m_user (members w k) = 1)"
proof -
  obtain pc w where run: "schedule ex_env ex_nick (ex_pc, ex_world) = Some (pc, w)"
    and at: "pc 0 = Idle" "pc 1 = Idle" "uID w 0 = ''al''" "uID w 1 = ''bob''"
    using ex_nick_run by (auto split: option.splits prod.splits)
  have "(race_step False)\<^sup>*\<^sup>* (ex_pc, ex_world) (pc, w)"
    by (rule schedule_steps [OF run]) (simp add: ex_nick_def is_rename_def)
  note survive = names_survive [OF ex_chat_inv _ this]
  have "\<exists>k. member_at w ''al'' = Some k \<and> m_user (members w k) = 0" using survive [of 0] at by (simp add: ex_pc_def)
  moreover have "\<exists>k. member_at w ''bob'' = Some k \<and> m_user (members w k) = 1" using survive [of 1] at by (simp add: ex_pc_def)
  ultimately show ?thesis using run by simp
qed

text \<open>C22: no goroutine panics. In every state that the critical sections of joins, leaves, \<open>/nick\<close> and operators'
  \<open>/rename\<close> reach in any order, every next section of every goroutine returns; the set of the members
  is well formed and holds members only, whatever their names.\<close>

theorem races_never_panic:
  assumes "chat_inv low w0" and "\<And>p. pc0 p = (if p \<in> room_users w0 then Idle else Outside)"
    and "(race_step renames)\<^sup>*\<^sup>* (pc0, w0) (pc, w)"
  shows "advance human pick e p (pc p) w \<noteq> None \<and> join_start e p w \<noteq> None \<and> leave_start p w \<noteq> None \<and>
    nick_start e p name w \<noteq> None \<and> rename_start e p user_arg name_arg w \<noteq> None \<and> book_inv low w"
proof -
  have "races_inv low (pc, w)"
    by (rule races_reachable [OF assms(3)]) (use seats_start [OF assms(1,2)] in \<open>simp add: seats_inv_def\<close>)
  then have b: "book_inv low w" "pc_ok (next_mid w) (pc p)" by (simp_all add: races_inv_def)
  show ?thesis
    using b(1) join_fine [OF b(1), of e p] leave_fine [OF b(1), of p] nick_fine [OF b(1), of e p name]
      rename_fine [OF b(1), of e p user_arg name_arg] advance_fine [OF b, of human pick e p]
    by (auto simp: stepped_def)
qed

theorem races_never_panic_witness:
  "case schedule ex_env ex_nick (ex_pc, ex_world) of None \<Rightarrow> False
   | Some (pc, w) \<Rightarrow> advance (\<lambda>t. []) (\<lambda>q. True) ex_env 0 (pc 0) w \<noteq> None \<and> book_inv id w"
proof -
  obtain pc w where run: "schedule ex_env ex_nick (ex_pc, ex_world) = Some (pc, w)"
    using ex_nick_run by (auto split: option.splits prod.splits)
  have "(race_step True)\<^sup>*\<^sup>* (ex_pc, ex_world) (pc, w)" by (rule schedule_steps [OF run]) (simp add: ex_nick_def)
  from races_never_panic [OF ex_chat_inv _ this] show ?thesis using run by (simp add: ex_pc_def)
qed


text \<open>A renaming by an operator and the end of the renamed connection: its \<open>Leave\<close> removes the
  entry of the user who has the new name, and the renaming then puts the connection that is gone into
  its place. In the end \<open>bob\<close> runs no call and is in the room no more; its name leads to \<open>tom\<close>, who
  left.\<close>

theorem rename_evicts:
  "\<exists>pc w. (race_step True)\<^sup>*\<^sup>* (ex_pc, ev_world) (pc, w) \<and> pc 0 = Idle \<and> pc 1 = Outside \<and> pc 2 = Idle \<and>
    uID w 2 = ''bob'' \<and>
    map (\<lambda>(key, it). (key, map_option (\<lambda>k. m_user (members w k)) (as_member (Value 0 it)))) (lookup (Members (the_room w))) =
      [(''al'', Some 0), (''bob'', Some 1)]"
proof -
  obtain pc w where run: "schedule ex_env (ev_joined @ ev_race) (ex_pc, ev_world) = Some (pc, w)"
    and at: "pc 0 = Idle" "pc 1 = Outside" "pc 2 = Idle" "uID w 2 = ''bob''"
      "map (\<lambda>(key, it). (key, map_option (\<lambda>k. m_user (members w k)) (as_member (Value 0 it)))) (lookup (Members (the_room w))) =
        [(''al'', Some 0), (''bob'', Some 1)]"
    using ev_run by (auto split: option.splits prod.splits)
  have "(race_step True)\<^sup>*\<^sup>* (ex_pc, ev_world) (pc, w)"
    by (rule schedule_steps [OF run]) (simp add: ev_joined_def ev_race_def)
  with at show ?thesis by (intro exI [of _ pc] exI [of _ w]) simp
qed

text \<open>Between \<open>SetID\<close> and \<open>Rename\<close> a user who asks for a name that is taken has it: both users of the room
  show the same name, although the renaming will be refused.\<close>

theorem taken_name_shows:
  "\<exists>pc w. (race_step False)\<^sup>*\<^sup>* (ex_pc, ex_world) (pc, w) \<and> inside (pc 0) \<and> inside (pc 1) \<and>
    uName w 0 = ''bob'' \<and> uName w 1 = ''bob''"
proof -
  let ?as = "[(1, DoJoin), (1, DoNext), (0, DoNick ''bob''), (0, DoNext), (0, DoNext)]"
  have "case schedule ex_env ?as (ex_pc, ex_world) of None \<Rightarrow> False
     | Some (pc, w) \<Rightarrow> pc 0 \<noteq> Outside \<and> pc 0 \<noteq> Removed \<and> pc 1 \<noteq> Outside \<and> pc 1 \<noteq> Removed \<and> uName w 0 = ''bob'' \<and> uName w 1 = ''bob''"
    by code_simp
  then obtain pc w where run: "schedule ex_env ?as (ex_pc, ex_world) = Some (pc, w)"
    and at: "inside (pc 0)" "inside (pc 1)" "uName w 0 = ''bob''" "uName w 1 = ''bob''"
    unfolding inside_def by (auto split: option.splits prod.splits)
  have "(race_step False)\<^sup>*\<^sup>* (ex_pc, ex_world) (pc, w)" by (rule schedule_steps [OF run]) (simp add: is_rename_def)
  then show ?thesis using at by blast
qed

end
