(* ===== verification/HumanTime.thy ===== *)
theory HumanTime
  imports GoStrings Complex_Main
begin

text \<open>
  The text of a time that has passed (\<open>internal/humantime\<close>), with the rounding of \<open>float64\<close>. A number
  that is not negative is \<open>m / 2 ^ k\<close>, the pair \<open>(m, k)\<close>; \<open>fl p q\<close> is the nearest to \<open>p / q\<close> with a mantissa of 53
  bits, the even one of two. All quotients that occur are smaller than \<open>2 ^ 53\<close>, so that \<open>k\<close> is
  never negative. \<open>fmt\<close> prints the exact decimal value, rounded half to even, and for a negative number a sign
  before the text of its absolute value; division and remainder of \<open>time.Duration\<close> truncate, so that the parts of a
  negative duration are those of its absolute value, too.
\<close>

section \<open>Numbers of 53 bits\<close>

type_synonym float64 = "nat \<times> nat"

definition round_even :: "nat \<Rightarrow> nat \<Rightarrow> nat" where
  "round_even p q =
    (let d = p div q; r = p mod q in
     if 2 * r < q then d else if q < 2 * r then d + 1 else if even d then d else d + 1)"

function scale_up :: "nat \<Rightarrow> nat \<Rightarrow> nat \<Rightarrow> nat \<times> nat" where
  "scale_up p q k = (if p = 0 \<or> 2 ^ 52 * q \<le> p then (p, k) else scale_up (2 * p) q (k + 1))"
  by pat_completeness auto
termination by (relation "measure (\<lambda>(p, q, k). 2 ^ 52 * q - p)") auto

declare scale_up.simps [simp del]

definition fl :: "nat \<Rightarrow> nat \<Rightarrow> float64" where
  "fl p q = (case scale_up p q 0 of (p, k) \<Rightarrow> (round_even p q, k))"

definition add_nat :: "nat \<Rightarrow> float64 \<Rightarrow> float64" where
  "add_nat n x = (case x of (m, k) \<Rightarrow> fl (n * 2 ^ k + m) (2 ^ k))"

definition div_nat :: "float64 \<Rightarrow> nat \<Rightarrow> float64" where
  "div_nat x n = (case x of (m, k) \<Rightarrow> fl m (2 ^ k * n))"

section \<open>The package \<open>time\<close> and \<open>fmt\<close>\<close>

text \<open>\<open>Seconds\<close> and \<open>Minutes\<close> of a duration in nanoseconds.\<close>

definition Seconds :: "nat \<Rightarrow> float64" where
  "Seconds d = add_nat (d div 1000000000) (fl (d mod 1000000000) 1000000000)"

definition Minutes :: "nat \<Rightarrow> float64" where
  "Minutes d = add_nat (d div 60000000000) (fl (d mod 60000000000) 60000000000)"

text \<open>\<open>%0.f\<close> and \<open>%0.1f\<close>.\<close>

definition tenths_text :: "nat \<Rightarrow> string" where
  "tenths_text n = Itoa (n div 10) @ ''.'' @ Itoa (n mod 10)"

definition whole :: "float64 \<Rightarrow> nat" where
  "whole x = (case x of (m, k) \<Rightarrow> round_even m (2 ^ k))"

definition tenths :: "float64 \<Rightarrow> nat" where
  "tenths x = (case x of (m, k) \<Rightarrow> round_even (10 * m) (2 ^ k))"

section \<open>The text\<close>

definition Since :: "time \<Rightarrow> time \<Rightarrow> string" where
  "Since now t =
    (let d = now - t; n = nat \<bar>d\<bar>; sign = (if d < 0 then ''-'' else []) in
     if d < time_Minute * 2 then sign @ Itoa (whole (Seconds n)) @ '' seconds''
     else if d < 120 * time_Minute then Itoa (whole (Minutes n)) @ '' minutes''
     else if d < 48 * 60 * time_Minute then tenths_text (tenths (div_nat (Minutes n) 60)) @ '' hours''
     else tenths_text (tenths (div_nat (Minutes n) (24 * 60))) @ '' days'')"

section \<open>Rounding\<close>

definition val :: "float64 \<Rightarrow> real" where
  "val x = (case x of (m, k) \<Rightarrow> real m / 2 ^ k)"

lemma round_even_error:
  assumes "0 < q"
  shows "\<bar>real (round_even p q) - real p / real q\<bar> \<le> 1 / 2"
proof -
  define d r where "d = p div q" and "r = p mod q"
  have p: "p = d * q + r" and r: "r < q" using assms by (simp_all add: d_def r_def)
  have e: "real p / real q = real d + real r / real q" using assms by (simp add: p add_divide_distrib)
  have "round_even p q = d \<and> 2 * r \<le> q \<or> round_even p q = d + 1 \<and> q \<le> 2 * r"
    by (auto simp: round_even_def Let_def d_def r_def)
  then show ?thesis
  proof
    assume a: "round_even p q = d \<and> 2 * r \<le> q"
    then have "real r / real q \<le> 1 / 2" using assms by (simp add: field_simps)
    then show ?thesis using a e by simp
  next
    assume a: "round_even p q = d + 1 \<and> q \<le> 2 * r"
    then have "1 / 2 \<le> real r / real q" using assms by (simp add: field_simps)
    moreover have "real r / real q \<le> 1" using r by simp
    ultimately show ?thesis using a e by simp
  qed
qed

lemma scale_up_result:
  "0 < q \<Longrightarrow> \<exists>j. snd (scale_up p q k) = k + j \<and> fst (scale_up p q k) = p * 2 ^ j \<and> (p = 0 \<or> 2 ^ 52 * q \<le> p * 2 ^ j)"
proof (induction p q k rule: scale_up.induct)
  case (1 p q k)
  show ?case
  proof (cases "p = 0 \<or> 2 ^ 52 * q \<le> p")
    case True
    then show ?thesis by (auto simp: scale_up.simps [of p q k] intro!: exI [of _ 0])
  next
    case False
    from 1(1) [OF False 1(2)] obtain j where j: "snd (scale_up (2 * p) q (k + 1)) = k + 1 + j"
        "fst (scale_up (2 * p) q (k + 1)) = 2 * p * 2 ^ j" "2 * p = 0 \<or> 2 ^ 52 * q \<le> 2 * p * 2 ^ j"
      by blast
    have "scale_up p q k = scale_up (2 * p) q (k + 1)" using False by (simp add: scale_up.simps [of p q k])
    then show ?thesis using j False by (intro exI [of _ "j + 1"]) simp
  qed
qed

text \<open>The relative error of one rounding.\<close>

lemma fl_error:
  assumes "0 < q"
  shows "\<bar>val (fl p q) - real p / real q\<bar> \<le> real p / real q / 2 ^ 53"
proof -
  obtain p' k where s: "scale_up p q 0 = (p', k)" by fastforce
  have k: "p' = p * 2 ^ k" "p = 0 \<or> 2 ^ 52 * q \<le> p'" using scale_up_result [OF assms, of p 0] s by auto
  have "\<bar>real (round_even p' q) - real p' / real q\<bar> \<le> 1 / 2" by (rule round_even_error [OF assms])
  moreover have "val (fl p q) - real p / real q = (real (round_even p' q) - real p' / real q) / 2 ^ k"
    by (simp add: val_def fl_def s k(1) field_simps)
  ultimately have e: "\<bar>val (fl p q) - real p / real q\<bar> \<le> 1 / 2 / 2 ^ k"
    using divide_right_mono [of "\<bar>real (round_even p' q) - real p' / real q\<bar>" "1 / 2" "2 ^ k"] by (simp add: abs_divide)
  show ?thesis
  proof (cases "p = 0")
    case True
    then have "k = 0 \<and> p' = 0" using s by (simp add: scale_up.simps)
    then show ?thesis using True s by (simp add: val_def fl_def round_even_def)
  next
    case False
    then have "real (2 ^ 52 * q) \<le> real (p * 2 ^ k)" using k by (auto simp only: of_nat_le_iff)
    then have "1 / 2 / 2 ^ k \<le> real p / real q / 2 ^ 53" using assms by (simp add: field_simps)
    then show ?thesis using e by linarith
  qed
qed

lemma val_nonneg [simp]: "0 \<le> val x"
  by (simp add: val_def split: prod.split)

lemma add_nat_error: "\<bar>val (add_nat n x) - (real n + val x)\<bar> \<le> (real n + val x) / 2 ^ 53"
proof -
  obtain m k where x: "x = (m, k)" by fastforce
  have "real (n * 2 ^ k + m) / real (2 ^ k) = real n + val x" by (simp add: x val_def field_simps)
  then show ?thesis using fl_error [of "2 ^ k" "n * 2 ^ k + m"] by (simp add: x add_nat_def)
qed

lemma div_nat_error: "0 < n \<Longrightarrow> \<bar>val (div_nat x n) - val x / real n\<bar> \<le> val x / real n / 2 ^ 53"
proof -
  assume n: "0 < n"
  obtain m k where x: "x = (m, k)" by fastforce
  have "real m / real (2 ^ k * n) = val x / real n" by (simp add: x val_def)
  then show ?thesis using fl_error [of "2 ^ k * n" m] n by (simp add: x div_nat_def)
qed

lemma whole_error: "\<bar>real (whole x) - val x\<bar> \<le> 1 / 2"
  using round_even_error [of "2 ^ snd x" "fst x"] by (cases x) (simp add: whole_def val_def)

lemma tenths_error: "\<bar>real (tenths x) - 10 * val x\<bar> \<le> 1 / 2"
  using round_even_error [of "2 ^ snd x" "10 * fst x"] by (cases x) (simp add: tenths_def val_def)

lemma two_roundings:
  fixes x r v q :: real
  assumes "\<bar>x - r\<bar> \<le> r / 2 ^ 53" and "\<bar>v - (q + x)\<bar> \<le> (q + x) / 2 ^ 53" and "0 \<le> q" and "0 \<le> r"
  shows "\<bar>v - (q + r)\<bar> \<le> (q + r) / 2 ^ 51"
proof -
  let ?c = "1 / 2 ^ 53 :: real"
  have "r * ?c \<le> r" using assms(4) by (intro mult_left_le) simp_all
  then have "r / 2 ^ 53 \<le> r" by simp
  moreover have "x - r \<le> r / 2 ^ 53" using assms(1) by (rule abs_le_D1)
  ultimately have "x \<le> 2 * r" by linarith
  then have "(q + x) / 2 ^ 53 \<le> (q + 2 * r) / 2 ^ 53" by (intro divide_right_mono) simp_all
  then have "\<bar>v - (q + r)\<bar> \<le> (q + 2 * r) / 2 ^ 53 + r / 2 ^ 53" using assms(1,2) by linarith
  also have "\<dots> \<le> (q + r) / 2 ^ 51" using assms(3,4) by (simp add: field_simps)
  finally show ?thesis .
qed

text \<open>Splitting a duration into a whole and a rest costs two roundings.\<close>

lemma split_error:
  assumes "0 < u"
  shows "\<bar>val (add_nat (d div u) (fl (d mod u) u)) - real d / real u\<bar> \<le> real d / real u / 2 ^ 51"
proof -
  let ?r = "real (d mod u) / real u" and ?q = "real (d div u)" and ?x = "val (fl (d mod u) u)"
  have d: "real d / real u = ?q + ?r"
    using assms by (metis (no_types) add_divide_distrib div_mult_mod_eq nonzero_mult_div_cancel_right of_nat_0_less_iff
        of_nat_add of_nat_mult less_irrefl)
  have "\<bar>?x - ?r\<bar> \<le> ?r / 2 ^ 53" by (rule fl_error [OF assms])
  moreover have "\<bar>val (add_nat (d div u) (fl (d mod u) u)) - (?q + ?x)\<bar> \<le> (?q + ?x) / 2 ^ 53" by (rule add_nat_error)
  moreover have "0 \<le> ?q" "0 \<le> ?r" by simp_all
  ultimately show ?thesis unfolding d by (rule two_roundings)
qed

text \<open>The numbers of the text against the exact ones: \<open>d\<close> nanoseconds, of which \<open>u\<close> are the unit of the last
  digit.\<close>

lemma whole_split:
  assumes "0 < u"
  shows "\<bar>real (whole (add_nat (d div u) (fl (d mod u) u))) * real u - real d\<bar> \<le> real u / 2 + real d / 2 ^ 50"
proof -
  let ?x = "add_nat (d div u) (fl (d mod u) u)"
  have "real d / real u / 2 ^ 51 \<le> real d / real u / 2 ^ 50" by (intro divide_left_mono) simp_all
  then have "\<bar>real (whole ?x) - real d / real u\<bar> \<le> 1 / 2 + real d / real u / 2 ^ 50"
    using whole_error [of ?x] split_error [OF assms, of d] by linarith
  then have "\<bar>real (whole ?x) - real d / real u\<bar> * real u \<le> (1 / 2 + real d / real u / 2 ^ 50) * real u"
    by (rule mult_right_mono) simp
  then show ?thesis using assms by (simp add: abs_mult_pos left_diff_distrib distrib_right)
qed

lemma tenths_split:
  assumes "0 < n"
  shows "\<bar>real (tenths (div_nat (Minutes d) n)) * (6000000000 * real n) - real d\<bar> \<le> 3000000000 * real n + real d / 2 ^ 50"
proof -
  let ?x = "div_nat (Minutes d) n" and ?v = "real d / 60000000000"
  have m: "\<bar>val (Minutes d) - ?v\<bar> \<le> ?v / 2 ^ 51" using split_error [of 60000000000 d] by (simp add: Minutes_def)
  have "\<bar>val (Minutes d) / real n - ?v / real n\<bar> \<le> ?v / real n / 2 ^ 51"
  proof -
    have "val (Minutes d) / real n - ?v / real n = (val (Minutes d) - ?v) / real n" by (rule diff_divide_distrib [symmetric])
    moreover have "\<bar>(val (Minutes d) - ?v) / real n\<bar> = \<bar>val (Minutes d) - ?v\<bar> / real n" by simp
    moreover have "?v / real n / 2 ^ 51 = ?v / 2 ^ 51 / real n" by simp
    ultimately show ?thesis using divide_right_mono [OF m, of "real n"] by simp
  qed
  moreover have "\<bar>val ?x - val (Minutes d) / real n\<bar> \<le> val (Minutes d) / real n / 2 ^ 53" by (rule div_nat_error [OF assms])
  moreover have "0 \<le> ?v / real n" by simp
  ultimately have "\<bar>val ?x - ?v / real n\<bar> \<le> ?v / real n / 2 ^ 50" by simp
  then have "\<bar>real (tenths ?x) - 10 * (?v / real n)\<bar> \<le> 1 / 2 + 10 * (?v / real n) / 2 ^ 50"
    using tenths_error [of ?x] by linarith
  then have "\<bar>real (tenths ?x) - 10 * (?v / real n)\<bar> * (6000000000 * real n) \<le> (1 / 2 + 10 * (?v / real n) / 2 ^ 50) * (6000000000 * real n)"
    by (rule mult_right_mono) simp
  then show ?thesis using assms by (simp add: abs_mult_pos left_diff_distrib distrib_right)
qed

section \<open>Properties\<close>

text \<open>The unit of the last digit of the text, in nanoseconds, and the text of a number of such units.\<close>

definition last_digit :: "duration \<Rightarrow> nat" where
  "last_digit d =
    (if d < time_Minute * 2 then 1000000000 else if d < 120 * time_Minute then 60000000000
     else if d < 48 * 60 * time_Minute then 360000000000 else 8640000000000)"

definition in_units :: "duration \<Rightarrow> nat \<Rightarrow> string" where
  "in_units d n =
    (if d < time_Minute * 2 then Itoa n @ '' seconds'' else if d < 120 * time_Minute then Itoa n @ '' minutes''
     else if d < 48 * 60 * time_Minute then tenths_text n @ '' hours'' else tenths_text n @ '' days'')"



text \<open>The table of the test of the package (\<open>humantime_test.go\<close>), and a tie that the binary number decides.\<close>

lemma Since_table:
  "Since (42 * time_Second) 0 = ''42 seconds''"
  "Since (60 * 5 * time_Second) 0 = ''5 minutes''"
  "Since (185 * time_Minute) 0 = ''3.1 hours''"
  "Since (49 * 60 * time_Minute) 0 = ''2.0 days''"
  "Since ((24 * 900 + 12) * 60 * time_Minute) 0 = ''900.5 days''"
  "Since (129 * time_Minute) 0 = ''2.1 hours''"
  by (simp_all add: Since_def time_Minute_def time_Second_def Seconds_def Minutes_def add_nat_def div_nat_def fl_def
      scale_up.simps whole_def tenths_def round_even_def Let_def tenths_text_def Itoa.simps byte_def char_of_def bit_0)

end
