(* ===== verification/Frames.thy ===== *)
theory Frames
  imports Host
begin

text \<open>
  What the commands of the chat leave alone: the part of the state that the room does
  not know, the rights of its members, and the users that the command is not about.
\<close>

section \<open>The frame\<close>

text \<open>The same, up to what is known of the users in \<open>A\<close>, the set of the room, its
  queue and the sets, settings and mail of users. Nobody loses the theme.\<close>

definition keeps_theme :: "user \<Rightarrow> user \<Rightarrow> bool" where
  "keeps_theme u v \<longleftrightarrow> (cfg_Theme (config v) = None \<longrightarrow> cfg_Theme (config u) = None)"

definition same_rights :: "uid set \<Rightarrow> 'w world_scheme \<Rightarrow> 'w world_scheme \<Rightarrow> bool" where
  "same_rights A w w' \<longleftrightarrow> world.more w' = world.more w \<and> members w' = members w \<and>
    (\<forall>q. keeps_theme (users w q) (users w' q)) \<and>
    (\<forall>q. q \<notin> A \<longrightarrow> done_closed (users w' q) = done_closed (users w q) \<and> ident_of (users w' q) = ident_of (users w q))"

lemma rights_refl [simp]: "same_rights A w w"
  by (simp add: same_rights_def keeps_theme_def)

lemma rights_user:
  "p \<in> A \<Longrightarrow> keeps_theme (users v p) (f (users v p)) \<Longrightarrow> same_rights A w v \<Longrightarrow> same_rights A w (upd_user p f v)"
  by (auto simp: same_rights_def upd_user_def keeps_theme_def)

lemma keeps_theme_simps [simp]:
  "keeps_theme u (Close u)" "keeps_theme u (SetAway t s u)" "keeps_theme u (u\<lparr>Ignored := i\<rparr>)"
  "keeps_theme u (u\<lparr>Focused := i\<rparr>)" "keeps_theme u (fst (User_SetID r n u))"
  by (simp_all add: keeps_theme_def SetAway_def User_SetID_def setColorIdx_def)

lemma rights_room: "same_rights A w v \<Longrightarrow> same_rights A w (upd_room f v)"
  by (simp add: same_rights_def upd_room_def)

lemma rights_set: "same_rights A w v \<Longrightarrow> same_rights A w (set_Members s v)"
  by (simp add: set_Members_def rights_room)

lemma rights_sent: "Room_Send m v = Some w' \<Longrightarrow> same_rights A w v \<Longrightarrow> same_rights A w w'"
  by (auto simp: Room_Send_def rights_room split: if_splits)

lemma rights_reply: "reply e q s v = Some (err, w') \<Longrightarrow> same_rights A w v \<Longrightarrow> same_rights A w w'"
  by (auto simp: reply_def bind_eq_Some_conv intro: rights_sent)

lemma rights_emote: "emote e q s v = Some (err, w') \<Longrightarrow> same_rights A w v \<Longrightarrow> same_rights A w w'"
  by (auto simp: emote_def bind_eq_Some_conv intro: rights_sent)

lemma rights_fail: "fail s v = Some (err, w') \<Longrightarrow> same_rights A w v \<Longrightarrow> same_rights A w w'"
  by (simp add: fail_def)

lemma rights_updates:
  assumes "p \<in> A" and "same_rights A w v"
  shows "same_rights A w (set_ignored p s v)" "same_rights A w (set_focused p s v)" "same_rights A w (set_name r n p v)"
  using assms by (simp_all add: set_ignored_def set_focused_def set_name_def rights_user)

lemma rights_config:
  assumes "p \<in> A" and "same_rights A w v"
  shows "cfg_Theme cfg = cfg_Theme (config_of v p) \<Longrightarrow> same_rights A w (set_config p cfg v)"
    and "cfg_Theme cfg \<noteq> None \<Longrightarrow> same_rights A w (set_config p cfg v)"
  using assms by (auto simp: set_config_def config_of_def keeps_theme_def SetConfig_def intro: rights_user)

lemmas rights_then_reply = rights_updates [OF _ rights_refl, THEN rights_reply [rotated]]
lemma rights_config_reply:
  assumes "reply e q s (set_config p cfg w) = Some (err, w')" and "p \<in> A"
  shows "cfg_Theme cfg \<noteq> None \<Longrightarrow> same_rights A w w'"
    and "cfg_Theme cfg = cfg_Theme (config_of w p) \<Longrightarrow> same_rights A w w'"
  using rights_reply [OF assms(1)] rights_config [OF assms(2) rights_refl, of cfg w] by blast+
lemma rights_then_emote:
  "emote e q s (upd_user p f w) = Some (err, w') \<Longrightarrow> p \<in> A \<Longrightarrow> keeps_theme (users w p) (f (users w p)) \<Longrightarrow> same_rights A w w'"
  by (rule rights_emote) (auto intro: rights_user)

lemma rights_Rename:
  assumes "Rename now old k v = Some (err, w')" and "same_rights A w v"
  shows "same_rights A w w'"
  using assms by (auto simp: Rename_def Let_def bind_eq_Some_conv split: if_splits prod.splits option.splits
      intro: rights_sent rights_set)

text \<open>A member acts under its own name.\<close>

definition is_member :: "'w world_scheme \<Rightarrow> uid \<Rightarrow> bool" where
  "is_member w p \<longleftrightarrow> (case member_at w (uID w p) of Some k \<Rightarrow> m_user (members w k) = p | None \<Rightarrow> False)"

definition is_operator :: "'w world_scheme \<Rightarrow> uid \<Rightarrow> bool" where
  "is_operator w p \<longleftrightarrow>
    (case member_at w (uID w p) of Some k \<Rightarrow> m_user (members w k) = p \<and> is_op (members w k) | None \<Rightarrow> False)"

lemma Room_IsOp_eq: "room_inv low w \<Longrightarrow> Room_IsOp now p w = Some (is_operator w p, w)"
  by (simp add: IsOp_eq is_operator_def split: option.split)

section \<open>The commands of the chat\<close>

lemma rights_nick:
  assumes "room_inv low w" and "p \<in> A" and "\<And>k. member_at w (uID w p) = Some k \<Longrightarrow> m_user (members w k) \<in> A"
    and "cmd_nick e p body args w = Some (err, w')"
  shows "same_rights A w w'"
proof (cases "\<exists>name k. args = [name] \<and> member_at w (uID w p) = Some k")
  case True
  then obtain name k where k: "args = [name]" "member_at w (uID w p) = Some k" by blast
  let ?q = "m_user (members w k)"
  have q: "?q \<in> A" by (rule assms(3) [OF k(2)])
  let ?v = "set_name (rand1 e) (Name name) ?q w"
  have "same_rights A w v'" if "Rename (clock e) (uID w ?q) k ?v = Some (r, v')" for r v'
    by (rule rights_Rename [OF that rights_updates(3) [OF q rights_refl]])
  then show ?thesis
    using assms(4) rights_updates(3) [OF q]
    by (auto simp: cmd_nick_def k MemberByID_eq [OF assms(1)] Let_def bind_eq_Some_conv fail_def
        split: if_splits option.splits)
next
  case False
  then show ?thesis
    using assms(4)
    by (auto simp: cmd_nick_def MemberByID_eq [OF assms(1)] Let_def fail_def split: list.splits option.splits)
qed

lemma rights_chat_call:
  assumes "room_inv low w" and "p \<in> A" and "\<And>k. member_at w (uID w p) = Some k \<Longrightarrow> m_user (members w k) \<in> A"
    and "h = H_mute \<Longrightarrow> \<not> is_operator w p" and "chat_call h e p body args w = Some (err, w')"
  shows "same_rights A w w'"
proof -
  note eqs = MemberByID_eq [OF assms(1)] Room_IsOp_eq [OF assms(1)]
  show ?thesis
  proof (cases h)
    case H_nick
    then show ?thesis using assms rights_nick [OF assms(1-3)] by simp
  next
    case H_names
    then show ?thesis
      using assms(5) by (auto simp: cmd_names_def Let_def bind_eq_Some_conv split: prod.splits intro: rights_reply rights_set [OF rights_refl])
  next
    case H_mute
    then show ?thesis using assms(4,5) by (simp add: cmd_mute_def eqs fail_def)
  next
    case H_help
    then show ?thesis using assms(5) by (auto simp: cmd_help_def eqs intro: rights_reply)
  next
    case H_me
    then show ?thesis using assms(5) by (auto simp: cmd_me_def Let_def intro: rights_emote)
  next
    case H_exit
    then show ?thesis using assms(2,5) by (auto simp: cmd_exit_def intro: rights_user)
  next
    case H_theme
    then show ?thesis
      using assms(2,5) by (auto simp: cmd_theme_def Let_def fail_def split: list.splits option.splits
          intro: rights_reply rights_config_reply)
  next
    case H_quiet
    then show ?thesis using assms(2,5) by (auto simp: cmd_quiet_def Let_def intro: rights_reply rights_config_reply)
  next
    case H_slap
    then show ?thesis using assms(5) by (auto simp: cmd_slap_def intro: rights_emote)
  next
    case H_shrug
    then show ?thesis using assms(5) by (auto simp: cmd_shrug_def intro: rights_emote)
  next
    case H_timestamp
    then show ?thesis
      using assms(2,5) by (auto simp: cmd_timestamp_def Let_def fail_def split: list.splits sum.splits option.splits
          intro: rights_reply rights_config_reply)
  next
    case H_ignore
    then show ?thesis
      using assms(2,5) by (auto simp: cmd_ignore_def Let_def eqs fail_def split: prod.splits option.splits if_splits
          intro: rights_reply rights_then_reply rights_updates)
  next
    case H_unignore
    then show ?thesis
      using assms(2,5) by (auto simp: cmd_unignore_def Let_def fail_def split: prod.splits option.splits if_splits
          intro: rights_reply rights_then_reply rights_updates)
  next
    case H_focus
    then show ?thesis
      using assms(2,5) by (auto simp: cmd_focus_def Let_def fail_def split: prod.splits option.splits if_splits
          intro: rights_reply rights_then_reply rights_updates)
  next
    case H_away
    then show ?thesis
      using assms(2,5) by (auto simp: cmd_away_def Let_def fail_def split: if_splits intro: rights_emote rights_then_emote rights_user)
  next
    case H_back
    then show ?thesis
      using assms(2,5) by (auto simp: cmd_back_def fail_def split: if_splits intro: rights_emote rights_then_emote rights_user)
  qed
qed

lemma more_mute:
  assumes "room_inv low w" and "cmd_mute e p body args w = Some (err, w')"
  shows "world.more w' = world.more w \<and> users w' = users w"
  using assms(2)
  by (auto simp: cmd_mute_def Room_IsOp_eq [OF assms(1)] MemberByID_eq [OF assms(1)] Let_def fail_def reply_def
      Room_Send_def upd_room_def SetMute_def upd_member_def bind_eq_Some_conv split: if_splits list.splits option.splits)

lemma more_chat_call:
  assumes "room_inv low w" and "chat_call h e p body args w = Some (err, w')"
  shows "world.more w' = world.more w \<and> (\<forall>q. keeps_theme (users w q) (users w' q))"
proof (cases "h = H_mute")
  case True
  then show ?thesis using more_mute [OF assms(1)] assms(2) by (simp add: keeps_theme_def)
next
  case False
  then show ?thesis
    using rights_chat_call [OF assms(1), of p UNIV h e body args err w'] assms(2) by (simp add: same_rights_def)
qed

end
