(* ===== verification/HostSafe.thy ===== *)
theory HostSafe
  imports Frames
begin

text \<open>
  What holds of the host: every command returns with the invariants of the room and
  of the authentication database kept, and users who are not operators can change
  neither the database nor the rights of anybody.
\<close>

section \<open>The invariant\<close>

definition host_extra :: "(rune \<Rightarrow> rune) \<Rightarrow> host \<Rightarrow> bool" where
  "host_extra low w \<longleftrightarrow> auth_inv low (auth_db w) \<and> builtin (Some (h_theme w)) \<and>
    (\<forall>p. cfg_Theme (config (users w p)) \<noteq> None)"

definition host_inv :: "(rune \<Rightarrow> rune) \<Rightarrow> host \<Rightarrow> bool" where
  "host_inv low w \<longleftrightarrow> chat_inv low w \<and> host_extra low w"

text \<open>What a command needs of its environment: a map is visited in some order, random
  numbers are not negative, \<open>csv\<close> returns no empty record, and it and \<open>ParseDuration\<close>
  do not panic.\<close>

definition henv_good :: "henv \<Rightarrow> bool" where
  "henv_good e \<longleftrightarrow> env_good (base e) \<and> (\<forall>q. csv_Read (hlib e) q \<noteq> Inr []) \<and>
    (\<forall>q s. csv_Read (hlib e) q \<noteq> Inl (GoPanic s)) \<and> (\<forall>d s. ParseDuration (hlib e) d \<noteq> Inl (GoPanic s))"

definition fine :: "(rune \<Rightarrow> rune) \<Rightarrow> (go_error option \<times> host) option \<Rightarrow> bool" where
  "fine low r \<longleftrightarrow> (case r of None \<Rightarrow> False | Some (err, w) \<Rightarrow> host_inv low w)"

lemma fine_Some [simp]: "fine low (Some (err, w)) = host_inv low w"
  by (simp add: fine_def)

lemma fine_fail [simp]: "host_inv low w \<Longrightarrow> fine low (fail s w)"
  by (simp add: fail_def)

lemma host_chat: "host_inv low w \<Longrightarrow> chat_inv low w"
  by (simp add: host_inv_def)

lemma host_room: "host_inv low w \<Longrightarrow> room_inv low w"
  by (simp add: host_inv_def chat_room)

text \<open>The host's own fields say nothing about the chat, and the chat does not touch them.\<close>

lemma host_fields [simp]:
  "users (upd_auth f w) = users w" "members (upd_auth f w) = members w" "the_room (upd_auth f w) = the_room w"
  "next_mid (upd_auth f w) = next_mid w" "spawned (upd_auth f w) = spawned w" "auth_db (upd_auth f w) = f (auth_db w)"
  "uID (upd_auth f w) = uID w" "uName (upd_auth f w) = uName w" "entry_of (upd_auth f w) = entry_of w"
  "h_theme (upd_auth f w) = h_theme w"
  by (simp_all add: upd_auth_def uID_def uName_def entry_of_def fun_eq_iff)

lemma chat_inv_fields:
  assumes "users v = users w" and "members v = members w" and "the_room v = the_room w" and "next_mid v = next_mid w"
    and "spawned v = spawned w"
  shows "chat_inv low v = chat_inv low w"
proof -
  have "entry_of v = entry_of w" using assms by (simp add: entry_of_def uID_def fun_eq_iff)
  then show ?thesis using assms by (simp add: chat_inv_def room_inv_def)
qed

lemma host_inv_upd_auth: "host_inv low w \<Longrightarrow> auth_inv low (f (auth_db w)) \<Longrightarrow> host_inv low (upd_auth f w)"
  using chat_inv_fields [of "upd_auth f w" w low] by (simp add: host_inv_def host_extra_def)

lemma host_extra_more:
  assumes "world.more w' = world.more w" and "\<And>p. keeps_theme (users w p) (users w' p)" and "host_extra low w"
  shows "host_extra low w'"
proof -
  have "\<forall>p. cfg_Theme (config (users w' p)) \<noteq> None"
    using assms(2,3) unfolding host_extra_def keeps_theme_def by blast
  then show ?thesis using assms(1,3) by (cases w, cases w') (simp add: host_extra_def)
qed

lemma host_inv_more:
  "chat_inv low w' \<Longrightarrow> world.more w' = world.more w \<Longrightarrow> (\<And>p. keeps_theme (users w p) (users w' p)) \<Longrightarrow> host_inv low w \<Longrightarrow>
    host_inv low w'"
  using host_extra_more [of w' w low] by (simp add: host_inv_def)

lemma keeps_theme_config: "config v = config u \<Longrightarrow> keeps_theme u v"
  by (simp add: keeps_theme_def)

lemma host_sent:
  assumes "host_inv low w" and "no_nil m"
  shows "\<exists>w'. Room_Send m w = Some w' \<and> host_inv low w' \<and> users w' = users w \<and> members w' = members w"
proof -
  obtain w' where w': "Room_Send m w = Some w'" "chat_inv low w'"
    using chat_sent [OF host_chat [OF assms(1)] assms(2)] by blast
  then have "world.more w' = world.more w" "users w' = users w" "members w' = members w"
    by (auto simp: Room_Send_def upd_room_def split: if_splits)
  with w' assms(1) show ?thesis by (auto intro!: host_inv_more [OF w'(2)] keeps_theme_config)
qed

lemma fine_tell: "host_inv low w \<Longrightarrow> fine low (ok (tell e q s w))"
  using host_sent [of low w "SystemMsg s (now_of e) (Some q)"]
  by (auto simp: ok_def tell_def NewSystemMsg_def no_nil_def)

lemma fine_announce: "host_inv low w \<Longrightarrow> fine low (ok (announce e s w))"
  using host_sent [of low w "AnnounceMsg s (now_of e)"]
  by (auto simp: ok_def announce_def NewAnnounceMsg_def no_nil_def)

lemma host_Close:
  assumes "host_inv low w"
  shows "host_inv low (upd_user p Close w)"
proof (rule host_inv_more [OF _ _ _ assms])
  show "chat_inv low (upd_user p Close w)"
    using okay_exit [OF host_chat [OF assms], of undefined p] by (simp add: cmd_exit_def)
qed (simp_all add: keeps_theme_config)

lemma fine_announce_close:
  assumes "host_inv low w"
  shows "fine low (do { w \<leftarrow> announce e s w; Some (None, upd_user p Close w) })"
  using host_sent [OF assms, of "AnnounceMsg s (now_of e)"]
  by (auto simp: announce_def NewAnnounceMsg_def no_nil_def host_Close)

lemma GetUser_eq: "room_inv low w \<Longrightarrow> GetUser now i w = Some (map_option (\<lambda>k. m_user (members w k)) (member_at w i), w)"
  by (simp add: GetUser_def MemberByID_eq)

lemma as_identity_eq: "host_inv low w \<Longrightarrow> as_identity w p = Some (conn_of w p)"
  using chat_user [OF host_chat, of low w p]
  by (auto simp: as_identity_def user_wf_def split: Identifier.splits)

lemma op_only_eq:
  "room_inv low w \<Longrightarrow> op_only e p f w = (if is_operator w p then f w else fail ''must be op'' w)"
  by (simp add: op_only_def Room_IsOp_eq)

lemma fine_op_only: "host_inv low w \<Longrightarrow> (\<And>w. host_inv low w \<Longrightarrow> fine low (f w)) \<Longrightarrow> fine low (op_only e p f w)"
  by (simp add: op_only_eq [OF host_room])

lemmas host_simps = host_room [THEN GetUser_eq] host_room [THEN MemberByID_eq] host_room [THEN IsOp_eq] as_identity_eq

section \<open>The commands of the host\<close>

lemma fine_sendPM:
  assumes "host_inv low w"
  shows "fine low (sendPM e body p q w)"
proof -
  obtain w1 where w1: "Room_Send (PrivateMsg_ptr body (now_of e) (Some p) (Some q)) w = Some w1" "host_inv low w1"
    using host_sent [OF assms, of "PrivateMsg_ptr body (now_of e) (Some p) (Some q)"] by (auto simp: no_nil_def)
  have "fine low (do { w \<leftarrow> tell e p s w1; Some (None, upd_user q (SetReplyTo (Some p)) w) })" for s
  proof -
    obtain w2 where w2: "tell e p s w1 = Some w2" "host_inv low w2"
      using host_sent [OF w1(2), of "SystemMsg s (now_of e) (Some p)"] by (auto simp: tell_def NewSystemMsg_def no_nil_def)
    have "chat_inv low (upd_user q (SetReplyTo (Some p)) w2)"
      by (rule chat_upd_user [OF host_chat [OF w2(2)]])
         (use chat_user [OF host_chat [OF w2(2)], of q] in \<open>simp_all add: user_wf_def SetReplyTo_def\<close>)
    then have "host_inv low (upd_user q (SetReplyTo (Some p)) w2)"
      by (rule host_inv_more [OF _ _ _ w2(2)]) (simp_all add: keeps_theme_config SetReplyTo_def)
    then show ?thesis using w2 by simp
  qed
  then show ?thesis using w1 by (simp add: sendPM_def Let_def)
qed

lemma fine_msg: "host_inv low w \<Longrightarrow> fine low (host_msg e p body args w)"
  by (auto simp: host_msg_def host_simps fine_sendPM split: list.split option.split)

lemma fine_reply: "host_inv low w \<Longrightarrow> fine low (host_reply e p body args w)"
  by (auto simp: host_reply_def host_simps fine_sendPM split: option.split)

lemma Whois_eq: "host_inv low w \<Longrightarrow> \<exists>s. Whois e q c w = Some (s, w)"
  by (simp add: Whois_def host_simps)

lemma WhoisAdmin_eq: "host_inv low w \<Longrightarrow> \<exists>s. WhoisAdmin e q c w = Some (s, w)"
  by (auto simp: WhoisAdmin_def host_simps Let_def split: option.split)

lemma fine_whois:
  assumes "host_inv low w"
  shows "fine low (host_whois e p body args w)"
proof -
  have both: "\<exists>s. (if b then WhoisAdmin e q c w else Whois e q c w) = Some (s, w)" for b q c
    using Whois_eq [OF assms] WhoisAdmin_eq [OF assms] by simp
  have "fine low (do { (s, w) \<leftarrow> (if b then WhoisAdmin e q c w else Whois e q c w); ok (tell e p s w) })" for b q c
  proof -
    obtain s where "(if b then WhoisAdmin e q c w else Whois e q c w) = Some (s, w)" using both [of b q c] by blast
    then show ?thesis using fine_tell [OF assms] by simp
  qed
  then show ?thesis
    using assms by (auto simp: host_whois_def host_simps split: list.split option.split)
qed

lemma fine_version: "host_inv low w \<Longrightarrow> fine low (host_version e p body args w)"
  by (simp add: host_version_def fine_tell)

lemma fine_uptime: "host_inv low w \<Longrightarrow> fine low (host_uptime e p body args w)"
  by (simp add: host_uptime_def fine_tell)

lemma fine_kick: "host_inv low w \<Longrightarrow> fine low (host_kick e p body args w)"
  unfolding host_kick_def
  by (rule fine_op_only) (auto simp: host_simps fine_announce_close split: list.split option.split)


lemma BanQuery_no_panic:
  assumes "henv_good e"
  shows "panicking (fst (BanQuery (hlib e) now q a)) = False"
proof -
  have f: "panicking (fst (ban_fields lib now q d fs a)) = False" for lib d fs a
    by (induction lib now q d fs a rule: ban_fields.induct)
       (auto simp: Let_def panicking_def split: list.splits)
  have lib: "csv_Read (hlib e) q \<noteq> Inr []" "\<And>s. csv_Read (hlib e) q \<noteq> Inl (GoPanic s)"
    "\<And>d s. ParseDuration (hlib e) d \<noteq> Inl (GoPanic s)"
    using assms by (auto simp: henv_good_def)
  have g: "panicking (Some err) \<longleftrightarrow> (\<exists>s. err = GoPanic s)" for err
    by (cases err) (auto simp: panicking_def)
  have n: "panicking None = False" by (simp add: panicking_def)
  show ?thesis
    using lib by (auto simp: BanQuery_def f g n split: sum.split)
qed

lemma fine_ban:
  assumes "host_inv low w" and "henv_good e"
  shows "fine low (host_ban e p body args w)"
  unfolding host_ban_def
proof (rule fine_op_only [OF assms(1)])
  fix w assume w: "host_inv low w"
  have au: "auth_inv low (auth_db w)" using w by (simp add: host_inv_def host_extra_def)
  have query: "fine low (case BanQuery (hlib e) (now_of e) s (auth_db w) of
      (err, a) \<Rightarrow> if panicking err then None else Some (err, upd_auth (\<lambda>_. a) w))" for s
    using BanQuery_no_panic [OF assms(2), of "now_of e" s "auth_db w"]
      auth_inv_BanQuery [OF au, of "hlib e" "now_of e" s] w
    by (cases "BanQuery (hlib e) (now_of e) s (auth_db w)") (simp add: host_inv_upd_auth)
  have "host_inv low (upd_auth (BanAddr (now_of e) (Some a) d) (upd_auth (Ban (hlib e) (now_of e) k d) w))" for a d k
    using w au by (intro host_inv_upd_auth) (simp_all add: auth_inv_Ban)
  then show "fine low (case args of [] \<Rightarrow> fail ''must specify user'' w
     | query # _ \<Rightarrow> do {
         (found, w) \<leftarrow> GetUser (now_of e) query w;
         (case found of
            None \<Rightarrow>
              let query = GoStrings.Join args '' '' in
              if ContainsByte query (CHR ''='') then
                (case BanQuery (hlib e) (now_of e) query (auth_db w) of
                   (err, a) \<Rightarrow> if panicking err then None else Some (err, upd_auth (\<lambda>_. a) w))
              else fail ''user not found'' w
          | Some target \<Rightarrow> do {
              let until = duration_arg e args;
              c \<leftarrow> as_identity w target;
              let w = upd_auth (Ban (hlib e) (now_of e) (c_key c) until) w;
              let w = upd_auth (BanAddr (now_of e) (Some (c_addr c)) until) w;
              w \<leftarrow> announce e (uName w target @ '' was banned by '' @ uName w p @ ''.'') w;
              Some (None, upd_user target Close w)
            })
       })"
    using w query by (auto simp: host_simps Let_def fine_announce_close split: list.split option.split)
qed

lemma fine_banned: "host_inv low w \<Longrightarrow> fine low (host_banned e p body args w)"
  unfolding host_banned_def
proof (rule fine_op_only, assumption)
  fix w assume w: "host_inv low w"
  have "auth_inv low (snd (Banned (order (base e)) (now_of e) (auth_db w)))"
    using w auth_step_inv [OF auth_step.list_banned] by (auto simp: host_inv_def host_extra_def)
  then have "host_inv low (upd_auth (\<lambda>_. snd (Banned (order (base e)) (now_of e) (auth_db w))) w)"
    using w by (simp add: host_inv_upd_auth)
  then show "fine low (case Banned (order (base e)) (now_of e) (auth_db w) of
       ((ips, fingerprints, clients), a) \<Rightarrow>
         ok (tell e p (''Banned:'' @ quoted_lines ''ip'' ips @ quoted_lines ''fingerprint'' fingerprints @
           quoted_lines ''client'' clients) (upd_auth (\<lambda>_. a) w)))"
    by (auto simp: fine_tell split: prod.split)
qed

lemma host_SetMotd: "host_inv low w \<Longrightarrow> host_inv low (SetMotd s w)"
  using chat_inv_fields [of "SetMotd s w" w low] by (simp add: host_inv_def host_extra_def SetMotd_def)

lemma fine_motd: "host_inv low w \<Longrightarrow> fine low (host_motd e p body args w)"
  by (auto simp: host_motd_def host_simps fine_tell fine_announce host_SetMotd Let_def split: option.split sum.split)

lemma chat_upd_member:
  assumes "chat_inv low w" and "m_user (f (members w k)) = m_user (members w k)"
  shows "chat_inv low (upd_member k f w)"
proof -
  let ?w = "upd_member k f w"
  have same: "users ?w = users w" "the_room ?w = the_room w" "next_mid ?w = next_mid w" "spawned ?w = spawned w"
    by (simp_all add: upd_member_def)
  have "entry_of ?w = entry_of w"
    using assms(2) by (simp add: entry_of_def uID_def same fun_eq_iff) (simp add: upd_member_def)
  then show ?thesis using assms(1) by (simp add: chat_inv_def room_inv_def same)
qed

lemma host_upd_member:
  assumes "host_inv low w" and "m_user (f (members w k)) = m_user (members w k)"
  shows "host_inv low (upd_member k f w)"
proof (rule host_inv_more [OF _ _ _ assms(1)])
  show "chat_inv low (upd_member k f w)" using assms by (intro chat_upd_member host_chat)
qed (simp_all add: upd_member_def keeps_theme_config)

lemma fine_op: "host_inv low w \<Longrightarrow> fine low (host_op e p body args w)"
  unfolding host_op_def
proof (rule fine_op_only, assumption)
  fix w assume w: "host_inv low w"
  have up: "host_inv low (upd_member k (\<lambda>m. m\<lparr>is_op := b\<rparr>) w)" for k b
    by (rule host_upd_member [OF w]) simp
  have db: "host_inv low (upd_auth (Op (hlib e) (now_of e) key d) (upd_member k (\<lambda>m. m\<lparr>is_op := b\<rparr>) w))" for k b key d
    using up [of k b] auth_inv_Op by (intro host_inv_upd_auth) (auto simp: host_inv_def host_extra_def)
  show "fine low (case args of [] \<Rightarrow> fail ''must specify user'' w
     | name # rest \<Rightarrow> do {
         let remove = (case rest of r # _ \<Rightarrow> r = ''remove'' | [] \<Rightarrow> False);
         let until = (if remove then 1 else duration_arg e args);
         (found, w) \<leftarrow> MemberByID (now_of e) name w;
         (case found of
            None \<Rightarrow> fail ''user not found'' w
          | Some k \<Rightarrow> do {
              let w = upd_member k (\<lambda>m. m\<lparr>is_op := \<not> remove\<rparr>) w;
              c \<leftarrow> as_identity w (m_user (members w k));
              let w = upd_auth (Op (hlib e) (now_of e) (c_key c) until) w;
              ok (tell e (m_user (members w k))
                ((if \<not> remove then ''Made op by '' else ''Removed op by '') @ uName w p @ ''.'') w)
            })
       })"
    using w by (auto simp: host_simps Let_def as_identity_eq [OF up] fine_tell [OF db] split: list.split option.split)
qed

lemma fine_chat:
  assumes "host_inv low w" and "env_good (base e)"
  shows "fine low (chat_call h (base e) p body args w)"
proof -
  obtain err w' where w': "chat_call h (base e) p body args w = Some (err, w')" "chat_inv low w'"
    using okay_call [OF host_chat [OF assms(1)], of "base e" h p body args] assms(2)
    by (auto simp: env_good_def okay_def split: option.splits)
  then show ?thesis
    using more_chat_call [OF host_room [OF assms(1)] w'(1)] assms(1) by (simp add: host_inv_more)
qed

section \<open>Renaming another user\<close>

lemma host_set_symbol:
  assumes "host_inv low w"
  shows "host_inv low (set_symbol s p w)" and "uID (set_symbol s p w) = uID w"
    and "members (set_symbol s p w) = members w"
proof -
  let ?w = "set_symbol s p w"
  have u: "ID (ident_of (users ?w q)) = ID (ident_of (users w q))" for q
    by (cases "ident_of (users w q)") (auto simp: set_symbol_def)
  then show "uID ?w = uID w" by (simp add: uID_def fun_eq_iff)
  then have "entry_of ?w = entry_of w" by (simp add: entry_of_def set_symbol_def fun_eq_iff)
  moreover have "user_wf low (users ?w q)" for q
    using chat_user [OF host_chat [OF assms], of q] by (auto simp: set_symbol_def user_wf_def split: Identifier.splits)
  ultimately have "chat_inv low ?w"
    using host_chat [OF assms] by (simp add: chat_inv_def room_inv_def) (simp add: set_symbol_def)
  then show "host_inv low ?w"
    by (rule host_inv_more [OF _ _ _ assms]) (simp_all add: set_symbol_def keeps_theme_config)
  show "members ?w = members w" by (simp add: set_symbol_def)
qed

text \<open>The end of \<open>/rename\<close>: like \<open>/nick\<close>, it is refused, with another colour of the user, or it
  is done.\<close>

lemma rename_member:
  assumes "host_inv low w" and "member_at w (uID w q) = Some k" and "m_user (members w k) = q"
    and "0 \<le> r1" and "0 \<le> r2"
  shows "(\<exists>err. Rename now (uID w q) k (set_name r1 new q w) = Some (Some err, set_name r1 new q w) \<and>
      host_inv low (set_name r2 (uID w q) q (set_name r1 new q w))) \<or>
    (\<exists>w'. Rename now (uID w q) k (set_name r1 new q w) = Some (None, w') \<and> host_inv low w')"
proof -
  have inv: "room_inv low w" and ch: "chat_inv low w" using assms(1) by (simp_all add: host_room host_chat)
  have q: "has_name w q" by (rule user_wf_name [OF chat_user [OF ch]])
  have "host_inv low (set_name r2 (uID w q) q (set_name r1 new q w))"
    using set_name_back [OF q] chat_recolour [OF ch assms(5), of q]
      host_inv_more [OF _ _ _ assms(1), of "upd_user q (setColorIdx r2) w"]
    by (simp add: keeps_theme_config setColorIdx_def)
  note undo = this
  show ?thesis
  proof (cases "new = [] \<or> normalize low new \<noteq> normalize low (uID w q) \<and> member_at w new \<noteq> None")
    case True
    then show ?thesis
      using undo Rename_empty [OF q assms(3), of now "uID w q" r1] Rename_taken [OF inv q assms(3), of new "uID w q" now r1]
      by auto
  next
    case False
    then obtain w' where w': "Rename now (uID w q) k (set_name r1 new q w) =
          Some (None, announced now (uID w q @ '' is now known as '' @ new @ ''.'') w')"
        "room_inv low w'" "users w' = users (set_name r1 new q w)" "members w' = members w"
        "broadcast (the_room w') = broadcast (the_room w)" "closed (the_room w') = closed (the_room w)" "spawned w' = spawned w"
      using Rename_free [OF inv q assms(2,3), of new now r1] ch by (auto simp: chat_inv_def)
    let ?v = "announced now (uID w q @ '' is now known as '' @ new @ ''.'') w'"
    have "chat_inv low ?v"
      using w' ch room_inv_announced [OF w'(2)] chat_set_name [OF ch assms(4)] by (simp add: chat_inv_def no_nil_def)
    moreover have "same_rights UNIV w ?v"
      by (rule rights_Rename [OF w'(1) rights_updates(3) [OF UNIV_I rights_refl]])
    ultimately have "host_inv low ?v" using assms(1) by (auto simp: same_rights_def intro: host_inv_more)
    then show ?thesis using w'(1) by blast
  qed
qed

lemma host_tell:
  assumes "host_inv low w"
  obtains v where "tell e q s w = Some v" "host_inv low v" "users v = users w" "members v = members w"
    "member_at v = member_at w"
proof -
  have "\<exists>v. tell e q s w = Some v \<and> host_inv low v \<and> users v = users w \<and> members v = members w \<and> member_at v = member_at w"
    using host_sent [OF assms, of "SystemMsg s (now_of e) (Some q)"]
    by (auto simp: tell_def NewSystemMsg_def no_nil_def Room_Send_def upd_room_def member_at_def fun_eq_iff split: if_splits)
  then show ?thesis using that by blast
qed


lemma fine_rename_end:
  assumes "host_inv low w" and "member_at w (uID w q) = Some k" and "m_user (members w k) = q" and "env_good (base e)"
  shows "fine low (do {
    (err, v) \<leftarrow> Rename (now_of e) (uID w q) k (set_name (rand1 (base e)) new q w);
    (case err of
       Some err \<Rightarrow> Some (Some err, set_name (rand2 (base e)) (uID w q) q v)
     | None \<Rightarrow> ok (announce e (txt v) v))
  })"
proof -
  have "0 \<le> rand1 (base e)" "0 \<le> rand2 (base e)" using assms(4) by (simp_all add: env_good_def)
  from rename_member [OF assms(1-3) this, of "now_of e" new] show ?thesis
    by (elim disjE exE conjE) (simp_all add: fine_announce)
qed

lemma fine_rename:
  assumes "host_inv low w" and "env_good (base e)"
  shows "fine low (host_rename e p body args w)"
  unfolding host_rename_def
proof (rule fine_op_only [OF assms(1)])
  fix w assume w: "host_inv low w"
  note simps = host_simps [OF w] Let_def
  have tail: "fine low (if newID = uID v q \<and> \<not> b then fail s v
      else if (newID = [] \<or> newID = uID v q) \<and> b then Some (None, v)
      else do {
        (err, u) \<leftarrow> Rename (now_of e) (uID v q) k (set_name (rand1 (base e)) newID q v);
        (case err of
           Some err \<Rightarrow> Some (Some err, set_name (rand2 (base e)) (uID v q) q u)
         | None \<Rightarrow> ok (announce e (uID v q @ '' was renamed by '' @ uName u p @ ''.'') u))
      })" if "host_inv low v" "member_at v (uID v q) = Some k" "m_user (members v k) = q" for v q k b newID s
    using that fine_rename_end [OF that assms(2), where new = newID] by simp
  show "fine low (case args of
       user_arg # name_arg # rest \<Rightarrow> do {
         (found, w) \<leftarrow> MemberByID (now_of e) user_arg w;
         (case found of
            None \<Rightarrow> fail ''user not found'' w
          | Some k \<Rightarrow>
              let q = m_user (members w k);
                  symbolSet = (length args = 3) in
              if symbolSet \<and> as_identity w q = None then fail ''user does not support setting symbol'' w
              else do {
                w \<leftarrow> (if symbolSet
                  then tell e q (''Assigned symbol '' @ Quote (hlib e) (rest ! 0) @ '' by '' @ uName (set_symbol (rest ! 0) q w) p @ ''.'')
                    (set_symbol (rest ! 0) q w)
                  else Some w);
                let oldID = uID w q;
                let newID = Name name_arg;
                (if newID = oldID \<and> \<not> symbolSet then fail ''new name is the same as the original'' w
                 else if (newID = [] \<or> newID = oldID) \<and> symbolSet then Some (None, w)
                 else do {
                   let w = set_name (rand1 (base e)) newID q w;
                   (err, w) \<leftarrow> Rename (now_of e) oldID k w;
                   (case err of
                      Some err \<Rightarrow> Some (Some err, set_name (rand2 (base e)) oldID q w)
                    | None \<Rightarrow> ok (announce e (oldID @ '' was renamed by '' @ uName w p @ ''.'') w))
                 })
              })
       }
     | _ \<Rightarrow> fail ''must specify user and new name'' w)"
  proof (cases "\<exists>user_arg name_arg rest k. args = user_arg # name_arg # rest \<and> member_at w user_arg = Some k")
    case True
    then obtain user_arg name_arg rest k where k: "args = user_arg # name_arg # rest" "member_at w user_arg = Some k" by blast
    let ?q = "m_user (members w k)" and ?new = "Name name_arg"
    have own: "member_at w (uID w ?q) = Some k" by (rule member_own_name [OF host_room [OF w] k(2)])
    show ?thesis
    proof (cases "length args = 3")
      case True
      let ?v = "set_symbol (rest ! 0) ?q w"
      have v: "host_inv low ?v" "uID ?v = uID w" "members ?v = members w" by (simp_all add: host_set_symbol [OF w])
      have mem: "member_at ?v = member_at w" by (simp add: member_at_def set_symbol_def fun_eq_iff)
      obtain u where u: "tell e ?q (''Assigned symbol '' @ Quote (hlib e) (rest ! 0) @ '' by '' @ uName ?v p @ ''.'') ?v = Some u"
          "host_inv low u" "users u = users ?v" "members u = members ?v" "member_at u = member_at ?v"
        by (rule host_tell [OF v(1)])
      have "uID u = uID w" using u(3) v(2) by (simp add: uID_def fun_eq_iff)
      then have "member_at u (uID u ?q) = Some k" "m_user (members u k) = ?q" using own u v mem by simp_all
      note rest = tail [OF u(2) this, of ?new True]
      show ?thesis using rest True u(1) by (auto simp: k simps v(1) split: if_splits)
    next
      case False
      then show ?thesis using tail [OF w own refl, of ?new False "''new name is the same as the original''"] by (auto simp: k simps split: if_splits)
    qed
  next
    case False
    then show ?thesis using w by (auto simp: simps split: list.splits option.splits)
  qed
qed

section \<open>The allowlist command\<close>

lemma host_auth: "host_inv low w \<Longrightarrow> auth_inv low (auth_db w)"
  by (simp add: host_inv_def host_extra_def)

text \<open>The loop over the connected users keeps what every turn keeps, and does not panic.\<close>

lemma users_loop:
  assumes "host_inv low w" and "P st w" and "\<And>s v. P s v \<Longrightarrow> host_inv low v \<and> the_room v = the_room w"
    and "\<And>k c s v. P s v \<Longrightarrow> P (fst (snd (cmd k c s v))) (snd (snd (cmd k c s v)))"
  shows "\<exists>err s v. forConnectedUsers e cmd st w = Some (err, s, v) \<and> P s v"
proof -
  let ?turn = "\<lambda>key it r. case r of
           None \<Rightarrow> (None, None)
         | Some (s, w) \<Rightarrow>
             if Value (now_of e) it = None then (None, Some (s, w))
             else (case as_member (Value (now_of e) it) of
                None \<Rightarrow> (None, None)
              | Some k \<Rightarrow>
                  (case as_identity w (m_user (members w k)) of
                     None \<Rightarrow> (None, None)
                   | Some c \<Rightarrow> (case cmd k (c_key c) s w of (err, s, w) \<Rightarrow> (err, Some (s, w)))))"
  let ?each = "Each (order (base e)) (now_of e) ?turn (Members (the_room w)) (Some (st, w))"
  note room = host_room [OF assms(1)]
  have "\<exists>s v. fst (snd ?each) = Some (s, v) \<and> P s v"
  proof (rule Each_inv [where P = "\<lambda>r. \<exists>s v. r = Some (s, v) \<and> P s v"])
    fix key it r
    assume it: "map_of (lookup (Members (the_room w))) key = Some it" and "\<exists>s v. r = Some (s, v) \<and> P s v"
    then obtain k s v where k: "it = entry_of w k" "r = Some (s, v)" "P s v" using room_inv_entry [OF room it] by blast
    then show "\<exists>s v. snd (?turn key it r) = Some (s, v) \<and> P s v"
      using assms(3) [OF k(3)] assms(4) [OF k(3), of k "c_key (conn_of v (m_user (members v k)))"]
      by (auto simp: as_identity_eq split: prod.split)
  qed (use assms(2) in simp)
  then obtain s v where v: "fst (snd ?each) = Some (s, v)" "P s v" by blast
  moreover have "snd (snd ?each) = Members (the_room w)"
    using Each_state [of "order (base e)" "now_of e" ?turn "Members (the_room w)" "Some (st, w)"] room by auto
  moreover have "set_Members (Members (the_room w)) v = v"
    using assms(3) [OF v(2)] set_Members_same [of v] by simp
  ultimately show ?thesis
    unfolding forConnectedUsers_def by (cases ?each) auto
qed

definition keeps :: "(rune \<Rightarrow> rune) \<Rightarrow> ('r \<times> host) option \<Rightarrow> bool" where
  "keeps low r \<longleftrightarrow> (case r of None \<Rightarrow> False | Some (x, w) \<Rightarrow> host_inv low w)"

lemma keeps_Some [simp]: "keeps low (Some (x, w)) = host_inv low w"
  by (simp add: keeps_def)

lemma keepsE:
  assumes "keeps low r"
  obtains x w where "r = Some (x, w)" "host_inv low w"
  using assms by (auto simp: keeps_def split: option.splits)

lemma host_Allowlist: "host_inv low w \<Longrightarrow> host_inv low (upd_auth (Allowlist lib now k d) w)"
  by (intro host_inv_upd_auth) (auto intro!: auth_step_inv [OF auth_step.allow] host_auth)

lemma keeps_import:
  assumes w: "host_inv low w"
  shows "keeps low (allowlistImport e args w)"
proof -
  let ?P = "\<lambda>s v. host_inv low v \<and> the_room v = the_room w"
  have "\<exists>err s v. forConnectedUsers e (import_user e cutoff) [] w = Some (err, s, v) \<and> ?P s v" for cutoff
    by (rule users_loop [OF w]) (use w in \<open>auto simp: import_user_def host_Allowlist split: option.splits\<close>)
  note loop = this
  have "keeps low (do {
         (err, noKeyUsers, w) \<leftarrow> forConnectedUsers e (import_user e cutoff) [] w;
         Some ((line_if noKeyUsers ''users without a public key: '', None), w) })" for cutoff
    using loop [of cutoff] by auto
  then show ?thesis using w by (auto simp: allowlistImport_def split: sum.split list.split)
qed

lemma host_reload: "host_inv low w \<Longrightarrow> host_inv low (snd (allowlistReload e args w))"
proof -
  assume w: "host_inv low w"
  let ?f = "\<lambda>b. if b then upd_auth (\<lambda>a. a\<lparr>allowlist := snd (Clear (allowlist a))\<rparr>) w else w"
  have flush: "host_inv low (?f b)" for b
    using w auth_step_inv [OF auth_step.flush host_auth [OF w]] by (simp add: host_inv_upd_auth)
  have "host_inv low (upd_auth (\<lambda>x. snd (ReloadAllowlist (hlib e) (now_of e) (auth_db v))) v)" if "host_inv low v" for v
    using that auth_step_inv [OF auth_step.reload_allow host_auth [OF that]] by (simp add: host_inv_upd_auth)
  from this [OF flush] have reload: "host_inv low (snd (case ReloadAllowlist (hlib e) (now_of e) (auth_db (?f b)) of
      (err, a) \<Rightarrow> (err, upd_auth (\<lambda>_. a) (?f b))))" for b
    by (simp add: case_prod_unfold)
  show ?thesis
    unfolding allowlistReload_def Let_def using w reload by (simp split: list.split)
qed

lemma keeps_reverify:
  assumes w: "host_inv low w"
  shows "keeps low (allowlistReverify e w)"
proof -
  let ?P = "\<lambda>s v. host_inv low v \<and> the_room v = the_room w"
  have turn: "?P (fst (snd (reverify_user e k c s v))) (snd (snd (reverify_user e k c s v)))" if "?P s v" for k c s v
  proof -
    have "host_inv low (upd_auth (\<lambda>x. snd (CheckPublicKey (hlib e) (now_of e) c (auth_db v))) v)"
      using that auth_step_inv [OF auth_step.check_key host_auth] by (auto intro!: host_inv_upd_auth)
    then show ?thesis
      using that host_Close by (auto simp: reverify_user_def Let_def split: prod.split)
  qed
  have "\<exists>err s v. forConnectedUsers e (reverify_user e) [] w = Some (err, s, v) \<and> ?P s v"
    by (rule users_loop [OF w, where P = ?P]) (use w turn in blast)+
  then obtain err s v where v: "forConnectedUsers e (reverify_user e) [] w = Some (err, s, v)" "host_inv low v" by blast
  have "keeps low (do { w \<leftarrow> announce e t v; Some ([] :: string list, w) })" for t
    using host_sent [OF v(2), of "AnnounceMsg t (now_of e)"] by (auto simp: announce_def NewAnnounceMsg_def no_nil_def)
  then show ?thesis using w v by (simp add: allowlistReverify_def)
qed


lemma no_empty_key_cleanups:
  "no_empty_key s \<Longrightarrow> no_empty_key (foldl (\<lambda>s k. cleanup now k s) s ks)"
  by (induction ks arbitrary: s) (auto simp: no_empty_key_def cleanup_def delete_conv split: option.split)

lemma auth_inv_cleanups:
  "auth_inv low a \<Longrightarrow> auth_inv low (a\<lparr>allowlist := foldl (\<lambda>s k. cleanup now k s) (allowlist a) ks\<rparr>)"
  by (simp add: auth_inv_def list_ok_def no_empty_key_cleanups set_inv_cleanups)

lemma keeps_status:
  assumes w: "host_inv low w"
  shows "keeps low (allowlistStatus e w)"
proof -
  have user: "\<exists>err us'. forConnectedUsers e (status_user e fp) us w = Some (err, us', w)" for fp us
    using users_loop [OF w, of "\<lambda>s v. v = w" us "status_user e fp" e] w
    by (auto simp: status_user_def split: option.split)
  have key: "\<exists>us' keys'. status_key e fp (Some (us, keys, w)) = Some (us', keys', w)" for fp us keys
    using user [of fp us] by (auto simp: status_key_def)
  let ?each = "Each (order (base e)) (now_of e) (\<lambda>key it st. (None, status_key e (Key it) st)) (allowlist (auth_db w)) (Some ([], [], w))"
  have "\<exists>us keys. fst (snd ?each) = Some (us, keys, w)"
    by (rule Each_inv [where P = "\<lambda>st. \<exists>us keys. st = Some (us, keys, w)"]) (use key in auto)
  then obtain us keys where st: "fst (snd ?each) = Some (us, keys, w)" by blast
  have "\<exists>ks. snd (snd ?each) = foldl (\<lambda>s k. cleanup (now_of e) k s) (allowlist (auth_db w)) ks" by (rule Each_state)
  then obtain ks where ks: "snd (snd ?each) = foldl (\<lambda>s k. cleanup (now_of e) k s) (allowlist (auth_db w)) ks" by blast
  have "auth_inv low ((auth_db w)\<lparr>allowlist := foldl (\<lambda>s k. cleanup (now_of e) k s) (allowlist (auth_db w)) ks\<rparr>)"
    using host_auth [OF w] by (simp add: auth_inv_cleanups)
  then have "host_inv low (upd_auth (\<lambda>a. a\<lparr>allowlist := snd (snd ?each)\<rparr>) w)"
    unfolding ks by (intro host_inv_upd_auth [OF w])
  then show ?thesis using st by (cases ?each) (simp add: allowlistStatus_def)
qed

lemma keeps_pubkey_loop:
  assumes "host_inv low w" and "\<And>pk v. host_inv low v \<Longrightarrow> host_inv low (cmd pk v)"
  shows "keeps low (pubkey_loop e cmd vs kt acc w)"
  using assms(1)
proof (induction vs arbitrary: kt acc w)
  case (Cons v vs)
  obtain us ks ns where "acc = (us, ks, ns)" by (cases acc)
  then show ?case
    using Cons assms(2) by (auto simp: host_simps split: sum.split option.split)
qed simp

lemma keeps_pubkeys: "host_inv low w \<Longrightarrow> keeps low (forPubkeyUser e (\<lambda>pk. upd_auth (Allowlist (hlib e) (now_of e) (Some pk) d)) args w)"
  using keeps_pubkey_loop [of low w "\<lambda>pk. upd_auth (Allowlist (hlib e) (now_of e) (Some pk) d)" e args "[]" "([], [], [])"]
  by (auto simp: forPubkeyUser_def host_Allowlist elim!: keepsE)

lemma keeps_map: "keeps low r \<Longrightarrow> keeps low (map_option (\<lambda>(x, w). (f x, w)) r)"
  by (auto elim!: keepsE)

lemma keeps_if: "keeps low x \<Longrightarrow> keeps low y \<Longrightarrow> keeps low (if b then x else y)"
  by simp

lemma keeps_sub:
  assumes "host_inv low w"
  shows "keeps low (allowlist_sub e sub args w)"
proof -
  obtain err v where r: "allowlistReload e args w = (err, v)" by fastforce
  have "host_inv low (upd_auth (SetAllowlistMode b) w)" for b
    using assms auth_step_inv [OF auth_step.mode host_auth [OF assms]] by (simp add: host_inv_upd_auth)
  then show ?thesis
    unfolding allowlist_sub_def
    using assms keeps_pubkeys [OF assms] keeps_import [OF assms] keeps_reverify [OF assms] keeps_status [OF assms]
      host_reload [OF assms, of e args]
    by (intro keeps_if keeps_map) (simp_all add: r)
qed

lemma fine_allowlist: "host_inv low w \<Longrightarrow> fine low (host_allowlist e p body args w)"
  unfolding host_allowlist_def
proof (rule fine_op_only, assumption)
  fix w assume w: "host_inv low w"
  let ?args = "if args = [] then [''help''] else args"
  obtain r v where "allowlist_sub e (hd ?args) (tl ?args) w = Some (r, v)" "host_inv low v"
    by (rule keepsE [OF keeps_sub [OF w]])
  moreover obtain ls err where "r = (ls, err)" by fastforce
  ultimately have v: "allowlist_sub e (hd ?args) (tl ?args) w = Some ((ls, err), v)" "host_inv low v" by simp_all
  then show "fine low (do {
     let args = ?args;
     ((replyLines, err), w) \<leftarrow> allowlist_sub e (hd args) (tl args) w;
     (if err = None \<and> replyLines \<noteq> [] then ok (tell e p (GoStrings.Join replyLines Newline) w)
      else Some (err, w))
   })"
    unfolding Let_def v(1) by (simp add: fine_tell)
qed

section \<open>Every command\<close>

lemma fine_call:
  assumes "host_inv low w" and "henv_good e"
  shows "fine low (host_call h e p body args w)"
proof -
  have "env_good (base e)" using assms(2) by (simp add: henv_good_def)
  then show ?thesis
    using assms by (cases h) (simp_all add: fine_chat fine_msg fine_reply fine_whois fine_version fine_uptime fine_kick
        fine_ban fine_banned fine_motd fine_op fine_rename fine_allowlist)
qed

lemma Host_Run_fine:
  assumes "henv_good e" and "host_inv low w"
  shows "\<exists>err w'. Commands_Run (\<lambda>h. host_call h e) c m w = Some (err, w') \<and> host_inv low w'"
proof (cases "\<exists>p cmd. From m = Some (Some p) \<and> map_of c (Command m) = Some cmd")
  case True
  then obtain p cmd where m: "From m = Some (Some p)" "map_of c (Command m) = Some cmd" by blast
  have "fine low (host_call (Handler cmd) e p (Body m) (Args m) w)" by (rule fine_call [OF assms(2,1)])
  then show ?thesis by (simp add: Commands_Run_def m fine_def split: option.splits prod.splits)
next
  case False
  then show ?thesis using assms(2) by (auto simp: Commands_Run_def split: option.split)
qed

text \<open>The registry of the host, as what the room's handling of messages asks for.\<close>

interpretation host_runner: runner "\<lambda>e. Commands_Run (\<lambda>h. host_call h e) c" henv_good "\<lambda>e. order (base e)" low "host_extra low"
  for c low
proof unfold_locales
  show "\<exists>err w'. Commands_Run (\<lambda>h. host_call h e) c m w = Some (err, w') \<and> chat_inv low w' \<and> host_extra low w'"
    if "henv_good e" "chat_inv low w" "host_extra low w" for e m w
    using Host_Run_fine [OF that(1), of low w c m] that by (simp add: host_inv_def)
qed (auto simp: henv_good_def env_good_def intro: host_extra_more keeps_theme_config)

end
