(* ===== verification/Govern.thy ===== *)
theory Govern
  imports HostSafe
begin

text \<open>
  What users who are not operators can do to others: whatever such a member sends,
  the authentication database, the message of the day and the theme of the host, the
  rights of every member and the names of the other users stay as they are, and no
  command disconnects anybody else.
\<close>

section \<open>Commands of a member without rights\<close>

lemma rights_other:
  assumes "same_rights A w v" and "keeps_theme (users v q) (f (users v q))"
    and "done_closed (f (users v q)) = done_closed (users v q)" and "ident_of (f (users v q)) = ident_of (users v q)"
  shows "same_rights A w (upd_user q f v)"
  using assms by (auto simp: same_rights_def upd_user_def keeps_theme_def)

lemma rights_tell: "ok (tell e q s v) = Some (err, w') \<Longrightarrow> same_rights A w v \<Longrightarrow> same_rights A w w'"
  by (auto simp: ok_def tell_def intro: rights_sent)

lemma rights_sendPM:
  assumes "sendPM e body p q w = Some (err, w')"
  shows "same_rights A w w'"
proof -
  obtain v v' s where v: "Room_Send (PrivateMsg_ptr body (now_of e) (Some p) (Some q)) w = Some v"
      "tell e p s v = Some v'" "w' = upd_user q (SetReplyTo (Some p)) v'"
    using assms by (auto simp: sendPM_def Let_def bind_eq_Some_conv case_prod_unfold)
  have "same_rights A w v'" using v(2) rights_sent [OF v(1) rights_refl] unfolding tell_def by (rule rights_sent)
  then show ?thesis
    unfolding v(3) by (rule rights_other) (simp_all add: SetReplyTo_def keeps_theme_config)
qed

lemma rights_whois:
  assumes "host_inv low w" and "host_whois e p body args w = Some (err, w')"
  shows "same_rights A w w'"
proof -
  have same: "v = w" if "(if b then WhoisAdmin e q c w else Whois e q c w) = Some (s, v)" for b q c s v
    using that Whois_eq [OF assms(1), of e q c] WhoisAdmin_eq [OF assms(1), of e q c] by (auto split: if_splits)
  have "(\<exists>s. ok (tell e p s w) = Some (err, w')) \<or> w' = w"
    using assms(2)
    by (auto simp: host_whois_def host_simps [OF assms(1)] fail_def bind_eq_Some_conv
        split: list.splits option.splits if_splits dest: same [where b = True, simplified] same [where b = False, simplified])
  then show ?thesis by (auto intro: rights_tell)
qed

lemma rights_host_call:
  assumes w: "host_inv low w" and p: "is_member w p" and op: "\<not> is_operator w p"
    and r: "host_call h e p body args w = Some (err, w')"
  shows "same_rights {p} w w'"
proof -
  have IsOp: "Room_IsOp now p w = Some (False, w)" for now
    using op by (simp add: Room_IsOp_eq [OF host_room [OF w]])
  have refused: "op_only e p f w = Some (err, w') \<Longrightarrow> same_rights {p} w w'" for f
    using op by (simp add: op_only_eq [OF host_room [OF w]] fail_def)
  show ?thesis
  proof (cases h)
    case (Chat c)
    have "m_user (members w k) \<in> {p}" if "member_at w (uID w p) = Some k" for k
      using p that by (simp add: is_member_def)
    then show ?thesis using rights_chat_call [OF host_room [OF w], of p "{p}" c] op r by (simp add: Chat)
  next
    case H_msg
    then show ?thesis
      using r by (auto simp: host_msg_def host_simps [OF w] fail_def intro: rights_sendPM split: list.splits option.splits)
  next
    case H_reply
    then show ?thesis
      using r by (auto simp: host_reply_def host_simps [OF w] fail_def intro: rights_sendPM split: option.splits if_splits)
  next
    case H_whois
    then show ?thesis using r rights_whois [OF w] by simp
  next
    case H_version
    then show ?thesis using r by (auto simp: host_version_def intro: rights_tell)
  next
    case H_uptime
    then show ?thesis using r by (auto simp: host_uptime_def intro: rights_tell)
  next
    case H_motd
    then show ?thesis using r by (auto simp: host_motd_def IsOp fail_def intro: rights_tell split: if_splits)
  qed (use r in \<open>auto simp: host_kick_def host_ban_def host_banned_def host_op_def host_rename_def host_allowlist_def
      intro: refused\<close>)
qed

lemma rights_host_run:
  assumes "host_inv low w" and "is_member w p" and "\<not> is_operator w p" and "From m = Some (Some p)"
    and "Commands_Run (\<lambda>h. host_call h e) c m w = Some (err, w')"
  shows "same_rights {p} w w'"
  using assms(4,5) rights_host_call [OF assms(1-3)]
  by (auto simp: Commands_Run_def split: option.splits)


section \<open>Messages of a member without rights\<close>

text \<open>What handling such a message leaves alone, whether the room hands it to its members or
  runs it as a command. Handing a message to a user may close it, when its buffer is full.\<close>

definition same_govern :: "uid \<Rightarrow> host \<Rightarrow> host \<Rightarrow> bool" where
  "same_govern p w w' \<longleftrightarrow> world.more w' = world.more w \<and> members w' = members w \<and>
    (\<forall>q. q \<noteq> p \<longrightarrow> ident_of (users w' q) = ident_of (users w q))"

lemma govern_rights: "same_rights {p} w w' \<Longrightarrow> same_govern p w w'"
  by (auto simp: same_rights_def same_govern_def)

lemma fold_ident [simp]:
  assumes "\<And>p u. ident_of (f p u) = ident_of u"
  shows "ident_of (users (fold (\<lambda>p. upd_user p (f p)) ps w) q) = ident_of (users w q)"
  using assms by (induction ps arbitrary: w) simp_all

lemma members_logged [simp]: "members (logged lg m w) = members w"
  by (simp add: logged_def upd_room_def)

lemma govern_HandleMsg:
  assumes inv: "host_inv low w" and e: "henv_good e" and p: "is_member w p" "\<not> is_operator w p"
    and m: "From m = Some (Some p)" "no_nil m" and r: "Host_HandleMsg e i m w = Some w'"
  shows "same_govern p w w'"
proof (cases "admitted w m")
  case (Some n)
  note room = host_room [OF inv]
  have r: "deliver (Commands_Run (\<lambda>h. host_call h e) host_commands) (err_string i) (log_line i) (order (base e))
      (select i) (now_of e) n m w = Some w'"
    using r by (simp add: Host_HandleMsg_def HandleMsg_admitted [OF room Some])
  from m(2) show ?thesis
  proof (cases rule: no_nil_cases)
    case 1
    have "permuting (order (base e))" using e by (simp add: henv_good_def env_good_def)
    from deliver_to_all [OF room this 1, where run = "Commands_Run (\<lambda>h. host_call h e) host_commands"
        and err_text = "err_string i" and line = "log_line i" and pick = "select i" and now = "now_of e" and i = n]
    obtain ps where
      "w' = fold (\<lambda>p. upd_user p (offered (now_of e) (select i p) n m)) ps (logged (log_line i) m w)"
      using r by auto
    then show ?thesis by (simp add: same_govern_def fold_rest)
  next
    case (2 q)
    then show ?thesis using r by (auto simp: deliver_to_one same_govern_def)
  next
    case (3 b t q c args)
    then obtain err v where v: "Commands_Run (\<lambda>h. host_call h e) host_commands m w = Some (err, v)"
      "w' = (case err of None \<Rightarrow> v | Some x \<Rightarrow> v\<lparr>spawned := spawned v @ [NewSystemMsg (now_of e) (''Err: '' @ err_string i x) (Some q)]\<rparr>)"
      using r by (auto simp: deliver_def bind_eq_Some_conv split: option.splits)
    then show ?thesis
      using govern_rights [OF rights_host_run [OF inv p m(1) v(1)]] by (auto simp: same_govern_def split: option.split)
  qed
next
  case None
  have "uID w p \<noteq> []"
    using None m(1) by (auto simp: admitted_def)
  then show ?thesis
    using r guard_eq [OF host_room [OF inv] m(1) _ None]
    by (auto simp: Host_HandleMsg_def same_govern_def split: option.splits Message.splits)
qed

end
