(* ===== verification/HostRun.thy ===== *)
theory HostRun
  imports Govern
begin

text \<open>
  The host in operation: connections that start, send lines and end, the turns of
  \<open>Serve\<close>, the goroutines that handle a message each, users that read, complete names and
  are asked for their keys by the SSH server. The invariant \<open>host_inv\<close> holds in every
  reachable state, and no step can panic.
\<close>

section \<open>Frames of joining and leaving\<close>

text \<open>The room's operations do not touch what the host adds, nor the settings of users.\<close>

definition same_host :: "host \<Rightarrow> host \<Rightarrow> bool" where
  "same_host w w' \<longleftrightarrow> world.more w' = world.more w \<and> (\<forall>q. config (users w' q) = config (users w q))"

lemma same_host_refl [simp]: "same_host w w"
  by (simp add: same_host_def)

lemma same_host_trans: "same_host u v \<Longrightarrow> same_host v w \<Longrightarrow> same_host u w"
  by (simp add: same_host_def)

lemma same_host_inv: "chat_inv low w' \<Longrightarrow> same_host w w' \<Longrightarrow> host_inv low w \<Longrightarrow> host_inv low w'"
  by (auto simp: same_host_def intro!: host_inv_more [of low w' w] keeps_theme_config)

lemma same_host_simps [simp]:
  "same_host w (upd_room f w)" "same_host w (alloc p w)" "same_host w (announced now s w)" "same_host w (seated low p w)"
  "same_host w (vacated low i w)"
  by (simp_all add: same_host_def upd_room_def alloc_def announced_def seated_def vacated_def set_Members_def)

lemma same_host_user: "(\<And>u. config (f u) = config u) \<Longrightarrow> same_host w (upd_user p f w)"
  by (simp add: same_host_def)

lemma Sends_config [simp]:
  "config (fold (\<lambda>m u. snd (Send b m u)) ms u) = config u"
  "ident_of (fold (\<lambda>m u. snd (Send b m u)) ms u) = ident_of u"
  by (induction ms arbitrary: u) simp_all

lemma alloc_outsider:
  assumes "room_inv low w" and "p \<notin> room_users w"
  shows "p \<notin> room_users (alloc q w)"
proof
  assume "p \<in> room_users (alloc q w)"
  then obtain key k where k: "map_of (lookup (Members (the_room w))) key = Some (entry_of (alloc q w) k)"
      "p = m_user (members (alloc q w) k)"
    by (auto simp: room_users_def)
  then obtain j where j: "j < next_mid w" "entry_of (alloc q w) k = entry_of w j"
    using room_inv_entry [OF assms(1)] by blast
  then have "k = j" by (simp add: entry_of_def)
  then have "p \<in> room_users w" using k j by (auto simp: room_users_def alloc_def)
  with assms(2) show False by simp
qed

lemma Join_host:
  assumes "host_inv low w"
  shows "\<exists>r w'. Room.Join pick now p w = Some (r, w') \<and> host_inv low w' \<and> uID w' = uID w \<and>
    (p \<notin> room_users w \<longrightarrow> (\<forall>err. r = Inl err \<longrightarrow> p \<notin> room_users w'))"
proof -
  note room = host_room [OF assms]
  obtain r w' where r: "Room.Join pick now p w = Some (r, w')" "chat_inv low w'"
    using Join_safe [OF host_chat [OF assms]] by blast
  show ?thesis
  proof (cases "uID w p = []")
    case True
    then show ?thesis using assms by (auto simp: Room.Join_def)
  next
    case named: False
    show ?thesis
    proof (cases "member_at w (uID w p)")
      case None
      let ?u = "upd_user p (fold (\<lambda>m u. snd (Send (pick p) m u)) (rev (history_recent (r_history (the_room w))))) (seated low p w)"
      have w': "r = Inr (next_mid w)" "\<exists>s. w' = announced now s ?u"
        using Join_fresh [OF room named None, of pick now] r(1) host_chat [OF assms] by (auto simp: chat_inv_def)
      have "same_host w ?u"
        by (rule same_host_trans [OF same_host_simps(4)], rule same_host_user) simp
      then have "same_host w w'" using w'(2) same_host_trans same_host_simps(3) by blast
      moreover have "uID w' = uID w"
        using w'(2) by (auto simp: uID_def announced_def upd_room_def seated_def alloc_def set_Members_def upd_user_def
            fun_eq_iff)
      ultimately show ?thesis using r w'(1) same_host_inv [OF r(2) _ assms] by auto
    next
      case (Some k)
      have w': "r = Inl ErrCollision" "w' = alloc p w" using Join_collision [OF room named Some] r(1) by simp_all
      show ?thesis using r w' same_host_inv [OF r(2) _ assms] alloc_outsider [OF room] by auto
    qed
  qed
qed


section \<open>A connection\<close>

lemma outsider_stays:
  assumes "room_inv low w" and "p \<notin> room_users w" and "members w' = members w" and "the_room w' = the_room w"
  shows "p \<notin> room_users w'"
proof
  assume "p \<in> room_users w'"
  then obtain key k where k: "map_of (lookup (Members (the_room w))) key = Some (entry_of w' k)" "p = m_user (members w k)"
    using assms(3,4) by (auto simp: room_users_def)
  then obtain j where j: "entry_of w' k = entry_of w j" using room_inv_entry [OF assms(1)] by blast
  then have "k = j" by (simp add: entry_of_def)
  then show False using k j assms(2) by (auto simp: room_users_def)
qed


lemma host_upd_user:
  assumes "host_inv low w" and "user_wf low (f (users w p))" and "ident_of (f (users w p)) = ident_of (users w p)"
    and "keeps_theme (users w p) (f (users w p))"
  shows "host_inv low (upd_user p f w)"
  by (rule host_inv_more [OF chat_upd_user [where f = f, OF host_chat [OF assms(1)] assms(2,3)] _ _ assms(1)])
     (use assms(4) in \<open>auto simp: keeps_theme_def\<close>)

lemma host_user: "host_inv low w \<Longrightarrow> user_wf low (users w p)"
  by (simp add: chat_user host_chat)

lemma host_send: "host_inv low w \<Longrightarrow> host_inv low (send_user pick p m w)"
  unfolding send_user_def
  by (rule host_upd_user) (simp_all add: user_wf_Send host_user keeps_theme_config)

text \<open>A user who is not in the room may become any well formed user.\<close>

lemma host_outsider:
  assumes w: "host_inv low w" and p: "p \<notin> room_users w" and u: "user_wf low u" "cfg_Theme (config u) \<noteq> None"
  shows "host_inv low (w\<lparr>users := (users w)(p := u), conn_of := cs\<rparr>)"
proof -
  let ?w = "w\<lparr>users := (users w)(p := u), conn_of := cs\<rparr>"
  note room = host_room [OF w]
  have "\<exists>k<next_mid ?w. it = entry_of ?w k"
    if "map_of (lookup (Members (the_room ?w))) key = Some it" for key it
  proof -
    have "map_of (lookup (Members (the_room w))) key = Some it" using that by simp
    from room_inv_entry [OF room this] obtain k where k: "k < next_mid w" "it = entry_of w k" by blast
    then have "m_user (members w k) \<noteq> p" using that p by (auto simp: room_users_def)
    then have "entry_of ?w k = entry_of w k" by (simp add: entry_of_def uID_def)
    then show ?thesis using k by auto
  qed
  then have "room_inv low ?w" using room by (simp add: room_inv_def)
  then have "chat_inv low ?w" using host_chat [OF w] u(1) by (simp add: chat_inv_def)
  then show ?thesis using w u(2) by (simp add: host_inv_def host_extra_def)
qed

lemma host_fields_inv: "host_inv low w \<Longrightarrow> host_inv low (w\<lparr>h_count := n\<rparr>)" "host_inv low w \<Longrightarrow> host_inv low (SetMotd s w)"
  "host_inv low w \<Longrightarrow> t \<in> set Themes \<Longrightarrow> host_inv low (SetTheme t w)"
proof -
  show "host_inv low w \<Longrightarrow> host_inv low (w\<lparr>h_count := n\<rparr>)"
    using chat_inv_fields [of "w\<lparr>h_count := n\<rparr>" w low] by (simp add: host_inv_def host_extra_def)
  show "host_inv low w \<Longrightarrow> host_inv low (SetMotd s w)" by (rule host_SetMotd)
  show "host_inv low w \<Longrightarrow> t \<in> set Themes \<Longrightarrow> host_inv low (SetTheme t w)"
    using chat_inv_fields [of "SetTheme t w" w low] by (simp add: host_inv_def host_extra_def SetTheme_def builtin_def)
qed

lemma connect_user_wf:
  assumes "0 \<le> rnd" and "t \<in> set Themes"
  shows "user_wf low (connect_user low rnd now c api t)" and "cfg_Theme (config (connect_user low rnd now c api t)) \<noteq> None"
proof -
  have "MonoTheme \<in> set Themes" by (simp add: Themes_def)
  then show "user_wf low (connect_user low rnd now c api t)" and "cfg_Theme (config (connect_user low rnd now c api t)) \<noteq> None"
    using assms by (simp_all add: connect_user_def Let_def NewUserScreen_def NewUser_def SetConfig_def NewIdentity_def
        user_wf_def builtin_def set_inv_New)
qed

lemma host_set_id:
  assumes "host_inv low w" and "p \<notin> room_users w"
  shows "host_inv low (set_id s p w)"
proof -
  let ?u = "(users w p)\<lparr>ident_of := SetID s (ident_of (users w p))\<rparr>"
  have u: "user_wf low ?u" "cfg_Theme (config ?u) \<noteq> None"
    using host_user [OF assms(1), of p] assms(1)
    by (auto simp: user_wf_def host_inv_def host_extra_def split: Identifier.splits)
  have eq: "set_id s p w = w\<lparr>users := (users w)(p := ?u), conn_of := conn_of w\<rparr>" by (simp add: set_id_def upd_user_def)
  show ?thesis unfolding eq by (rule host_outsider [OF assms u])
qed

lemma join_or_guest_safe:
  assumes "host_inv low w" and "p \<notin> room_users w"
  shows "\<exists>r w'. join_or_guest e i n p w = Some (r, w') \<and> host_inv low w'"
proof -
  obtain r v where v: "Room.Join (select i) (now_of e) p w = Some (r, v)" "host_inv low v"
      "\<forall>err. r = Inl err \<longrightarrow> p \<notin> room_users v"
    using Join_host [OF assms(1), of "select i" "now_of e" p] assms(2) by blast
  show ?thesis
  proof (cases r)
    case (Inl err)
    then have "host_inv low (set_id (''Guest'' @ Itoa n) p v)" using host_set_id [OF v(2)] v(3) by blast
    then show ?thesis
      using v(1) Inl Join_host [of low "set_id (''Guest'' @ Itoa n) p v" "select i" "now_of e" p]
      by (auto simp: join_or_guest_def)
  next
    case (Inr k)
    then show ?thesis using v by (simp add: join_or_guest_def)
  qed
qed

lemma Host_HandleMsg_safe:
  assumes "host_inv low w" and "henv_good e" and "no_nil m"
  shows "\<exists>w'. Host_HandleMsg e i m w = Some w' \<and> host_inv low w'"
  using host_runner.HandleMsg_safe [of low w e m host_commands "err_string i" "log_line i" "select i" "now_of e"] assms
  by (auto simp: Host_HandleMsg_def host_inv_def)

lemma ParseCommand_own: "\<exists>r. ParseCommand s now (Some p) = Some r \<and> (\<forall>m. r = Some m \<longrightarrow> From m = Some (Some p) \<and> no_nil m)"
proof (cases "HasPrefix s ''/''")
  case True
  from ParseCommand_slash [OF this, of now "Some p"] show ?thesis by (auto simp: no_nil_def)
next
  case False
  then show ?thesis by (simp add: ParseCommand_def)
qed

lemma ParseInput_own: "\<exists>m. ParseInput now s (Some p) = Some m \<and> From m = Some (Some p) \<and> no_nil m"
  using ParseCommand_own [of s now p]
  by (auto simp: ParseInput_def NewPublicMsg_def no_nil_def split: option.split)

lemma run_envs_safe:
  assumes "host_inv low w" and "henv_good e"
  shows "\<exists>w'. run_envs e i p envs w = Some w' \<and> host_inv low w'"
  using assms(1)
proof (induction envs arbitrary: w)
  case (Cons kv kvs)
  let ?run = "\<lambda>cmd w. do {
       m \<leftarrow> ParseCommand cmd (now_of e) (Some p);
       (case m of Some m \<Rightarrow> Host_HandleMsg e i m w | None \<Rightarrow> Some w) }"
  have run: "\<exists>w'. ?run cmd w = Some w' \<and> host_inv low w'" for cmd
    using ParseCommand_own [of cmd "now_of e" p] Host_HandleMsg_safe [OF Cons.prems assms(2)] Cons.prems
    by (auto split: option.split)
  have "\<exists>w'. run_env e i p kv w = Some w' \<and> host_inv low w'"
    using run Cons.prems unfolding run_env_def Let_def by simp
  then show ?case using Cons.IH by auto
qed simp

lemma Host_isOp_inv: "host_inv low w \<Longrightarrow> host_inv low (snd (Host_isOp e c w))"
  using auth_inv_IsOp [OF host_auth, of low w "hlib e" "now_of e" "c_key c"]
  by (simp add: Host_isOp_def case_prod_unfold host_inv_upd_auth)

lemma Connect_start_safe:
  assumes w: "host_inv low w" and e: "henv_good e" and p: "p \<notin> room_users w"
  shows "\<exists>r w'. Connect_start e i low c term envs p w = Some (r, w') \<and> host_inv low w'"
proof -
  define u where "u = connect_user low (rand1 (base e)) (now_of e) c (ToLower low term = ''bot'') (h_theme w)"
  let ?w1 = "w\<lparr>users := (users w)(p := u), conn_of := (conn_of w)(p := c)\<rparr>"
  let ?w2 = "?w1\<lparr>h_count := h_count w + 1\<rparr>"
  let ?w3 = "if h_motd w \<noteq> [] \<and> ToLower low term \<noteq> ''bot''
    then send_user (select i) p (NewAnnounceMsg (now_of e) (h_motd w)) ?w2 else ?w2"
  have "0 \<le> rand1 (base e)" "h_theme w \<in> set Themes"
    using w e by (auto simp: host_inv_def host_extra_def builtin_def henv_good_def env_good_def)
  from connect_user_wf [OF this] have "user_wf low u" "cfg_Theme (config u) \<noteq> None" by (auto simp: u_def)
  then have "host_inv low ?w1" by (rule host_outsider [OF w p])
  then have "host_inv low ?w2" by (rule host_fields_inv(1))
  then have w3: "host_inv low ?w3" by (simp add: host_send)
  have "p \<notin> room_users ?w3"
    by (rule outsider_stays [OF host_room [OF w] p]) (simp_all add: send_user_def)
  from join_or_guest_safe [OF w3 this] obtain r v where v: "join_or_guest e i (h_count w) p ?w3 = Some (r, v)" "host_inv low v"
    by blast
  let ?rest = "\<lambda>(r, w). (case r of
       Inl err \<Rightarrow> Some (None, upd_user p Close w)
     | Inr k \<Rightarrow> do {
         w \<leftarrow> run_envs e i p envs w;
         let (op, w) = Host_isOp e c w;
         Some (Some k, if op then upd_member k (\<lambda>m. m\<lparr>is_op := True\<rparr>) w else w)
       })"
  have "Connect_start e i low c term envs p w = Option.bind (join_or_guest e i (h_count w) p ?w3) ?rest"
    by (simp add: Connect_start_def u_def Let_def)
  then have eq: "Connect_start e i low c term envs p w = ?rest (r, v)" by (simp add: v(1))
  show ?thesis
  proof (cases r)
    case (Inl err)
    then show ?thesis using host_Close [OF v(2)] by (simp add: eq)
  next
    case (Inr k)
    obtain x where x: "run_envs e i p envs v = Some x" "host_inv low x" using run_envs_safe [OF v(2) e] by blast
    obtain b y where y: "Host_isOp e c x = (b, y)" by fastforce
    have "host_inv low y" using Host_isOp_inv [OF x(2), of e c] y by simp
    then have "host_inv low (if b then upd_member k (\<lambda>m. m\<lparr>is_op := True\<rparr>) y else y)" by (simp add: host_upd_member)
    then show ?thesis using x y Inr by (simp add: eq)
  qed
qed

lemma render_safe:
  assumes "host_inv low w" and "no_nil m"
  shows "render tf now (users w) q m (users w q) \<noteq> None"
proof -
  let ?u = "users w q"
  have col: "\<forall>v. 0 \<le> colorIdx (users w v)" and th: "builtin (cfg_Theme (config ?u))"
    using host_user [OF assms(1)] by (simp_all add: user_wf_def)
  obtain t where t: "cfg_Theme (config ?u) = Some t" using assms(1) by (auto simp: host_inv_def host_extra_def)
  obtain rs where self: "\<And>b v. RenderSelf (users w) (config ?u) b (Some v) = Some (rs b v)"
    using RenderSelf_total [OF th col] that [of "\<lambda>b v. the (RenderSelf (users w) (config ?u) b (Some v))"] by auto
  obtain rf where others: "\<And>b v. RenderFor (users w) (config ?u) b (Some v) = Some (rf b v)"
    using RenderFor_total [OF th col] that [of "\<lambda>b v. the (RenderFor (users w) (config ?u) b (Some v))"] by auto
  obtain s where rest: "Render (users w) (cfg_Theme (config ?u)) m = Some s"
    using Render_total [OF assms(2) th col] by auto
  have "\<exists>r u. shown now (users w) q m ?u = Some (r, u) \<and> config u = config ?u"
  proof (cases m)
    case (PublicMsg b ts f)
    then obtain v where "f = Some v" using assms(2) by (auto simp: no_nil_def)
    then show ?thesis unfolding PublicMsg shown_def Let_def by (simp add: self others split: prod.split)
  next
    case (CommandMsg b ts f c args)
    then obtain v where "f = Some v" using assms(2) by (auto simp: no_nil_def)
    then show ?thesis unfolding CommandMsg shown_def Let_def by (simp add: self)
  qed (use rest in \<open>simp_all add: shown_def Let_def del: Render.simps\<close>)
  then obtain r u where "shown now (users w) q m ?u = Some (r, u)" "config u = config ?u" by blast
  then show ?thesis using t by (simp add: render_def split: option.split)
qed


lemma render_command_user:
  "render tf now who me (CommandMsg b t f c args) u = Some (s, u') \<Longrightarrow> u' = u"
  by (auto simp: render_def shown_def Let_def bind_eq_Some_conv split: option.splits)

lemma Connect_line_safe:
  assumes w: "host_inv low w" and e: "henv_good e"
  shows "\<exists>w'. Connect_line e i tf api limited written p ln w = Some w' \<and> host_inv low w'"
proof -
  obtain m where m: "ParseInput (now_of e) ln (Some p) = Some m" "no_nil m" using ParseInput_own by blast
  let ?echo = "case m of
         CommandMsg b t f c args \<Rightarrow>
           if api then Some w
           else do {
             (_, u) \<leftarrow> render tf (now_of e) (users w) p m (users w p);
             Some (upd_user p (\<lambda>_. if written then u else Close u) w)
           }
       | _ \<Rightarrow> Some w"
  have "\<exists>v. ?echo = Some v \<and> host_inv low v"
  proof (cases m)
    case (CommandMsg b t f c args)
    obtain s u where u: "render tf (now_of e) (users w) p m (users w p) = Some (s, u)"
      using render_safe [OF w m(2), of tf "now_of e" p] by auto
    then have "u = users w p" using render_command_user by (auto simp: CommandMsg)
    moreover have "upd_user p (\<lambda>_. users w p) w = w" "upd_user p (\<lambda>_. Close (users w p)) w = upd_user p Close w"
      by (simp_all add: upd_user_def)
    ultimately show ?thesis using u w host_Close [OF w, of p] by (simp add: CommandMsg)
  qed (use w in simp_all)
  then obtain v where v: "?echo = Some v" "host_inv low v" by blast
  then show ?thesis
    using w host_send [OF w] Host_HandleMsg_safe [OF v(2) e m(2)] by (auto simp: Connect_line_def Let_def m(1))
qed

lemma Connect_end_safe:
  assumes w: "host_inv low w"
  shows "\<exists>r w'. Connect_end e p w = Some (r, w') \<and> host_inv low w'"
proof -
  obtain r v where v: "Leave (since e) (now_of e) p w = Some (r, v)" "chat_inv low v"
    using Leave_safe [OF host_chat [OF w]] by blast
  have "same_host w v"
  proof (cases "member_at w (uID w p)")
    case None
    then show ?thesis using v(1) Leave_missing [OF host_room [OF w]] by simp
  next
    case (Some k)
    then show ?thesis
      using v(1) Leave_present [OF host_room [OF w] Some, of "since e" "now_of e"] host_chat [OF w]
        same_host_trans [OF same_host_simps(5) same_host_simps(3)] by (auto simp: chat_inv_def)
  qed
  then have "host_inv low v" using v(2) w same_host_inv by blast
  then show ?thesis using v(1) by (simp add: Connect_end_def host_Close)
qed

lemma AutoComplete_inv:
  assumes w: "host_inv low w" and e: "permuting (order e)" and r: "AutoComplete srt e c p ln ps key w = Some (r, w')"
  shows "host_inv low w'"
proof -
  obtain s v where s: "completed_command e c p q w = Some (s q, v q)" "host_inv low (v q)" for q
  proof -
    have "\<exists>s v. completed_command e c p q w = Some (s, v) \<and> host_inv low v" for q
    proof -
      obtain s v where v: "completed_command e c p q w = Some (s, v)" "chat_inv low v"
        using completed_command_total [OF host_chat [OF w]] by blast
      then have "same_host w v"
        by (auto simp: completed_command_def Let_def GetUser_def MemberByID_eq [OF host_room [OF w]] SetReplyTo_def
            intro!: same_host_user split: if_splits option.splits)
      then show ?thesis using v w same_host_inv by blast
    qed
    then show thesis using that by metis
  qed
  have n: "completeName srt e q (uName w p) w = Some (fst (the (completeName srt e q (uName w p) w)), w)" for q
    using completeName_total [OF host_room [OF w] e, of srt q "uName w p"] by auto
  have n: "completeName srt e q (uName w p) w = Some (s', v') \<Longrightarrow> v' = w" for q s' v'
    using n [of q] by simp
  show ?thesis
    using r w by (auto simp: AutoComplete_def Let_def s bind_eq_Some_conv split: if_splits dest!: n)
qed

section \<open>Steps\<close>

text \<open>The host and its goroutines. \<open>auth\<close> is any operation on the database by the SSH server
  (\<open>SshdAuth\<close>) or at start-up; \<open>p\<close> is the address of the user that \<open>Connect\<close> makes.\<close>

inductive host_step :: "(rune \<Rightarrow> rune) \<Rightarrow> host \<Rightarrow> host \<Rightarrow> bool" for low where
  connect: "henv_good e \<Longrightarrow> p \<notin> room_users w \<Longrightarrow> Connect_start e i low c term envs p w = Some (r, w') \<Longrightarrow>
    host_step low w w'"
| input: "henv_good e \<Longrightarrow> Connect_line e i tf api limited written p ln w = Some w' \<Longrightarrow> host_step low w w'"
| disconnect: "Connect_end e p w = Some (r, w') \<Longrightarrow> host_step low w w'"
| serve: "Serve_turn w = Some w' \<Longrightarrow> host_step low w w'"
| handle: "spawned w = xs @ m # ys \<Longrightarrow> henv_good e \<Longrightarrow>
    Host_HandleMsg e i m (w\<lparr>spawned := xs @ ys\<rparr>) = Some w' \<Longrightarrow> host_step low w w'"
| consume: "consumes (users w p) u \<Longrightarrow> host_step low w (upd_user p (\<lambda>_. u) w)"
| complete: "permuting (order e) \<Longrightarrow> AutoComplete srt e host_commands p ln ps key w = Some (r, w') \<Longrightarrow> host_step low w w'"
| auth: "auth_step lib (auth_db w) a \<Longrightarrow> host_step low w (upd_auth (\<lambda>_. a) w)"
| motd: "host_step low w (SetMotd s w)"
| theme: "t \<in> set Themes \<Longrightarrow> host_step low w (SetTheme t w)"

lemma consumes_config: "consumes u u' \<Longrightarrow> config u' = config u"
  by (erule consumes.cases) (auto simp: ConsumeOne_def HasMessages_def split: list.splits)

lemma host_step_inv: "host_step low w w' \<Longrightarrow> host_inv low w \<Longrightarrow> host_inv low w'"
proof (induction rule: host_step.induct)
  case (connect e p w i c "term" envs r w')
  then show ?case using Connect_start_safe [OF connect.prems connect.hyps(1,2), of i c "term" envs] by simp
next
  case (input e i tf api limited written p ln w w')
  then show ?case using Connect_line_safe [OF input.prems input.hyps(1), of i tf api limited written p ln] by simp
next
  case (disconnect e p w r w')
  then show ?case using Connect_end_safe [OF disconnect.prems, of e p] by simp
next
  case (serve w w')
  have "same_host w w'" using serve.hyps by (auto simp: Serve_turn_def same_host_def upd_room_def split: list.splits)
  then show ?case using Serve_safe [OF host_chat [OF serve.prems] serve.hyps] serve.prems same_host_inv by blast
next
  case (handle w xs m ys e i w')
  from chat_unspawn [OF host_chat [OF handle.prems] handle.hyps(1)]
  have v: "no_nil m" "chat_inv low (w\<lparr>spawned := xs @ ys\<rparr>)" by blast+
  have "same_host w (w\<lparr>spawned := xs @ ys\<rparr>)" by (simp add: same_host_def)
  then have "host_inv low (w\<lparr>spawned := xs @ ys\<rparr>)" using v(2) handle.prems same_host_inv by blast
  from Host_HandleMsg_safe [OF this handle.hyps(2) v(1), of i] show ?case using handle.hyps(3) by auto
next
  case (consume w p u)
  then show ?case
    using user_wf_consumes [OF consume.hyps host_user [OF consume.prems]] consumes_config [OF consume.hyps]
    by (intro host_upd_user) (simp_all add: keeps_theme_config)
next
  case (complete e srt p ln ps key w r w')
  then show ?case using AutoComplete_inv by blast
next
  case (auth lib w a)
  then show ?case using auth_step_inv [OF auth.hyps host_auth [OF auth.prems]] by (simp add: host_inv_upd_auth)
qed (simp_all add: host_fields_inv)

lemma host_steps_inv: "(host_step low)\<^sup>*\<^sup>* w w' \<Longrightarrow> host_inv low w \<Longrightarrow> host_inv low w'"
  by (induction rule: rtranclp_induct) (auto intro: host_step_inv)

end
