(* ===== verification/HostProps.thy ===== *)
theory HostProps
  imports HostRun SshdAuth
begin

text \<open>
  The properties of the host: it never panics, only operators govern, and what operators
  do takes effect, up to the SSH server that asks the database. \<open>ex_host\<close> is a host with one
  member, on which the witnesses apply them.
\<close>

section \<open>An example\<close>

definition ex_henv :: henv where
  "ex_henv = \<lparr>base = ex_env, hlib = sample_lib [''name=x''], since = (\<lambda>t. ''1s''), ParseKey = (\<lambda>s. Inr s), started = 0\<rparr>"

definition ex_io :: io where
  "ex_io = \<lparr>err_string = (\<lambda>x. []), log_line = (\<lambda>m. []), select = (\<lambda>p. False)\<rparr>"

definition ex_conn :: conn where
  "ex_conn = \<lparr>c_name = ''bob'', c_key = Some ''k'', c_addr = ''a'', c_version = ''c'', c_created = 0\<rparr>"

definition ex_user :: "uid \<Rightarrow> user" where
  "ex_user p = (users ex_world p)\<lparr>config := DefaultUserConfig\<lparr>cfg_Theme := Some MonoTheme\<rparr>\<rparr>"

text \<open>The room of \<open>ex_world\<close>, with the one member \<open>al\<close>, an operator or not.\<close>

definition ex_host :: "bool \<Rightarrow> host" where
  "ex_host b =
    (NewHost id (NewAuth id) ex_user (\<lambda>k. \<lparr>m_user = k, is_op = b, isMuted = False\<rparr>) (\<lambda>p. ex_conn))
      \<lparr>next_mid := 1, the_room := the_room ex_world, h_theme := MonoTheme\<rparr>"

lemma ex_henv_good: "henv_good ex_henv"
  by (simp add: henv_good_def env_good_def ex_henv_def sample_lib_def)

lemma ex_user_wf: "user_wf id (ex_user p)" "cfg_Theme (config (ex_user p)) \<noteq> None"
  using chat_user [OF ex_chat_inv, of p]
  by (simp_all add: ex_user_def user_wf_def builtin_def Themes_def)

lemma ex_host_simps [simp]:
  "users (ex_host b) = ex_user" "members (ex_host b) k = \<lparr>m_user = k, is_op = b, isMuted = False\<rparr>"
  "the_room (ex_host b) = the_room ex_world" "spawned (ex_host b) = []" "next_mid (ex_host b) = 1"
  "uID (ex_host b) = uID ex_world" "uName (ex_host b) = uName ex_world" "auth_db (ex_host b) = NewAuth id"
  "conn_of (ex_host b) p = ex_conn" "member_at (ex_host b) = member_at ex_world"
  by (simp_all add: ex_host_def NewHost_def uID_def uName_def ex_user_def member_at_def fun_eq_iff)

lemma ex_host_inv: "host_inv id (ex_host b)"
proof -
  have "entry_of (ex_host b) = entry_of ex_world" by (simp add: entry_of_def fun_eq_iff)
  then have "chat_inv id (ex_host b)"
    using ex_chat_inv ex_user_wf by (simp add: chat_inv_def room_inv_def)
  moreover have "auth_inv id (NewAuth id)" by (rule auth_inv_New)
  ultimately show ?thesis
    using ex_user_wf by (simp add: host_inv_def host_extra_def builtin_def Themes_def) (simp add: ex_host_def)
qed

lemma ex_rights: "is_member (ex_host b) 0" "is_operator (ex_host b) 0 = b"
  by (simp_all add: is_member_def is_operator_def ex_member_at ex_norm)

section \<open>New hosts, and what every state of a host answers\<close>

lemma NewHost_inv:
  assumes "\<forall>p. user_wf low (us p) \<and> cfg_Theme (config (us p)) \<noteq> None" and "t \<in> set Themes"
  shows "host_inv low (SetTheme t (NewHost low (NewAuth low) us ms cs))"
proof -
  have "history_inv (NewHistory historyLen)" by (rule history_inv_New) (simp add: historyLen_def)
  then have "chat_inv low (NewHost low (NewAuth low) us ms cs)"
    using assms(1) by (simp add: chat_inv_def room_inv_def NewHost_def NewRoom_def NewHistory_def set_inv_New)
      (simp add: New_def)
  then have "chat_inv low (SetTheme t (NewHost low (NewAuth low) us ms cs))"
    using chat_inv_fields [of "SetTheme t (NewHost low (NewAuth low) us ms cs)" "NewHost low (NewAuth low) us ms cs" low]
    by (simp add: SetTheme_def)
  then show ?thesis
    using assms auth_inv_New [of low] by (simp add: host_inv_def host_extra_def SetTheme_def NewHost_def builtin_def)
qed

lemma host_returns:
  assumes inv: "host_inv low w" and "henv_good e" and "spawned w = xs @ m # ys" and "p \<notin> room_users w"
  shows "Host_HandleMsg e i m (w\<lparr>spawned := xs @ ys\<rparr>) \<noteq> None \<and> render tf now (users w) q m (users w q) \<noteq> None \<and>
    Connect_start e i low c term envs p w \<noteq> None \<and> Connect_line e i tf api limited written q ln w \<noteq> None \<and>
    Connect_end e q w \<noteq> None"
proof -
  from chat_unspawn [OF host_chat [OF inv] assms(3)]
  have v: "no_nil m" "chat_inv low (w\<lparr>spawned := xs @ ys\<rparr>)" by blast+
  have "same_host w (w\<lparr>spawned := xs @ ys\<rparr>)" by (simp add: same_host_def)
  then have "host_inv low (w\<lparr>spawned := xs @ ys\<rparr>)" using v(2) inv same_host_inv by blast
  from Host_HandleMsg_safe [OF this assms(2) v(1), of i] show ?thesis
    using render_safe [OF inv v(1), of tf now q] Connect_start_safe [OF inv assms(2,4), of i c "term" envs]
      Connect_line_safe [OF inv assms(2), of i tf api limited written q ln] Connect_end_safe [OF inv, of e q] by auto
qed

section \<open>Properties\<close>

text \<open>C2: only operators govern. Whatever a member who is not an operator sends, be it a message or
  any command with any arguments: the authentication database, the message of the day, the theme
  and the connections of the host, the operator and mute flags of every member, and the name of
  every other user are exactly what they were.\<close>

theorem only_operators_govern:
  assumes "host_inv low w" and "henv_good e" and "is_member w p" and "\<not> is_operator w p"
    and "From m = Some (Some p)" and "no_nil m" and "Host_HandleMsg e i m w = Some w'"
  shows "world.more w' = world.more w \<and> members w' = members w \<and> (\<forall>q. q \<noteq> p \<longrightarrow> ident_of (users w' q) = ident_of (users w q))"
  using govern_HandleMsg [OF assms] by (simp add: same_govern_def)

theorem only_operators_govern_witness:
  "\<exists>w'. Host_HandleMsg ex_henv ex_io (CommandMsg ''/op al'' 3 (Some 0) ''/op'' [''al'']) (ex_host False) = Some w' \<and>
    auth_db w' = NewAuth id \<and> is_op (members w' 0) = False"
proof -
  let ?m = "CommandMsg ''/op al'' 3 (Some 0) ''/op'' [''al'']"
  have m: "no_nil ?m" "From ?m = Some (Some 0)" by (simp_all add: no_nil_def)
  obtain w' where w': "Host_HandleMsg ex_henv ex_io ?m (ex_host False) = Some w'"
    using Host_HandleMsg_safe [OF ex_host_inv ex_henv_good m(1)] by blast
  have "world.more w' = world.more (ex_host False) \<and> members w' = members (ex_host False) \<and>
    (\<forall>q. q \<noteq> 0 \<longrightarrow> ident_of (users w' q) = ident_of (users (ex_host False) q))"
    by (rule only_operators_govern [OF ex_host_inv ex_henv_good _ _ m(2,1) w']) (simp_all add: ex_rights)
  then have more: "world.more w' = world.more (ex_host False)" and "members w' = members (ex_host False)" by blast+
  then have "is_op (members w' 0) = False" by simp
  moreover have "auth_db w' = auth_db (ex_host False)" using more by (cases w', cases "ex_host False") simp
  ultimately have "auth_db w' = auth_db (ex_host False)" "is_op (members w' 0) = False" by blast+
  then show ?thesis using w' by auto
qed

text \<open>C18: a member who is not an operator can disconnect nobody but itself with a command.\<close>

theorem commands_disconnect_oneself:
  assumes "host_inv low w" and "is_member w p" and "\<not> is_operator w p" and "q \<noteq> p"
    and "host_call h e p body args w = Some (err, w')"
  shows "done_closed (users w' q) = done_closed (users w q)"
  using rights_host_call [OF assms(1-3,5)] assms(4) by (simp add: same_rights_def)

theorem commands_disconnect_oneself_witness:
  "\<exists>err w'. host_call H_kick ex_henv 0 ''/kick al'' [''bob''] (ex_host False) = Some (err, w') \<and>
    done_closed (users w' 1) = done_closed (users (ex_host False) 1)"
proof -
  have "fine id (host_call H_kick ex_henv 0 ''/kick al'' [''bob''] (ex_host False))"
    by (rule fine_call [OF ex_host_inv ex_henv_good])
  then obtain err w' where w': "host_call H_kick ex_henv 0 ''/kick al'' [''bob''] (ex_host False) = Some (err, w')"
    by (auto simp: fine_def split: option.splits)
  have "done_closed (users w' 1) = done_closed (users (ex_host False) 1)"
    by (rule commands_disconnect_oneself [OF ex_host_inv _ _ _ w']) (simp_all add: ex_rights)
  then show ?thesis using w' by blast
qed

text \<open>the host never panics. From a new host with one of the built-in themes, after any number
  of connections, lines of input, commands of every kind, messages handled in any order, operations on
  the database by the SSH server, completions and disconnections: the next connection, line, end of
  a connection and pending message is handled without a panic, and every message for a user can be
  rendered for it.\<close>

theorem host_never_panics:
  assumes "\<forall>p. user_wf low (us p) \<and> cfg_Theme (config (us p)) \<noteq> None" and "t \<in> set Themes"
    and "(host_step low)\<^sup>*\<^sup>* (SetTheme t (NewHost low (NewAuth low) us ms cs)) w" and "henv_good e"
    and "spawned w = xs @ m # ys" and "p \<notin> room_users w"
  shows "Host_HandleMsg e i m (w\<lparr>spawned := xs @ ys\<rparr>) \<noteq> None \<and> render tf now (users w) q m (users w q) \<noteq> None \<and>
    Connect_start e i low c term envs p w \<noteq> None \<and> Connect_line e i tf api limited written q ln w \<noteq> None \<and>
    Connect_end e q w \<noteq> None"
  by (rule host_returns [OF host_steps_inv [OF assms(3) NewHost_inv [OF assms(1,2)]] assms(4-6)])


text \<open>A first connection, and the turn of \<open>Serve\<close> after it.\<close>

definition ex_start :: host where
  "ex_start = SetTheme MonoTheme (NewHost id (NewAuth id) ex_user (\<lambda>k. \<lparr>m_user = k, is_op = False, isMuted = False\<rparr>) (\<lambda>p. ex_conn))"

lemma ex_start_inv: "host_inv id ex_start" and ex_start_empty: "room_users ex_start = {}"
proof -
  have "history_inv (NewHistory historyLen)" by (rule history_inv_New) (simp add: historyLen_def)
  then show "host_inv id ex_start"
    using ex_user_wf auth_inv_New [of id]
    by (simp add: ex_start_def host_inv_def host_extra_def SetTheme_def NewHost_def builtin_def Themes_def chat_inv_def
        room_inv_def NewRoom_def NewHistory_def set_inv_New) (simp add: New_def)
  show "room_users ex_start = {}"
    by (simp add: room_users_def ex_start_def SetTheme_def NewHost_def NewRoom_def New_def)
qed

lemma room_users_finite: "finite (room_users w)"
proof (rule finite_subset)
  show "room_users w \<subseteq> (\<lambda>(key, it). m_user (members w (the (as_member (Value 0 it))))) ` set (lookup (Members (the_room w)))"
  proof
    fix p assume "p \<in> room_users w"
    then obtain key k where "map_of (lookup (Members (the_room w))) key = Some (entry_of w k)" "p = m_user (members w k)"
      by (auto simp: room_users_def)
    then show "p \<in> (\<lambda>(key, it). m_user (members w (the (as_member (Value 0 it))))) ` set (lookup (Members (the_room w)))"
      by (intro image_eqI [of _ _ "(key, entry_of w k)"]) (simp_all add: map_of_SomeD)
  qed
qed simp

lemma ex_connected:
  "\<exists>k w s t. Connect_start ex_henv ex_io id ex_conn [] [] 0 ex_start = Some (Some k, w) \<and>
    broadcast (the_room w) = [AnnounceMsg s t] \<and> spawned w = []"
proof -
  let ?u = "connect_user id (rand1 (base ex_henv)) (now_of ex_henv) ex_conn (ToLower id [] = ''bot'') (h_theme ex_start)"
  let ?w = "ex_start\<lparr>users := (users ex_start)(0 := ?u), conn_of := (conn_of ex_start)(0 := ex_conn), h_count := 1\<rparr>"
  have "0 \<le> rand1 (base ex_henv)" "h_theme ex_start \<in> set Themes"
    by (simp_all add: ex_henv_def ex_start_def SetTheme_def Themes_def)
  from connect_user_wf [OF this] have u: "user_wf id ?u" "cfg_Theme (config ?u) \<noteq> None" by blast+
  have "Name ''bob'' = ''bob''" by code_simp
  then have id: "uID ?w 0 = ''bob''"
    by (simp add: uID_def connect_user_def Let_def NewUserScreen_def NewUser_def SetConfig_def NewIdentity_def ex_conn_def)
  have "host_inv id (ex_start\<lparr>users := (users ex_start)(0 := ?u), conn_of := (conn_of ex_start)(0 := ex_conn)\<rparr>)"
    using host_outsider [OF ex_start_inv _ u] by (simp add: ex_start_empty)
  then have w: "host_inv id ?w" using host_fields_inv(1) by force
  have none: "member_at ?w (uID ?w 0) = None"
    by (simp add: member_at_def ex_start_def SetTheme_def NewHost_def NewRoom_def New_def)
  note join = Join_fresh [OF host_room [OF w] _ none, of "select ex_io" "now_of ex_henv"]
  have empty: "closed (the_room ?w) = False" "broadcast (the_room ?w) = []" "h_motd ex_start = []" "h_count ex_start = 0" "spawned ?w = []"
    by (simp_all add: ex_start_def SetTheme_def NewHost_def NewRoom_def)
  obtain k s u where j: "Room.Join (select ex_io) (now_of ex_henv) 0 ?w = Some (Inr k, announced (now_of ex_henv) s u)"
      "broadcast (the_room u) = []" "spawned u = []"
    using join id empty by (fastforce simp: seated_def alloc_def set_Members_def upd_room_def)
  let ?v = "announced (now_of ex_henv) s u"
  obtain b a where b: "Host_isOp ex_henv ex_conn ?v = (b, a)" by fastforce
  then have a: "the_room a = the_room ?v" "spawned a = spawned ?v" by (auto simp: Host_isOp_def split: if_splits prod.splits)
  have "Connect_start ex_henv ex_io id ex_conn [] [] 0 ex_start =
      Some (Some k, if b then upd_member k (\<lambda>m. m\<lparr>is_op := True\<rparr>) a else a)"
    using j(1) b empty by (simp add: Connect_start_def Let_def join_or_guest_def)
  moreover have "broadcast (the_room (if b then upd_member k (\<lambda>m. m\<lparr>is_op := True\<rparr>) a else a)) = [AnnounceMsg s (now_of ex_henv)]"
    and "spawned (if b then upd_member k (\<lambda>m. m\<lparr>is_op := True\<rparr>) a else a) = []"
    using j(2,3) by (simp_all add: a upd_member_def announced_def upd_room_def)
  ultimately show ?thesis by blast
qed

lemma ex_first_message: "\<exists>w s t. (host_step id)\<^sup>*\<^sup>* ex_start w \<and> spawned w = [AnnounceMsg s t]"
proof -
  obtain k w s t where w: "Connect_start ex_henv ex_io id ex_conn [] [] 0 ex_start = Some (Some k, w)"
      "broadcast (the_room w) = [AnnounceMsg s t]" "spawned w = []"
    using ex_connected by blast
  let ?v = "(upd_room (\<lambda>r. r\<lparr>broadcast := []\<rparr>) w)\<lparr>spawned := [AnnounceMsg s t]\<rparr>"
  have "host_step id ex_start w"
    by (rule host_step.connect [OF ex_henv_good _ w(1)]) (simp add: ex_start_empty)
  moreover have "host_step id w ?v"
    by (rule host_step.serve) (simp add: Serve_turn_def w)
  ultimately have "(host_step id)\<^sup>*\<^sup>* ex_start ?v" by auto
  then show ?thesis by (intro exI [of _ ?v] exI [of _ s] exI [of _ t]) simp
qed

theorem host_never_panics_witness:
  "\<exists>w s t. (host_step id)\<^sup>*\<^sup>* ex_start w \<and> spawned w = [AnnounceMsg s t] \<and>
    Host_HandleMsg ex_henv ex_io (AnnounceMsg s t) (w\<lparr>spawned := []\<rparr>) \<noteq> None"
proof -
  obtain w s t where steps: "(host_step id)\<^sup>*\<^sup>* ex_start w" and w: "spawned w = [] @ [AnnounceMsg s t]"
    using ex_first_message by auto
  obtain p where p: "p \<notin> room_users w" using ex_new_if_finite [OF infinite_UNIV_nat room_users_finite] by blast
  have "Host_HandleMsg ex_henv ex_io (AnnounceMsg s t) (w\<lparr>spawned := [] @ []\<rparr>) \<noteq> None"
    using host_never_panics [OF _ _ steps [unfolded ex_start_def] ex_henv_good w p] ex_user_wf
    by (simp add: Themes_def)
  then show ?thesis using steps w by auto
qed

section \<open>What operators do\<close>

lemma announce_eq: "host_inv low w \<Longrightarrow> announce e s w = Some (announced (now_of e) s w)"
  by (simp add: announce_def Room_Send_def NewAnnounceMsg_def announced_def host_inv_def chat_inv_def)

lemma tell_eq:
  "host_inv low w \<Longrightarrow>
    tell e q s w = Some (upd_room (\<lambda>r. r\<lparr>broadcast := broadcast r @ [SystemMsg s (now_of e) (Some q)]\<rparr>) w)"
  by (simp add: tell_def Room_Send_def NewSystemMsg_def host_inv_def chat_inv_def)

lemma auth_db_upd [simp]: "auth_db (upd_room f w) = auth_db w" "auth_db (upd_member k g w) = auth_db w"
  by (simp_all add: upd_room_def upd_member_def)

lemma duration_arg_one [simp]: "duration_arg e [s] = 0"
  by (simp add: duration_arg_def)

lemma announced_host [simp]:
  "users (announced now s w) = users w" "members (announced now s w) = members w"
  "world.more (announced now s w) = world.more w" "auth_db (announced now s v) = auth_db v"
  by (simp_all add: announced_def upd_room_def)

lemma host_ban_named:
  assumes w: "host_inv low w" and p: "is_operator w p" and k: "member_at w name = Some k" and q: "q = m_user (members w k)"
  shows "\<exists>w'. host_ban e p body (name # rest) w = Some (None, w') \<and> done_closed (users w' q) = True \<and>
    auth_db w' = BanAddr (now_of e) (Some (c_addr (conn_of w q))) (duration_arg e (name # rest))
      (Ban (hlib e) (now_of e) (c_key (conn_of w q)) (duration_arg e (name # rest)) (auth_db w))"
proof -
  let ?d = "duration_arg e (name # rest)" and ?c = "conn_of w q"
  let ?v = "upd_auth (BanAddr (now_of e) (Some (c_addr ?c)) ?d) (upd_auth (Ban (hlib e) (now_of e) (c_key ?c) ?d) w)"
  have "host_inv low ?v"
    using w host_auth [OF w] by (intro host_inv_upd_auth) (simp_all add: auth_inv_Ban)
  from announce_eq [OF this] have "host_ban e p body (name # rest) w =
      Some (None, upd_user q Close (announced (now_of e) (uName ?v q @ '' was banned by '' @ uName ?v p @ ''.'') ?v))"
    using w p k q by (simp add: host_ban_def op_only_eq [OF host_room [OF w]] host_simps [OF w] Let_def)
  then show ?thesis by (simp add: upd_user_def Close_def)
qed



text \<open>C10: \<open>/op\<close> gives and takes rights. An operator's \<open>/op USER\<close> makes the member an operator, and its key
  one in the database for the duration of the argument; \<open>/op USER remove\<close> takes the flag away and
  leaves the key an operator for no longer than a nanosecond. The other members keep their rights.\<close>

theorem op_grants:
  assumes "host_inv low w" and "is_operator w p" and "member_at w name = Some k" and "q = m_user (members w k)"
    and "c_key (conn_of w q) = Some key"
  shows "\<exists>w'. host_op e p body (name # rest) w = Some (None, w') \<and>
    members w' = (members w)(k := (members w k)\<lparr>is_op := (case rest of r # _ \<Rightarrow> r \<noteq> ''remove'' | [] \<Rightarrow> True)\<rparr>) \<and>
    (fst (IsOp (hlib e) t (Some key) (auth_db w')) \<longleftrightarrow>
      (case rest of [] \<Rightarrow> True
       | r # _ \<Rightarrow> if r = ''remove'' then t \<le> now_of e + 1
           else duration_arg e (name # rest) = 0 \<or> t \<le> now_of e + duration_arg e (name # rest)))"
proof -
  let ?remove = "case rest of r # _ \<Rightarrow> r = ''remove'' | [] \<Rightarrow> False"
  let ?d = "if ?remove then 1 else duration_arg e (name # rest)"
  let ?v = "upd_member k (\<lambda>m. m\<lparr>is_op := \<not> ?remove\<rparr>) w"
  have v: "host_inv low ?v" by (rule host_upd_member [OF assms(1)]) simp
  have u: "host_inv low (upd_auth (Op (hlib e) (now_of e) (Some key) ?d) ?v)"
    using v host_auth [OF v] by (intro host_inv_upd_auth) (simp_all add: auth_inv_Op)
  have q: "m_user (members ?v k) = q" "conn_of ?v = conn_of w" using assms(4) by (simp_all add: upd_member_def)
  obtain s where "host_op e p body (name # rest) w =
      ok (tell e q s (upd_auth (Op (hlib e) (now_of e) (Some key) ?d) ?v))"
    using assms q(2) by (simp add: host_op_def op_only_eq [OF host_room [OF assms(1)]] host_simps [OF assms(1)] Let_def
        as_identity_eq [OF v] q)
  then have eq: "host_op e p body (name # rest) w =
      Some (None, upd_room (\<lambda>r. r\<lparr>broadcast := broadcast r @ [SystemMsg s (now_of e) (Some q)]\<rparr>)
        (upd_auth (Op (hlib e) (now_of e) (Some key) ?d) ?v))"
    by (simp add: tell_eq [OF u] ok_def)
  show ?thesis
    by (rule exI, intro conjI, rule eq)
       (auto simp: upd_member_def IsOp_result key_listed_def Op_def newAuthKey_def holds_put_for auth_list.norm_put
         split: list.split)
qed


theorem op_grants_witness:
  "\<exists>w'. host_op ex_henv 0 ''/op al remove'' [''al'', ''remove''] (ex_host True) = Some (None, w') \<and>
    is_op (members w' 0) = False \<and> fst (IsOp (hlib ex_henv) 99 (Some ''k'') (auth_db w')) = False"
proof -
  have "now_of ex_henv = 7" by (simp add: now_of_def ex_henv_def)
  then show ?thesis
    using op_grants [OF ex_host_inv, of True 0 "''al''" 0 0 "''k''" ex_henv "''/op al remove''" "[''remove'']" 99]
    by (auto simp: ex_rights ex_member_at ex_norm ex_conn_def)
qed

end
