(* ===== verification/Startup.thy ===== *)
theory Startup
  imports HostProps
begin

text \<open>
  The start of the server (\<open>cmd/ssh-chat\<close>): its keys, who may connect, the message of the
  day and the log. What the operating system and \<open>golang.org/x/crypto/ssh\<close> answer is the
  record \<open>system\<close>; an error of theirs is its text. \<open>main\<close> begins behind the parser of the
  command line. Its result is the server it would serve, or the code it exits with.
\<close>

section \<open>The system\<close>

datatype key_error = PassphraseMissing | KeyError string

record 'k system =
  ReadFile :: "time \<Rightarrow> string \<Rightarrow> string + string"
  OpenFile :: "time \<Rightarrow> string \<Rightarrow> string + string"
  OpenLog :: "string \<Rightarrow> string option"
  Listen :: "string \<Rightarrow> string option"
  HomeDir :: "string + string"
  Getenv :: "string \<Rightarrow> string"
  ReadStdin :: "string + string"
  ParsePrivateKey :: "string \<Rightarrow> key_error + 'k"
  ParsePrivateKeyWithPassphrase :: "string \<Rightarrow> string \<Rightarrow> string + 'k"
  ParseAuthorizedKey :: "string \<Rightarrow> string + pubkey"

record options =
  opt_Admin :: string
  opt_Bind :: string
  opt_Identity :: "string list"
  opt_Log :: string
  opt_Motd :: string
  opt_Verbose :: nat
  opt_Version :: bool
  opt_Allowlist :: string
  opt_Whitelist :: string
  opt_Passphrase :: string

datatype level = Warning | Info | Debug

definition logLevels :: "level list" where
  "logLevels = [Warning, Info, Debug]"

definition logLevel :: "nat \<Rightarrow> level" where
  "logLevel numVerbose =
    (let n = (if length logLevels \<le> numVerbose then length logLevels - 1 else numVerbose) in logLevels ! n)"

section \<open>The identity of the server\<close>

text \<open>\<open>ReadPrivateKey\<close> of \<open>key.go\<close>.\<close>

definition ReadPrivateKey :: "'k system \<Rightarrow> time \<Rightarrow> string \<Rightarrow> string + 'k" where
  "ReadPrivateKey os now path =
    (case ReadFile os now path of
       Inl err \<Rightarrow> Inl (''failed to load identity: '' @ err)
     | Inr privateKey \<Rightarrow>
         (case ParsePrivateKey os privateKey of
            Inr pk \<Rightarrow> Inr pk
          | Inl (KeyError err) \<Rightarrow> Inl err
          | Inl PassphraseMissing \<Rightarrow>
              let passphrase = Getenv os ''IDENTITY_PASSPHRASE'' in
              if passphrase = [] then
                (case ReadStdin os of
                   Inl err \<Rightarrow> Inl (''couldn't read passphrase: '' @ err)
                 | Inr passphrase \<Rightarrow> ParsePrivateKeyWithPassphrase os privateKey passphrase)
              else ParsePrivateKeyWithPassphrase os privateKey passphrase))"

definition expand_home :: "'k system \<Rightarrow> string \<Rightarrow> string" where
  "expand_home os path =
    (if HasPrefix path ''~/'' then
       (case HomeDir os of Inl err \<Rightarrow> path | Inr dir \<Rightarrow> Replace1 path ''~'' dir)
     else path)"

text \<open>A \<open>fail\<close> of \<open>main\<close> is its code and the error.\<close>

type_synonym failure = "nat \<times> go_error"

fun add_identities :: "'k system \<Rightarrow> time \<Rightarrow> string list \<Rightarrow> 'k list \<Rightarrow> failure + 'k list" where
  "add_identities os now [] keys = Inr keys"
| "add_identities os now (path # paths) keys =
    (case ReadPrivateKey os now (expand_home os path) of
       Inl err \<Rightarrow> Inl (3, Errorf err)
     | Inr signer \<Rightarrow> add_identities os now paths (keys @ [signer]))"

section \<open>Files of keys\<close>

text \<open>The lines of \<open>bufio.Scanner\<close>: each without its line feed and one carriage return before
  it; nothing after the last line feed is no line. The scanner stops at a line that does
  not fit into its buffer of 64 KiB.\<close>

definition MaxScanTokenSize :: nat where
  "MaxScanTokenSize = 65536"

definition dropCR :: "string \<Rightarrow> string" where
  "dropCR l = (if l \<noteq> [] \<and> last l = CHR 0x0D then butlast l else l)"

definition ScanLines :: "string \<Rightarrow> string list" where
  "ScanLines content =
    (let ls = Split content (CHR 0x0A);
         ls = (if last ls = [] then butlast ls else ls) in
     map dropCR (takeWhile (\<lambda>l. length l < MaxScanTokenSize) ls))"

fun load_keys :: "'k system \<Rightarrow> string list \<Rightarrow> pubkey option list \<Rightarrow> pubkey option list \<times> go_error option" where
  "load_keys os [] keys = (keys, None)"
| "load_keys os (l # ls) keys =
    (case ParseAuthorizedKey os l of
       Inl err \<Rightarrow> if err = ''ssh: no key found'' then load_keys os ls keys else ([], Some (Errorf err))
     | Inr key \<Rightarrow> load_keys os ls (keys @ [Some key]))"

text \<open>The file is read each time the loader is called. An error of the device while it is
  read ends the lines like the end of the file.\<close>

definition loaderFromFile :: "'k system \<Rightarrow> string \<Rightarrow> KeyLoader option" where
  "loaderFromFile os path =
    (if path = [] then None
     else Some (\<lambda>now. case OpenFile os now path of
       Inl err \<Rightarrow> ([], Some (Errorf err))
     | Inr content \<Rightarrow> load_keys os (ScanLines content) []))"

section \<open>Who may connect\<close>

definition allow_path :: "options \<Rightarrow> string" where
  "allow_path opts =
    (if opt_Allowlist opts = [] \<and> opt_Whitelist opts \<noteq> [] then opt_Whitelist opts else opt_Allowlist opts)"

definition configure_auth :: "'k system \<Rightarrow> golib \<Rightarrow> options \<Rightarrow> time \<Rightarrow> auth \<Rightarrow> failure + auth" where
  "configure_auth os lib opts now a =
    (let a = (if opt_Passphrase opts \<noteq> [] then SetPassphrase lib (opt_Passphrase opts) a else a) in
     case LoadOps lib now (loaderFromFile os (opt_Admin opts)) a of
       (Some err, a) \<Rightarrow> Inl (5, err)
     | (None, a) \<Rightarrow>
         (case LoadAllowlist lib now (loaderFromFile os (allow_path opts)) a of
            (Some err, a) \<Rightarrow> Inl (6, err)
          | (None, a) \<Rightarrow> Inr (SetAllowlistMode (allow_path opts \<noteq> []) a)))"

section \<open>The message of the day and the log\<close>

text \<open>\<open>strings.Replace(s, old, new, -1)\<close> with an \<open>old\<close> that is not empty.\<close>

function Replace_all :: "string \<Rightarrow> string \<Rightarrow> string \<Rightarrow> string" where
  "Replace_all s old new =
    (if s = [] \<or> old = [] then s
     else if HasPrefix s old then new @ Replace_all (drop (length old) s) old new
     else hd s # Replace_all (tl s) old new)"
  by pat_completeness auto
termination by (relation "measure (\<lambda>(s, old, new). length s)") auto

declare Replace_all.simps [simp del]

definition motd_lines :: "string \<Rightarrow> string" where
  "motd_lines s =
    Replace_all (Replace_all s [CHR 0x0D, CHR 0x0A] [CHR 0x0A]) [CHR 0x0A] [CHR 0x0D, CHR 0x0A]"

definition load_motd :: "'k system \<Rightarrow> string \<Rightarrow> time \<Rightarrow> go_error + string" where
  "load_motd os path now =
    (case ReadFile os now path of Inl err \<Rightarrow> Inl (Errorf err) | Inr motd \<Rightarrow> Inr (motd_lines motd))"

definition configure_motd :: "'k system \<Rightarrow> options \<Rightarrow> time \<Rightarrow> host \<Rightarrow> failure + host" where
  "configure_motd os opts now h =
    (if opt_Motd opts = [] then Inr h
     else
       let h = h\<lparr>GetMOTD := Some (load_motd os (opt_Motd opts))\<rparr> in
       case load_motd os (opt_Motd opts) now of
         Inl err \<Rightarrow> Inl (7, err)
       | Inr s \<Rightarrow> Inr (SetMotd s h))"

text \<open>The log of the room starts empty; what a log file held before is not part of it.\<close>

definition configure_log :: "'k system \<Rightarrow> options \<Rightarrow> host \<Rightarrow> failure + host" where
  "configure_log os opts h =
    (if opt_Log opts = ''-'' then Inr (SetLogging [] h)
     else if opt_Log opts \<noteq> [] then
       (case OpenLog os (opt_Log opts) of
          Some err \<Rightarrow> Inl (8, Errorf err)
        | None \<Rightarrow> Inr (SetLogging [] h))
     else Inr h)"

section \<open>main\<close>

text \<open>A server that is about to serve: the keys it gives to \<open>AddHostKey\<close>, whether it limits the rate of input,
  its level of logging and its host.\<close>

record 'k server =
  host_keys :: "'k list"
  sv_RateLimit :: bool
  sv_level :: level
  sv_host :: host

datatype 'k startup = Quit | Exit nat go_error | Serving "'k server"

definition main :: "'k system \<Rightarrow> golib \<Rightarrow> (rune \<Rightarrow> rune) \<Rightarrow> (uid \<Rightarrow> user) \<Rightarrow> (mid \<Rightarrow> member) \<Rightarrow> (uid \<Rightarrow> conn) \<Rightarrow> string
    \<Rightarrow> options \<Rightarrow> time \<Rightarrow> 'k startup" where
  "main os lib low us ms cs version opts now =
    (if opt_Version opts then Quit
     else
       let a = NewAuth low in
       case add_identities os now (opt_Identity opts) [] of
         Inl (code, err) \<Rightarrow> Exit code err
       | Inr keys \<Rightarrow>
      (case Listen os (opt_Bind opts) of
         Some err \<Rightarrow> Exit 4 (Errorf err)
       | None \<Rightarrow>
       let h = SetTheme (Themes ! 0) (NewHost low a us ms cs);
           h = h\<lparr>Version := version\<rparr> in
       case configure_auth os lib opts now (auth_db h) of
         Inl (code, err) \<Rightarrow> Exit code err
       | Inr a \<Rightarrow>
      (case configure_motd os opts now (h\<lparr>auth_db := a\<rparr>) of
         Inl (code, err) \<Rightarrow> Exit code err
       | Inr h \<Rightarrow>
      (case configure_log os opts h of
         Inl (code, err) \<Rightarrow> Exit code err
       | Inr h \<Rightarrow> Serving \<lparr>host_keys = keys, sv_RateLimit = True, sv_level = logLevel (opt_Verbose opts), sv_host = h\<rparr>))))"

section \<open>Lemmas\<close>

text \<open>The keys that the lines of a file hold, and those of a file that may be absent.\<close>

definition line_keys :: "'k system \<Rightarrow> string list \<Rightarrow> pubkey list" where
  "line_keys os ls = concat (map (\<lambda>l. case ParseAuthorizedKey os l of Inl err \<Rightarrow> [] | Inr k \<Rightarrow> [k]) ls)"

definition keys_in :: "'k system \<Rightarrow> time \<Rightarrow> string \<Rightarrow> pubkey list" where
  "keys_in os now path =
    (if path = [] then [] else case OpenFile os now path of Inl err \<Rightarrow> [] | Inr content \<Rightarrow> line_keys os (ScanLines content))"

text \<open>A line that the loader accepts, and a file.\<close>

definition line_good :: "'k system \<Rightarrow> string \<Rightarrow> bool" where
  "line_good os l \<longleftrightarrow> (case ParseAuthorizedKey os l of Inl err \<Rightarrow> err = ''ssh: no key found'' | Inr k \<Rightarrow> True)"

definition file_good :: "'k system \<Rightarrow> time \<Rightarrow> string \<Rightarrow> bool" where
  "file_good os now path \<longleftrightarrow> path = [] \<or> (case OpenFile os now path of
     Inl err \<Rightarrow> False | Inr content \<Rightarrow> list_all (line_good os) (ScanLines content))"

lemma load_keys_result:
  "load_keys os ls keys =
    (if list_all (line_good os) ls then (keys @ map Some (line_keys os ls), None)
     else ([], snd (load_keys os ls keys))) \<and>
    (snd (load_keys os ls keys) = None \<longleftrightarrow> list_all (line_good os) ls)"
  by (induction os ls keys rule: load_keys.induct) (auto simp: line_good_def line_keys_def split: sum.splits)

lemma loader_result:
  "addFromLoader (loaderFromFile os path) adder now a =
    (if file_good os now path then (None, fold (\<lambda>k a. adder (Some k) 0 a) (keys_in os now path) a)
     else (fst (addFromLoader (loaderFromFile os path) adder now a), a)) \<and>
    (fst (addFromLoader (loaderFromFile os path) adder now a) = None \<longleftrightarrow> file_good os now path)"
proof -
  have fm: "fold (\<lambda>key a. adder key 0 a) (map Some ks) a = fold (\<lambda>k a. adder (Some k) 0 a) ks a" for ks
    by (simp add: fold_map comp_def)
  show ?thesis
  proof (cases "path = [] \<or> (\<exists>e. OpenFile os now path = Inl e)")
    case True
    then show ?thesis
      by (auto simp: addFromLoader_def loaderFromFile_def file_good_def keys_in_def)
  next
    case False
    then obtain c where c: "path \<noteq> []" "OpenFile os now path = Inr c" by (cases "OpenFile os now path") auto
    show ?thesis
      using load_keys_result [of os "ScanLines c" "[]"] c
      by (cases "list_all (line_good os) (ScanLines c)")
        (auto simp: addFromLoader_def loaderFromFile_def file_good_def keys_in_def fm split: prod.split)
  qed
qed

text \<open>Two keys that the database takes for one: it compares fingerprints up to case.\<close>

definition same_key :: "(rune \<Rightarrow> rune) \<Rightarrow> golib \<Rightarrow> pubkey \<Rightarrow> pubkey \<Rightarrow> bool" where
  "same_key low lib k k' \<longleftrightarrow> normalize low (Fingerprint lib k) = normalize low (Fingerprint lib k')"

definition put_keys :: "golib \<Rightarrow> time \<Rightarrow> pubkey list \<Rightarrow> unit goset \<Rightarrow> unit goset" where
  "put_keys lib now ks = fold (\<lambda>k. put_for 0 now (newAuthKey lib (Some k))) ks"

lemma put_keys_normalizer [simp]: "normalizer (put_keys lib now ks s) = normalizer s"
  by (induction ks arbitrary: s) (simp_all add: put_keys_def)

lemma put_keys_listed:
  assumes "normalizer s = normalize low"
  shows "key_listed lib t (Some key) (put_keys lib now ks s) \<longleftrightarrow>
    key_listed lib t (Some key) s \<or> (\<exists>k\<in>set ks. same_key low lib k key)"
  using assms
proof (induction ks arbitrary: s)
  case Nil
  then show ?case by (simp add: put_keys_def)
next
  case (Cons k ks)
  then show ?case
    using Cons.IH [of "put_for 0 now (newAuthKey lib (Some k)) s"]
    by (auto simp: put_keys_def key_listed_def holds_put_for same_key_def newAuthKey_def)
qed

lemma fold_Op: "fold (\<lambda>k a. Op lib now (Some k) 0 a) ks a = a\<lparr>ops := put_keys lib now ks (ops a)\<rparr>"
  by (induction ks arbitrary: a) (simp_all add: put_keys_def Op_def)

lemma fold_Allowlist:
  "fold (\<lambda>k a. Allowlist lib now (Some k) 0 a) ks a = a\<lparr>allowlist := put_keys lib now ks (allowlist a)\<rparr>"
  by (induction ks arbitrary: a) (simp_all add: put_keys_def Allowlist_def)

lemma Load_result:
  "file_good os now path \<Longrightarrow> LoadOps lib now (loaderFromFile os path) a =
    (None, a\<lparr>opLoader := loaderFromFile os path, ops := put_keys lib now (keys_in os now path) (ops a)\<rparr>)"
  "file_good os now path \<Longrightarrow> LoadAllowlist lib now (loaderFromFile os path) a =
    (None, a\<lparr>allowlistLoader := loaderFromFile os path, allowlist := put_keys lib now (keys_in os now path) (allowlist a)\<rparr>)"
  "\<not> file_good os now path \<Longrightarrow> fst (LoadOps lib now (loaderFromFile os path) a) \<noteq> None"
  "\<not> file_good os now path \<Longrightarrow> fst (LoadAllowlist lib now (loaderFromFile os path) a) \<noteq> None"
  using loader_result [of os path "Op lib now" now "a\<lparr>opLoader := loaderFromFile os path\<rparr>"]
    loader_result [of os path "Allowlist lib now" now "a\<lparr>allowlistLoader := loaderFromFile os path\<rparr>"]
  by (simp_all add: LoadOps_def ReloadOps_def LoadAllowlist_def ReloadAllowlist_def fold_Op fold_Allowlist)

lemma configure_auth_result:
  "configure_auth os lib opts now a = Inr b \<longleftrightarrow>
    file_good os now (opt_Admin opts) \<and> file_good os now (allow_path opts) \<and>
    b = a\<lparr>passphraseHash := (if opt_Passphrase opts \<noteq> [] then Some (sha256 lib (opt_Passphrase opts)) else passphraseHash a),
      opLoader := loaderFromFile os (opt_Admin opts), ops := put_keys lib now (keys_in os now (opt_Admin opts)) (ops a),
      allowlistLoader := loaderFromFile os (allow_path opts),
      allowlist := put_keys lib now (keys_in os now (allow_path opts)) (allowlist a),
      allowlistMode := allow_path opts \<noteq> []\<rparr>"
proof -
  let ?a = "if opt_Passphrase opts \<noteq> [] then SetPassphrase lib (opt_Passphrase opts) a else a"
  have p: "?a = a\<lparr>passphraseHash := if opt_Passphrase opts \<noteq> [] then Some (sha256 lib (opt_Passphrase opts)) else passphraseHash a\<rparr>"
    by (simp add: SetPassphrase_def)
  show ?thesis
  proof (cases "file_good os now (opt_Admin opts)")
    case True
    let ?b = "?a\<lparr>opLoader := loaderFromFile os (opt_Admin opts), ops := put_keys lib now (keys_in os now (opt_Admin opts)) (ops ?a)\<rparr>"
    show ?thesis
    proof (cases "file_good os now (allow_path opts)")
      case False
      obtain err c where "LoadAllowlist lib now (loaderFromFile os (allow_path opts)) ?b = (Some err, c)"
        using Load_result(4) [OF False, of lib ?b] by (metis option.exhaust prod.collapse)
      then show ?thesis using False by (simp add: configure_auth_def Let_def Load_result(1) [OF True] del: if_split)
    qed (use True in \<open>auto simp: configure_auth_def Let_def Load_result SetAllowlistMode_def p simp del: if_split\<close>)
  next
    case False
    obtain err c where "LoadOps lib now (loaderFromFile os (opt_Admin opts)) ?a = (Some err, c)"
      using Load_result(3) [OF False, of lib ?a] by (metis option.exhaust prod.collapse)
    then show ?thesis using False by (simp add: configure_auth_def Let_def del: if_split)
  qed
qed

lemma configure_motd_result:
  "configure_motd os opts now h = Inr h' \<Longrightarrow>
    if opt_Motd opts = [] then h' = h
    else \<exists>s. ReadFile os now (opt_Motd opts) = Inr s \<and>
      h' = h\<lparr>GetMOTD := Some (load_motd os (opt_Motd opts)), h_motd := motd_lines s\<rparr>"
  by (auto simp: configure_motd_def load_motd_def SetMotd_def Let_def split: if_splits sum.splits)

lemma configure_log_result:
  "configure_log os opts h = Inr h' \<Longrightarrow> h' = h \<or> h' = SetLogging [] h"
  by (auto simp: configure_log_def split: if_splits option.splits)

lemma auth_db_SetLogging [simp]: "auth_db (SetLogging f h) = auth_db h" "h_motd (SetLogging f h) = h_motd h"
  by (simp_all add: SetLogging_def upd_room_def)

text \<open>What a server that serves was made of.\<close>

lemma main_Serving:
  assumes "main os lib low us ms cs version opts now = Serving s"
  shows "\<exists>a. add_identities os now (opt_Identity opts) [] = Inr (host_keys s) \<and>
    configure_auth os lib opts now (NewAuth low) = Inr a \<and> auth_db (sv_host s) = a \<and>
    (\<exists>h. configure_motd os opts now ((SetTheme (Themes ! 0) (NewHost low (NewAuth low) us ms cs))\<lparr>Version := version, auth_db := a\<rparr>) = Inr h \<and>
      configure_log os opts h = Inr (sv_host s))"
proof -
  let ?h = "\<lambda>a. (SetTheme (Themes ! 0) (NewHost low (NewAuth low) us ms cs))\<lparr>Version := version, auth_db := a\<rparr>"
  have db: "auth_db (SetTheme (Themes ! 0) (NewHost low (NewAuth low) us ms cs)) = NewAuth low"
    by (simp add: SetTheme_def NewHost_def)
  obtain a h where ah: "add_identities os now (opt_Identity opts) [] = Inr (host_keys s)"
      "configure_auth os lib opts now (NewAuth low) = Inr a" "configure_motd os opts now (?h a) = Inr h"
      "configure_log os opts h = Inr (sv_host s)"
    using assms by (auto simp: main_def Let_def db split: if_splits sum.splits option.splits)
  have "auth_db h = a" using configure_motd_result [OF ah(3)] by (auto split: if_splits)
  then have "auth_db (sv_host s) = a" using configure_log_result [OF ah(4)] by auto
  then show ?thesis using ah by blast
qed

lemma configure_auth_inv:
  assumes "configure_auth os lib opts now a = Inr b" and "auth_inv low a"
  shows "auth_inv low b"
proof -
  let ?a = "if opt_Passphrase opts \<noteq> [] then SetPassphrase lib (opt_Passphrase opts) a else a"
  have "auth_inv low ?a" using assms(2) auth_step_inv [OF auth_step.passphrase] by simp
  then have "auth_inv low (snd (LoadAllowlist lib now l (snd (LoadOps lib now l' ?a))))" for l l'
    by (intro auth_inv_Load)
  then have "auth_inv low (SetAllowlistMode v (snd (LoadAllowlist lib now l (snd (LoadOps lib now l' ?a)))))" for v l l'
    by (rule auth_step_inv [OF auth_step.mode])
  moreover obtain r1 a1 where 1: "LoadOps lib now (loaderFromFile os (opt_Admin opts)) ?a = (r1, a1)" by fastforce
  moreover obtain r2 a2 where 2: "LoadAllowlist lib now (loaderFromFile os (allow_path opts)) a1 = (r2, a2)" by fastforce
  moreover have "b = SetAllowlistMode (allow_path opts \<noteq> []) a2"
    using assms(1) by (cases r1; cases r2) (simp_all add: configure_auth_def Let_def 1 2 del: if_split)
  ultimately show ?thesis by (metis snd_conv)
qed

lemma SetLogging_inv: "host_inv low h \<Longrightarrow> host_inv low (SetLogging [] h)"
proof -
  assume inv: "host_inv low h"
  have e: "entry_of (SetLogging [] h) = entry_of h"
    by (simp add: SetLogging_def upd_room_def entry_of_def uID_def fun_eq_iff)
  have "chat_inv low (SetLogging [] h)"
    using host_chat [OF inv]
    by (simp add: chat_inv_def room_inv_def e) (simp add: SetLogging_def upd_room_def History_SetOutput_def history_inv_def)
  moreover have "same_host h (SetLogging [] h)" by (simp add: SetLogging_def)
  ultimately show "host_inv low (SetLogging [] h)" using inv by (rule same_host_inv)
qed

lemma started_inv:
  assumes "main os lib low us ms cs version opts now = Serving s"
    and "\<forall>p. user_wf low (us p) \<and> cfg_Theme (config (us p)) \<noteq> None"
  shows "host_inv low (sv_host s)"
proof -
  let ?h = "SetTheme (Themes ! 0) (NewHost low (NewAuth low) us ms cs)"
  have h: "host_inv low ?h" using assms(2) by (intro NewHost_inv) (simp_all add: Themes_def)
  obtain a h where ah: "configure_auth os lib opts now (NewAuth low) = Inr a"
      "configure_motd os opts now (?h\<lparr>Version := version, auth_db := a\<rparr>) = Inr h"
      "configure_log os opts h = Inr (sv_host s)"
    using main_Serving [OF assms(1)] by blast
  have "auth_inv low a" by (rule configure_auth_inv [OF ah(1) auth_inv_New])
  then have "host_inv low (upd_auth (\<lambda>_. a) ?h)" by (rule host_inv_upd_auth [OF h])
  moreover obtain g m where "h = ?h\<lparr>Version := version, auth_db := a, GetMOTD := g, h_motd := m\<rparr>"
    using configure_motd_result [OF ah(2)] that [of "h_motd h" "GetMOTD h"] by (cases "opt_Motd opts = []") auto
  moreover have "chat_inv low (w\<lparr>Version := version, auth_db := a, GetMOTD := g, h_motd := m\<rparr>) = chat_inv low w" for g m and w :: host
    by (rule chat_inv_fields) simp_all
  ultimately have "host_inv low h" using h by (simp add: host_inv_def host_extra_def)
  then show ?thesis using configure_log_result [OF ah(3)] by (elim disjE) (simp_all add: SetLogging_inv)
qed

lemma New_unlisted [simp]: "holds t (New low) k = False" "normalizer (New low) = normalize low"
  by (simp_all add: holds_def live_def New_def)

section \<open>Properties\<close>

text \<open>C4: who may connect is what the operator of the server asked for. If the server starts at all,
  then at any later time, as long as nothing has changed the database: a public key is admitted exactly
  if neither an allow list nor a passphrase was given, or the key is in the file of admins or that of the
  allow list, up to the case of the fingerprint; a client without a key is admitted exactly with the
  passphrase or, when none is set, without an allow list; and the operators are exactly the keys of the
  admin file.\<close>

theorem start_policy:
  assumes "main os lib low us ms cs version opts now = Serving s"
  shows "((\<exists>perms. fst (PublicKeyCallback (Auth_iface lib) t conn key (auth_db (sv_host s))) = Inr perms) \<longleftrightarrow>
      (allow_path opts = [] \<and> opt_Passphrase opts = []) \<or>
      (\<exists>k\<in>set (keys_in os now (opt_Admin opts) @ keys_in os now (allow_path opts)). same_key low lib k key)) \<and>
    (fst (KeyboardInteractiveCallback (Auth_iface lib) t conn challenge (auth_db (sv_host s))) = None \<longleftrightarrow>
      (if opt_Passphrase opts = [] then allow_path opts = []
       else \<exists>p. challenge = Inr [p] \<and> sha256 lib p = sha256 lib (opt_Passphrase opts))) \<and>
    (fst (IsOp lib t (Some key) (auth_db (sv_host s))) \<longleftrightarrow>
      (\<exists>k\<in>set (keys_in os now (opt_Admin opts)). same_key low lib k key))"
proof -
  obtain a where a: "configure_auth os lib opts now (NewAuth low) = Inr a" "auth_db (sv_host s) = a"
    using main_Serving [OF assms] by blast
  note r = a(1) [unfolded configure_auth_result, THEN conjunct2, THEN conjunct2]
  have f: "banned a = New low" "bannedAddr a = New low" "bannedClient a = New low"
      "ops a = put_keys lib now (keys_in os now (opt_Admin opts)) (New low)"
      "allowlist a = put_keys lib now (keys_in os now (allow_path opts)) (New low)"
      "allowlistMode a = (allow_path opts \<noteq> [])"
      "passphraseHash a = (if opt_Passphrase opts \<noteq> [] then Some (sha256 lib (opt_Passphrase opts)) else None)"
    by (simp_all add: r NewAuth_def)
  have no_ban: "fst (CheckBans lib t addr k c a) = None" for addr k c
    by (simp add: CheckBans_result ban_applies_def key_listed_def f)
  have listed: "key_listed lib t (Some key) (put_keys lib now ks (New low)) \<longleftrightarrow> (\<exists>k\<in>set ks. same_key low lib k key)" for ks
    using put_keys_listed [of "New low" low lib t key now ks] by (simp add: key_listed_def)
  show ?thesis
    unfolding a(2) sshd_conn.key_accepted_iff sshd_conn.keyboard_accepted_iff
    by (auto simp: Auth_iface_def no_ban CheckPublicKey_result IsOp_result listed AllowAnonymous_def AcceptPassphrase_def
        CheckPassphrase_def f)
qed

text \<open>A small system: every file holds the name of its path as its one key, and the identity is read
  from the environment's home.\<close>

definition ex_system :: "string system" where
  "ex_system = \<lparr>ReadFile = (\<lambda>t p. Inr p), OpenFile = (\<lambda>t p. Inr p), OpenLog = (\<lambda>p. None), Listen = (\<lambda>p. None),
    HomeDir = Inr ''/h'', Getenv = (\<lambda>v. []), ReadStdin = Inl ''no'', ParsePrivateKey = Inr,
    ParsePrivateKeyWithPassphrase = (\<lambda>k p. Inr k), ParseAuthorizedKey = Inr\<rparr>"

definition ex_options :: "string \<Rightarrow> string \<Rightarrow> options" where
  "ex_options adm allow =
    \<lparr>opt_Admin = adm, opt_Bind = [], opt_Identity = [''~/id''], opt_Log = [], opt_Motd = [], opt_Verbose = 0, opt_Version = False,
     opt_Allowlist = [], opt_Whitelist = allow, opt_Passphrase = []\<rparr>"

abbreviation ex_main :: "string \<Rightarrow> string startup" where
  "ex_main allow \<equiv> main ex_system (sample_lib []) id ex_user (\<lambda>k. \<lparr>m_user = k, is_op = False, isMuted = False\<rparr>) (\<lambda>p. ex_conn) []
    (ex_options [] allow) 0"

lemma ex_readable: "file_good ex_system t p" "ReadPrivateKey ex_system t (expand_home ex_system ''~/id'') = Inr ''/h/id''"
  by (simp add: file_good_def ex_system_def line_good_def list_all_iff)
    (simp add: ex_system_def ReadPrivateKey_def expand_home_def Replace1_front HasPrefix_def)

lemma ex_identity: "add_identities ex_system 0 [''~/id''] [] = Inr [''/h/id'']"
  by (simp add: ex_readable)

lemma ex_listen [simp]: "Listen ex_system b = None"
  by (simp add: ex_system_def)

lemma ex_main_serves: "\<exists>s. ex_main allow = Serving s"
proof -
  obtain b where "configure_auth ex_system (sample_lib []) (ex_options [] allow) 0 (NewAuth id) = Inr b"
    using configure_auth_result ex_readable by blast
  then show ?thesis
    using ex_identity
    by (simp add: main_def Let_def ex_options_def SetTheme_def NewHost_def configure_motd_def configure_log_def)
qed

lemma ex_main_plain:
  "ex_main [] = Serving \<lparr>host_keys = [''/h/id''], sv_RateLimit = True, sv_level = Warning,
    sv_host = SetTheme (Themes ! 0) (NewHost id (NewAuth id) ex_user (\<lambda>k. \<lparr>m_user = k, is_op = False, isMuted = False\<rparr>) (\<lambda>p. ex_conn))\<rparr>"
  using ex_identity
  by (simp add: main_def Let_def ex_options_def SetTheme_def NewHost_def configure_motd_def configure_log_def configure_auth_def
      allow_path_def loaderFromFile_def LoadOps_def ReloadOps_def LoadAllowlist_def ReloadAllowlist_def addFromLoader_def
      SetAllowlistMode_def NewAuth_def logLevel_def logLevels_def)

theorem start_policy_witness:
  "\<exists>s. ex_main ''a'' = Serving s \<and>
    (\<exists>perms. fst (PublicKeyCallback (Auth_iface (sample_lib [])) 7 \<lparr>RemoteAddr = ''h'', ClientVersion = ''c''\<rparr> ''a'' (auth_db (sv_host s))) = Inr perms) \<and>
    fst (KeyboardInteractiveCallback (Auth_iface (sample_lib [])) 7 \<lparr>RemoteAddr = ''h'', ClientVersion = ''c''\<rparr> (Inr []) (auth_db (sv_host s))) \<noteq> None"
proof -
  obtain s where s: "ex_main ''a'' = Serving s" using ex_main_serves by blast
  have "keys_in ex_system 0 ''a'' = [''a'']" "allow_path (ex_options [] ''a'') = ''a''"
    by (simp_all add: keys_in_def ex_system_def line_keys_def ScanLines_def Split_def MaxScanTokenSize_def dropCR_def
        allow_path_def ex_options_def)
  then show ?thesis
    using s start_policy [OF s, of 7 "\<lparr>RemoteAddr = ''h'', ClientVersion = ''c''\<rparr>" "''a''" "Inr []"]
    by (simp add: ex_options_def same_key_def)
qed



text \<open>C37: the server starts exactly if everything it was asked to use can be used: each identity
  is read, the socket opens, the files of keys open and hold nothing but keys, comments and blank lines
  (as far as they are read), the message of the day is read and the log opens. Otherwise, or for
  \<open>--version\<close>, it ends without serving anybody.\<close>

theorem start_iff:
  "(\<exists>s. main os lib low us ms cs version opts now = Serving s) \<longleftrightarrow>
    \<not> opt_Version opts \<and>
    (\<forall>path\<in>set (opt_Identity opts). \<exists>k. ReadPrivateKey os now (expand_home os path) = Inr k) \<and>
    Listen os (opt_Bind opts) = None \<and> file_good os now (opt_Admin opts) \<and> file_good os now (allow_path opts) \<and>
    (opt_Motd opts = [] \<or> (\<exists>text. ReadFile os now (opt_Motd opts) = Inr text)) \<and>
    (opt_Log opts = [] \<or> opt_Log opts = ''-'' \<or> OpenLog os (opt_Log opts) = None)"
proof -
  have ids: "(\<exists>ks. add_identities os now paths keys = Inr ks) \<longleftrightarrow>
      (\<forall>path\<in>set paths. \<exists>k. ReadPrivateKey os now (expand_home os path) = Inr k)" for paths keys
    by (induction paths arbitrary: keys) (auto split: sum.splits)
  have auth: "(\<exists>b. configure_auth os lib opts now a = Inr b) \<longleftrightarrow> file_good os now (opt_Admin opts) \<and> file_good os now (allow_path opts)" for a
    by (simp add: configure_auth_result)
  have motd: "(\<exists>h'. configure_motd os opts now h = Inr h') \<longleftrightarrow> opt_Motd opts = [] \<or> (\<exists>text. ReadFile os now (opt_Motd opts) = Inr text)" for h
    by (auto simp: configure_motd_def load_motd_def Let_def split: sum.splits)
  have log: "(\<exists>h'. configure_log os opts h = Inr h') \<longleftrightarrow> opt_Log opts = [] \<or> opt_Log opts = ''-'' \<or> OpenLog os (opt_Log opts) = None" for h
    by (auto simp: configure_log_def split: option.splits)
  let ?h = "SetTheme (Themes ! 0) (NewHost low (NewAuth low) us ms cs)\<lparr>Version := version\<rparr>"
  have "(\<exists>s. main os lib low us ms cs version opts now = Serving s) \<longleftrightarrow>
    \<not> opt_Version opts \<and> (\<exists>ks. add_identities os now (opt_Identity opts) [] = Inr ks) \<and> Listen os (opt_Bind opts) = None \<and>
    (\<exists>b. configure_auth os lib opts now (auth_db ?h) = Inr b \<and>
      (\<exists>h. configure_motd os opts now (?h\<lparr>auth_db := b\<rparr>) = Inr h \<and> (\<exists>h'. configure_log os opts h = Inr h')))"
    by (auto simp: main_def Let_def split: sum.splits option.splits)
  then show ?thesis using auth [of "auth_db ?h"] unfolding ids log by (simp add: motd)
qed

theorem start_iff_witness:
  "(\<exists>s. ex_main ''a'' = Serving s) \<and>
    (\<nexists>s. main (ex_system\<lparr>Listen := \<lambda>b. Some ''in use''\<rparr>) (sample_lib []) id ex_user (\<lambda>k. \<lparr>m_user = k, is_op = False, isMuted = False\<rparr>)
      (\<lambda>p. ex_conn) [] (ex_options [] ''a'') 0 = Serving s)"
proof -
  have "\<exists>s. ex_main ''a'' = Serving s"
    by (subst start_iff) (simp add: ex_options_def ex_readable)
  then show ?thesis by (simp add: start_iff)
qed

text \<open>A line of 64 KiB in a file of keys hides the keys behind it, without an error: the
  loader does not ask the scanner why it stopped.\<close>

theorem long_line_hides_keys:
  assumes "MaxScanTokenSize \<le> length l" and "CHR 0x0A \<notin> set l"
  shows "ScanLines (before @ CHR 0x0A # l @ CHR 0x0A # rest) = ScanLines (before @ [CHR 0x0A])"
proof -
  have "Split (before @ CHR 0x0A # l @ CHR 0x0A # rest) (CHR 0x0A) = Split before (CHR 0x0A) @ l # Split rest (CHR 0x0A)"
    using Split_append [of "l" "CHR 0x0A" rest] by (simp add: Split_append Split_one assms(2))
  moreover have "Split (before @ [CHR 0x0A]) (CHR 0x0A) = Split before (CHR 0x0A) @ [[]]"
    using Split_append [of before "CHR 0x0A" "[]"] by (simp add: Split_def)
  moreover have "takeWhile (\<lambda>l. length l < MaxScanTokenSize) (xs @ l # X) = takeWhile (\<lambda>l. length l < MaxScanTokenSize) xs" for xs X
    using assms(1) by (induction xs) simp_all
  ultimately show ?thesis using Split_nonempty [of rest] by (simp add: ScanLines_def Let_def butlast_append)
qed

lemma Replace_all_simps:
  "Replace_all [] old new = []"
  "old \<noteq> [] \<Longrightarrow> Replace_all (old @ s) old new = new @ Replace_all s old new"
  "\<not> prefix old (c # s) \<Longrightarrow> Replace_all (c # s) old new = c # Replace_all s old new"
  by (subst Replace_all.simps, force simp: HasPrefix_def)+

lemma motd_lines_simps:
  "motd_lines [] = []"
  "motd_lines (CHR 0x0A # s) = CHR 0x0D # CHR 0x0A # motd_lines s"
  "motd_lines (CHR 0x0D # CHR 0x0A # s) = CHR 0x0D # CHR 0x0A # motd_lines s"
  "c \<noteq> CHR 0x0A \<Longrightarrow> \<not> prefix [CHR 0x0D, CHR 0x0A] (c # s) \<Longrightarrow> motd_lines (c # s) = c # motd_lines s"
proof -
  have crlf: "Replace_all (CHR 0x0D # CHR 0x0A # s) [CHR 0x0D, CHR 0x0A] [CHR 0x0A] =
      CHR 0x0A # Replace_all s [CHR 0x0D, CHR 0x0A] [CHR 0x0A]" for s
    using Replace_all_simps(2) [of "[CHR 0x0D, CHR 0x0A]" s "[CHR 0x0A]"] by simp
  have lf: "Replace_all (CHR 0x0A # s) [CHR 0x0A] [CHR 0x0D, CHR 0x0A] =
      CHR 0x0D # CHR 0x0A # Replace_all s [CHR 0x0A] [CHR 0x0D, CHR 0x0A]" for s
    using Replace_all_simps(2) [of "[CHR 0x0A]" s "[CHR 0x0D, CHR 0x0A]"] by simp
  show "motd_lines [] = []" by (simp add: motd_lines_def Replace_all_simps(1))
  show "motd_lines (CHR 0x0A # s) = CHR 0x0D # CHR 0x0A # motd_lines s"
    by (simp add: motd_lines_def Replace_all_simps(3) lf)
  show "motd_lines (CHR 0x0D # CHR 0x0A # s) = CHR 0x0D # CHR 0x0A # motd_lines s"
    by (simp add: motd_lines_def crlf lf)
  show "motd_lines (c # s) = c # motd_lines s" if "c \<noteq> CHR 0x0A" "\<not> prefix [CHR 0x0D, CHR 0x0A] (c # s)"
    using that by (simp add: motd_lines_def Replace_all_simps(3))
qed

lemma motd_lines_line:
  "CHR 0x0A \<notin> set l \<Longrightarrow> motd_lines (l @ CHR 0x0A # s) = dropCR l @ CHR 0x0D # CHR 0x0A # motd_lines s"
  "CHR 0x0A \<notin> set l \<Longrightarrow> motd_lines l = l"
  by (induction l rule: induct_list012) (auto simp: motd_lines_simps dropCR_def)

text \<open>the message of the day shows the lines of its file, each ended by a carriage return and a
  line feed, whatever of the two kinds of line ends the file uses; what the loader gives is loaded unchanged.\<close>

theorem motd_lines_joins:
  "motd_lines s = GoStrings.Join (map dropCR (butlast (Split s (CHR 0x0A))) @ [last (Split s (CHR 0x0A))]) [CHR 0x0D, CHR 0x0A] \<and>
    motd_lines (motd_lines s) = motd_lines s"
proof (induction "length s" arbitrary: s rule: less_induct)
  case less
  show ?case
  proof (cases "CHR 0x0A \<in> set s")
    case False
    then show ?thesis by (simp add: motd_lines_line(2) Split_one)
  next
    case True
    then obtain l r where s: "s = l @ CHR 0x0A # r" "CHR 0x0A \<notin> set l" by (meson split_list_first)
    have split: "Split s (CHR 0x0A) = l # Split r (CHR 0x0A)" using s by (simp add: Split_append Split_one)
    have ne: "Split r (CHR 0x0A) \<noteq> []" by (rule Split_nonempty)
    have "length r < length s" by (simp add: s(1))
    note less [OF this]
    then have IH: "motd_lines r = GoStrings.Join (map dropCR (butlast (Split r (CHR 0x0A))) @ [last (Split r (CHR 0x0A))]) [CHR 0x0D, CHR 0x0A]"
        "motd_lines (motd_lines r) = motd_lines r"
      by blast+
    have m: "motd_lines s = dropCR l @ CHR 0x0D # CHR 0x0A # motd_lines r" using s by (simp add: motd_lines_line)
    have "motd_lines (motd_lines s) = motd_lines ((dropCR l @ [CHR 0x0D]) @ CHR 0x0A # motd_lines r)" by (simp add: m)
    also have "\<dots> = dropCR (dropCR l @ [CHR 0x0D]) @ CHR 0x0D # CHR 0x0A # motd_lines (motd_lines r)"
      using s(2) by (intro motd_lines_line(1)) (auto simp: dropCR_def dest: in_set_butlastD)
    also have "\<dots> = motd_lines s" by (simp add: m IH(2) dropCR_def)
    finally have same: "motd_lines (motd_lines s) = motd_lines s" .
    have "GoStrings.Join (x # xs @ [y]) sep = x @ sep @ GoStrings.Join (xs @ [y]) sep" for x y :: string and xs sep
      by (cases xs) simp_all
    then have "motd_lines s = GoStrings.Join (map dropCR (butlast (Split s (CHR 0x0A))) @ [last (Split s (CHR 0x0A))]) [CHR 0x0D, CHR 0x0A]"
      using ne by (simp add: m split IH(1))
    then show ?thesis using same by (rule conjI)
  qed
qed

end
