(* ===== verification/Journey.thy ===== *)
theory Journey
  imports TermRun Startup
begin

text \<open>
  From one end of the program to the other: a line that is typed on a shared terminal (\<open>TermRun\<close>), read by the
  goroutine of a connection (\<open>Connect_line\<close> of \<open>Host\<close>), parsed, and broadcast by the room.
\<close>

lemma length_of_runes: "length rs \<le> length (of_runes rs)"
proof (induction rs)
  case (Cons r rs)
  have "encode_rune r \<noteq> []" by (rule encode_rune_nonempty)
  then show ?case using Cons by (cases "encode_rune r") (simp_all add: of_runes_def)
qed (simp add: of_runes_def)

text \<open>What a member says, from the keys to the others.\<close>

lemma said_line:
  assumes "room_inv low w" and "permuting (order (base e))"
    and "uID w p \<noteq> []" and "member_at w (uID w p) = Some k" and "\<not> isMuted (members w k)"
    and "ln \<noteq> []" and "length ln \<le> 1024" and "\<not> HasPrefix ln ''/''"
  shows "\<exists>w'. Connect_line e i tf api False written p ln w = Some w' \<and>
    (\<forall>q. same_mail (users w' q)
      (if q \<in> room_users w \<and> wants (now_of e) (uID w p) (PublicMsg ln (now_of e) (Some p)) (users w q)
       then snd (Send (select i q) (PublicMsg ln (now_of e) (Some p)) (users w q)) else users w q))"
proof -
  let ?m = "PublicMsg ln (now_of e) (Some p)"
  have adm: "admitted w ?m = Some (uID w p)" using assms(3-5) by (simp add: admitted_def)
  have "ParseInput (now_of e) ln (Some p) = Some ?m"
    using ParseInput_total [of ln "now_of e" "Some p"] assms(8) by simp
  then have "Connect_line e i tf api False written p ln w = Host_HandleMsg e i ?m w"
    using assms(6,7) by (simp add: Connect_line_def maxInputLength_def)
  moreover have "to_all ?m" by simp
  ultimately show ?thesis
    using broadcast_mail [OF assms(1,2) _ adm, of "Commands_Run (\<lambda>h. host_call h e) host_commands" "err_string i" "log_line i" "select i" "now_of e"]
    unfolding Host_HandleMsg_def by metis
qed



end
